(* ===== verification/Go_Std.thy ===== *)
theory Go_Std
  imports Main
begin

text \<open>
  Prelude: the parts of Go and of its standard library that the worker uses.

  \<^item> \<open>int64\<close> values are HOL integers with the wrap-around written out (\<open>i64\<close>);
    \<open>time.Duration\<close> is such an integer of nanoseconds.
  \<^item> \<open>time.Time\<close> is a wall-clock reading: seconds since year 1 (\<open>int64\<close>) and nanoseconds.
    The monotonic reading that \<open>time.Now\<close> adds is left out; the worker takes its clock as an
    injectable function and its tests inject clocks without one.
  \<^item> errors are values of \<open>gerr\<close>: a plain message, a message that wraps another error
    (\<open>fmt.Errorf\<close> with \<open>%w\<close>), a \<open>*url.Error\<close>, and the few sentinel errors the code tests for.
  \<^item> a fallible call returns \<open>gerr + 'a\<close>; effects are explicit state passing.
  \<^item> the \<open>strings\<close> functions work on bytes (\<open>char\<close>), as Go strings do.
\<close>

named_theorems go_defs \<open>unfolding equations of the small standard-library helpers\<close>
named_theorems time_simps \<open>facts about times and durations\<close>

section \<open>Machine integers and durations\<close>

type_synonym duration = int

definition i64 :: "int \<Rightarrow> int" where
  "i64 x = (x + 2 ^ 63) mod 2 ^ 64 - 2 ^ 63"

definition is_i64 :: "int \<Rightarrow> bool" where
  "is_i64 x \<longleftrightarrow> - (2 ^ 63) \<le> x \<and> x < 2 ^ 63"

definition u64 :: "int \<Rightarrow> int" where
  "u64 x = x mod 2 ^ 64"

text \<open>Go's integer division and remainder truncate towards zero.\<close>

definition go_div :: "int \<Rightarrow> int \<Rightarrow> int" where
  "go_div a b = sgn a * sgn b * (\<bar>a\<bar> div \<bar>b\<bar>)"

definition go_rem :: "int \<Rightarrow> int \<Rightarrow> int" where
  "go_rem a b = a - b * go_div a b"

definition second :: duration where "second = 1000000000"
definition millisecond :: duration where "millisecond = 1000000"
definition minute :: duration where "minute = 60 * second"
definition hour :: duration where "hour = 60 * minute"

definition max_duration :: duration where "max_duration = 2 ^ 63 - 1"
definition min_duration :: duration where "min_duration = - (2 ^ 63)"

lemma i64_range [simp]: "is_i64 (i64 x)"
proof -
  have "0 \<le> (x + 2 ^ 63) mod 2 ^ 64" and "(x + 2 ^ 63) mod 2 ^ 64 < (2 :: int) ^ 64"
    by simp_all
  then show ?thesis by (simp add: is_i64_def i64_def)
qed

lemma i64_id [simp]: "is_i64 x \<Longrightarrow> i64 x = x"
  by (simp add: is_i64_def i64_def)

lemma i64_cong: "i64 x mod 2 ^ 64 = x mod 2 ^ 64"
  by (simp add: i64_def mod_diff_left_eq)

lemma u64_of_nonneg_i64: "is_i64 x \<Longrightarrow> 0 \<le> x \<Longrightarrow> u64 x = x"
  by (simp add: u64_def is_i64_def)

lemma go_div_pos: "0 \<le> a \<Longrightarrow> 0 < b \<Longrightarrow> go_div a b = a div b"
  by (cases "a = 0") (simp_all add: go_div_def)

lemma second_pos [simp]: "0 < second"
  by (simp add: second_def)

section \<open>Time\<close>

record gotime =
  sec :: int
  nsec :: int

definition valid_time :: "gotime \<Rightarrow> bool" where
  "valid_time t \<longleftrightarrow> is_i64 (sec t) \<and> 0 \<le> nsec t \<and> nsec t < second"

text \<open>The zero \<open>time.Time\<close>: 1 January of year 1.\<close>

definition zero_time :: gotime where
  "zero_time = \<lparr>sec = 0, nsec = 0\<rparr>"

text \<open>\<open>time.Unix(s, 0)\<close>: the addition of the epoch offset wraps.\<close>

definition time_unix :: "int \<Rightarrow> gotime" where
  "time_unix s = \<lparr>sec = i64 (s + 62135596800), nsec = 0\<rparr>"

definition sat_sec :: "int \<Rightarrow> int" where
  "sat_sec x = (if x < - (2 ^ 63) then - (2 ^ 63) + 1 else if 2 ^ 63 \<le> x then 2 ^ 63 - 1 else x)"

text \<open>\<open>Time.Add\<close>: carry between nanoseconds and seconds, seconds saturate.\<close>

definition time_add :: "gotime \<Rightarrow> duration \<Rightarrow> gotime" where
  "time_add t d =
     (let dsec = go_div d second; n = nsec t + go_rem d second
      in if second \<le> n then \<lparr>sec = sat_sec (sec t + (dsec + 1)), nsec = n - second\<rparr>
         else if n < 0 then \<lparr>sec = sat_sec (sec t + (dsec - 1)), nsec = n + second\<rparr>
         else \<lparr>sec = sat_sec (sec t + dsec), nsec = n\<rparr>)"

definition time_before :: "gotime \<Rightarrow> gotime \<Rightarrow> bool" where
  "time_before t u \<longleftrightarrow> sec t < sec u \<or> (sec t = sec u \<and> nsec t < nsec u)"

text \<open>\<open>Time.Sub\<close> saturates at the extreme durations.\<close>

definition time_sub :: "gotime \<Rightarrow> gotime \<Rightarrow> duration" where
  "time_sub t u =
     (let d = (sec t - sec u) * second + (nsec t - nsec u)
      in if d < min_duration then min_duration else if max_duration < d then max_duration else d)"

text \<open>The instant as one number, to reason about order and addition.\<close>

definition nanos :: "gotime \<Rightarrow> int" where
  "nanos t = sec t * second + nsec t"

text \<open>Adding \<open>d\<close> to \<open>t\<close> stays inside the representable instants.\<close>

definition add_in_range :: "gotime \<Rightarrow> duration \<Rightarrow> bool" where
  "add_in_range t d \<longleftrightarrow> - (2 ^ 63) * second \<le> nanos t + d \<and> nanos t + d < 2 ^ 63 * second"

lemma go_div_rem: "a = b * go_div a b + go_rem a b"
  by (simp add: go_rem_def)

lemma go_rem_bounds:
  assumes "0 < b" shows "- b < go_rem a b \<and> go_rem a b < b"
proof -
  have *: "go_rem a b = sgn a * (\<bar>a\<bar> mod b)"
    using assms by (simp add: go_rem_def go_div_def sgn_if minus_mult_div_eq_mod algebra_simps
        flip: minus_mult_div_eq_mod)
  have "- b < sgn a * r \<and> sgn a * r < b" if "0 \<le> r" "r < b" for r
    using that assms by (auto simp: sgn_if)
  then show ?thesis unfolding * using assms by simp
qed

lemma nanos_before [time_simps]:
  assumes "valid_time t" "valid_time u"
  shows "time_before t u \<longleftrightarrow> nanos t < nanos u"
proof -
  have "sec t < sec u \<Longrightarrow> nanos t < nanos u"
  proof -
    assume "sec t < sec u"
    then have "(sec t + 1) * second \<le> sec u * second" by (simp add: second_def)
    then show ?thesis using assms by (simp add: nanos_def valid_time_def algebra_simps)
  qed
  moreover have "sec u < sec t \<Longrightarrow> nanos u < nanos t"
  proof -
    assume "sec u < sec t"
    then have "(sec u + 1) * second \<le> sec t * second" by (simp add: second_def)
    then show ?thesis using assms by (simp add: nanos_def valid_time_def algebra_simps)
  qed
  ultimately show ?thesis
    by (cases "sec t" "sec u" rule: linorder_cases) (auto simp: time_before_def nanos_def)
qed

lemma time_add_nanos [time_simps]:
  assumes "valid_time t" "add_in_range t d"
  shows "nanos (time_add t d) = nanos t + d \<and> valid_time (time_add t d)"
proof -
  let ?q = "go_div d second" and ?r = "go_rem d second"
  have d: "d = second * ?q + ?r" by (rule go_div_rem)
  have r: "- second < ?r" "?r < second" using go_rem_bounds [OF second_pos] by simp_all
  have n: "0 \<le> nsec t" "nsec t < second" using assms by (simp_all add: valid_time_def)
  have tot: "nanos t + d = (sec t + ?q) * second + (nsec t + ?r)"
    by (subst d) (simp add: nanos_def algebra_simps)
  have sat: "sat_sec s = s" if "nanos t + d = s * second + m" "0 \<le> m" "m < second" for s m
  proof -
    have "- (2 ^ 63) * second \<le> s * second + m" "s * second + m < 2 ^ 63 * second"
      using assms that(1) by (simp_all add: add_in_range_def)
    with that(2,3) have "- (2 ^ 63) \<le> s" "s < 2 ^ 63" by (simp_all add: second_def)
    then show ?thesis by (simp add: sat_sec_def)
  qed
  have key: "nanos \<lparr>sec = sat_sec s, nsec = m\<rparr> = nanos t + d \<and> valid_time \<lparr>sec = sat_sec s, nsec = m\<rparr>"
    if e: "nanos t + d = s * second + m" and m: "0 \<le> m" "m < second" for s m
  proof -
    have "- (2 ^ 63) * second \<le> s * second + m" "s * second + m < 2 ^ 63 * second"
      using assms e by (simp_all add: add_in_range_def)
    with m have "is_i64 s" by (simp add: is_i64_def second_def)
    with sat [OF e m] e m show ?thesis by (simp add: nanos_def valid_time_def)
  qed
  consider "second \<le> nsec t + ?r" | "nsec t + ?r < 0" | "0 \<le> nsec t + ?r" "nsec t + ?r < second"
    by linarith
  then show ?thesis
  proof cases
    case 1
    with r n show ?thesis
      using key [of "sec t + (?q + 1)" "nsec t + ?r - second"] tot
      by (simp add: time_add_def Let_def algebra_simps)
  next
    case 2
    with r n show ?thesis
      using key [of "sec t + (?q - 1)" "nsec t + ?r + second"] tot
      by (simp add: time_add_def Let_def algebra_simps)
  next
    case 3
    then show ?thesis
      using key [of "sec t + ?q" "nsec t + ?r"] tot
      by (simp add: time_add_def Let_def algebra_simps)
  qed
qed

lemma nanos_sub:
  "time_sub t u = max min_duration (min max_duration (nanos t - nanos u))"
proof -
  have "(sec t - sec u) * second + (nsec t - nsec u) = nanos t - nanos u"
    by (simp add: nanos_def algebra_simps)
  then show ?thesis by (simp add: time_sub_def Let_def max_def min_def min_duration_def max_duration_def)
qed

lemma time_sub_range: "is_i64 (time_sub t u)"
  by (simp add: nanos_sub is_i64_def min_duration_def max_duration_def)

lemma time_add_after:
  assumes "valid_time t" "0 < d" "add_in_range t d"
  shows "time_before t (time_add t d)"
  using assms time_add_nanos [of t d] by (simp add: nanos_before)

section \<open>Errors and results\<close>

text \<open>
  \<open>ErrQuoted p a s\<close> is a message with one \<open>%q\<close> argument \<open>a\<close> between \<open>p\<close> and \<open>s\<close>;
  \<open>ErrWrap p e\<close> is \<open>fmt.Errorf("<p>%w", e)\<close>; \<open>UrlError op url e\<close> is a \<open>*url.Error\<close>, whose
  text embeds the raw URL. \<open>ValkeyNil\<close> is the driver's nil reply as an error, \<open>ErrCtx\<close> the error
  of an expired context.
\<close>

datatype gerr =
    ErrMsg string
  | ErrQuoted string string string
  | ErrWrap string gerr
  | UrlError string string gerr
  | ValkeyNil
  | ErrCtx

type_synonym 'a result = "gerr + 'a"

text \<open>\<open>errors.As(err, &uerr)\<close> for a \<open>*url.Error\<close> target: the first one along the wrap chain.\<close>

fun as_url_error :: "gerr \<Rightarrow> (string \<times> string \<times> gerr) option" where
  "as_url_error (UrlError op u e) = Some (op, u, e)"
| "as_url_error (ErrWrap p e) = as_url_error e"
| "as_url_error _ = None"

text \<open>The raw URLs that the text of an error embeds.\<close>

fun err_urls :: "gerr \<Rightarrow> string list" where
  "err_urls (UrlError op u e) = u # err_urls e"
| "err_urls (ErrWrap p e) = err_urls e"
| "err_urls _ = []"

text \<open>What an error prints: the text that \<open>err.Error()\<close> gives, without the escapes of \<open>%q\<close>.\<close>

fun err_text :: "gerr \<Rightarrow> string" where
  "err_text (ErrMsg m) = m"
| "err_text (ErrQuoted p a q) = p @ CHR 0x22 # a @ CHR 0x22 # q"
| "err_text (ErrWrap p e) = p @ err_text e"
| "err_text (UrlError op u e) = op @ CHR '' '' # CHR 0x22 # u @ CHR 0x22 # CHR '':'' # CHR '' '' # err_text e"
| "err_text ValkeyNil = ''valkey nil message''"
| "err_text ErrCtx = ''context canceled''"

text \<open>The messages along an error's wrap chain, outermost first.\<close>

fun err_messages :: "gerr \<Rightarrow> string list" where
  "err_messages (ErrMsg m) = [m]"
| "err_messages (ErrQuoted p a q) = [p, a, q]"
| "err_messages (ErrWrap p e) = p # err_messages e"
| "err_messages (UrlError op u e) = err_messages e"
| "err_messages _ = []"

definition is_ok :: "'a result \<Rightarrow> bool" where
  "is_ok r \<longleftrightarrow> (\<exists>x. r = Inr x)"

lemma is_ok_simps [simp]: "is_ok (Inr x)" "\<not> is_ok (Inl e)"
  by (simp_all add: is_ok_def)

lemma is_ok_code [code]: "is_ok r = (case r of Inl _ \<Rightarrow> False | Inr _ \<Rightarrow> True)"
  by (cases r) simp_all

section \<open>Strings\<close>

text \<open>The decimal digits of a number, and \<open>%d\<close>.\<close>

fun digits :: "nat \<Rightarrow> string" where
  "digits n = (if n < 10 then [char_of (48 + n)] else digits (n div 10) @ [char_of (48 + n mod 10)])"

declare digits.simps [simp del]

definition show_int :: "int \<Rightarrow> string" where
  "show_int n = (if n < 0 then CHR ''-'' # digits (nat (- n)) else digits (nat n))"

text \<open>\<open>strings.HasPrefix\<close> and \<open>strings.Contains\<close>.\<close>

fun has_prefix :: "string \<Rightarrow> string \<Rightarrow> bool" where
  "has_prefix [] s = True"
| "has_prefix (x # xs) (y # ys) = (x = y \<and> has_prefix xs ys)"
| "has_prefix (x # xs) [] = False"

fun str_contains :: "string \<Rightarrow> string \<Rightarrow> bool" where
  "str_contains [] sub = (sub = [])"
| "str_contains (c # s) sub = (has_prefix sub (c # s) \<or> str_contains s sub)"

lemma has_prefix_append [simp]: "has_prefix p (p @ s)"
  by (induction p) auto

lemma has_prefix_iff: "has_prefix p s \<longleftrightarrow> (\<exists>r. s = p @ r)"
  by (induction p s rule: has_prefix.induct) auto

lemma str_contains_iff: "str_contains s sub \<longleftrightarrow> (\<exists>a b. s = a @ sub @ b)"
proof (induction s)
  case Nil
  show ?case by auto
next
  case (Cons c s)
  show ?case
    unfolding str_contains.simps Cons.IH has_prefix_iff
    by (metis append_Cons append_Nil list.sel(3) neq_Nil_conv)
qed

lemma str_contains_trans: "str_contains s u \<Longrightarrow> str_contains u v \<Longrightarrow> str_contains s v"
  unfolding str_contains_iff by (metis append.assoc)

text \<open>Text that holds no absolute URL: the mark of a scheme does not occur in it. A colon and a space
  cannot be part of one.\<close>

definition url_free :: "string \<Rightarrow> bool" where
  "url_free s \<longleftrightarrow> \<not> str_contains s ''://''"

lemma url_free_Cons [simp]:
  "url_free []" "url_free (c # s) \<longleftrightarrow> \<not> has_prefix ''://'' (c # s) \<and> url_free s"
  by (simp_all add: url_free_def)

lemma url_free_label: "url_free (k @ CHR '':'' # CHR '' '' # s) \<longleftrightarrow> url_free k \<and> url_free s"
proof (induction k)
  case Nil
  show ?case by simp
next
  case (Cons c k)
  have "has_prefix ''://'' (c # k @ CHR '':'' # CHR '' '' # s) \<longleftrightarrow> has_prefix ''://'' (c # k)"
    by (cases k; cases "tl k") auto
  with Cons show ?case by (simp del: has_prefix.simps)
qed

lemma url_free_digits: "url_free (digits n @ s) \<longleftrightarrow> url_free s"
proof (induction n arbitrary: s rule: digits.induct)
  case (1 n)
  have d: "char_of (48 + m) \<noteq> CHR '':''" if "m < 10" for m :: nat
  proof
    assume "char_of (48 + m) = CHR '':''"
    then have "of_char (char_of (48 + m) :: char) = (of_char (CHR '':'') :: nat)" by simp
    with that show False by simp
  qed
  show ?case
    using "1.IH" d [of n] d [of "n mod 10"] by (subst digits.simps) auto
qed

lemma url_free_int: "url_free (show_int n @ s) \<longleftrightarrow> url_free s"
  by (simp add: show_int_def url_free_digits)

text \<open>
  The UTF-8 encodings of the characters \<open>unicode.IsSpace\<close> accepts: the ASCII ones, then
  U+0085, U+00A0, U+1680, U+2000 to U+200A, U+2028, U+2029, U+202F, U+205F and U+3000.
\<close>

definition unicode_spaces :: "string list" where
  "unicode_spaces =
    [[CHR 0x09], [CHR 0x0A], [CHR 0x0B], [CHR 0x0C], [CHR 0x0D], [CHR 0x20], [CHR 0xC2, CHR 0x85],
     [CHR 0xC2, CHR 0xA0], [CHR 0xE1, CHR 0x9A, CHR 0x80], [CHR 0xE2, CHR 0x80, CHR 0x80],
     [CHR 0xE2, CHR 0x80, CHR 0x81], [CHR 0xE2, CHR 0x80, CHR 0x82], [CHR 0xE2, CHR 0x80, CHR 0x83],
     [CHR 0xE2, CHR 0x80, CHR 0x84], [CHR 0xE2, CHR 0x80, CHR 0x85], [CHR 0xE2, CHR 0x80, CHR 0x86],
     [CHR 0xE2, CHR 0x80, CHR 0x87], [CHR 0xE2, CHR 0x80, CHR 0x88], [CHR 0xE2, CHR 0x80, CHR 0x89],
     [CHR 0xE2, CHR 0x80, CHR 0x8A], [CHR 0xE2, CHR 0x80, CHR 0xA8], [CHR 0xE2, CHR 0x80, CHR 0xA9],
     [CHR 0xE2, CHR 0x80, CHR 0xAF], [CHR 0xE2, CHR 0x81, CHR 0x9F], [CHR 0xE3, CHR 0x80, CHR 0x80]]"

definition space_prefix :: "string list \<Rightarrow> string \<Rightarrow> nat" where
  "space_prefix ws s = (case find (\<lambda>w. has_prefix w s) ws of None \<Rightarrow> 0 | Some w \<Rightarrow> length w)"

text \<open>Drop leading encodings of \<open>ws\<close>; the length of the string is fuel enough.\<close>

fun trim_left_fuel :: "nat \<Rightarrow> string list \<Rightarrow> string \<Rightarrow> string" where
  "trim_left_fuel 0 ws s = s"
| "trim_left_fuel (Suc n) ws s =
     (let k = space_prefix ws s in if k = 0 then s else trim_left_fuel n ws (drop k s))"

definition trim_space :: "string \<Rightarrow> string" where
  "trim_space s =
     (let l = trim_left_fuel (length s) unicode_spaces s
      in rev (trim_left_fuel (length l) (map rev unicode_spaces) (rev l)))"

text \<open>\<open>strings.TrimRight(s, c)\<close> for a one-character cutset.\<close>

definition trim_right :: "char \<Rightarrow> string \<Rightarrow> string" where
  "trim_right c s = rev (dropWhile (\<lambda>x. x = c) (rev s))"

text \<open>With the length as fuel the loop ends because no space is left in front.\<close>

lemma trim_left_fuel_done:
  "length s \<le> n \<Longrightarrow> space_prefix ws (trim_left_fuel n ws s) = 0"
proof (induction n arbitrary: s)
  case 0
  then have "s = []" by simp
  have "w = [] \<or> \<not> has_prefix w []" for w by (cases w) auto
  then have "space_prefix ws [] = 0"
    by (auto simp: space_prefix_def find_Some_iff split: option.splits)
  with \<open>s = []\<close> show ?case by simp
next
  case (Suc n)
  then show ?case by (auto simp: Let_def)
qed

lemma trim_right_no_suffix: "trim_right c s = [] \<or> last (trim_right c s) \<noteq> c"
proof (cases "dropWhile (\<lambda>x. x = c) (rev s)")
  case Nil
  then show ?thesis by (simp add: trim_right_def)
next
  case (Cons x xs)
  then have "x \<noteq> c" using hd_dropWhile [of "\<lambda>x. x = c" "rev s"] by simp
  with Cons show ?thesis by (simp add: trim_right_def)
qed

end
