(* ===== verification/Trust_Library.thy ===== *)
theory Trust_Library
  imports Go_Std
begin

text \<open>
  The interface of the two third-party modules the worker is built on: \<open>go-eudi-trust\<close>
  (package \<open>trust\<close>: the client of the trust-anchor service) and \<open>go-verifier-helpers/trustcache\<close>
  (the cache data types and the key contract). Their code is not part of the repository, so
  only the fields and functions the worker's source uses appear: the struct types as records,
  the functions as parameters (\<open>key_contract\<close>, \<open>codec\<close>, \<open>trust_client\<close>) with their documented
  behaviour as the assumptions of the locales \<open>trust_keys\<close> and \<open>cache_codec\<close>.
\<close>

section \<open>Package trust: anchor types, anchor sets, snapshots, the client\<close>

text \<open>\<open>trust.AnchorType\<close> is a string type with eleven named constants; any other string is
  \<open>OtherType\<close>.\<close>

datatype anchor_type =
    PIDProvider | QEAAProvider | PubEAAProvider | EAAProvider
  | WalletProvider | AccessCA | WRPRCIssuer
  | PIDProviderStatus | QEAAProviderStatus | PubEAAProviderStatus | EAAProviderStatus
  | OtherType string

text \<open>\<open>Cert\<close> is a possibly nil \<open>*x509.Certificate\<close>, of which the worker reads \<open>Raw\<close> only.\<close>

record trust_anchor =
  ta_cert :: "string option"
  ta_country :: string
  ta_status :: string
  ta_valid_until :: gotime
  ta_tl_sequence :: int
  ta_use_cases :: "string list"

record anchor_set =
  as_anchors :: "trust_anchor list"
  as_snapshot :: string
  as_stale :: bool

record territory_status =
  ts_code :: string
  ts_tl_sequence :: int
  ts_stale :: bool
  ts_next_update :: "gotime option"

record snapshot_meta =
  sm_id :: string
  sm_lotl_sequence :: int
  sm_pending_bootstrap :: bool
  sm_territories :: "territory_status list"

text \<open>
  \<open>trust.Client\<close> over an environment \<open>'c\<close> (the network and the trust-anchor service):
  \<open>Anchors(type, territory, etag)\<close> gives the set and \<open>ok\<close> (false for a 304), or an error.
\<close>

record 'c trust_client =
  tc_anchors :: "anchor_type \<Rightarrow> string \<Rightarrow> string \<Rightarrow> 'c \<Rightarrow> (anchor_set \<times> bool) result \<times> 'c"
  tc_snapshot :: "'c \<Rightarrow> snapshot_meta result \<times> 'c"

section \<open>Package trustcache: cache entries and freshness records\<close>

record cached_anchor =
  ca_cert_der :: string
  ca_territory :: string
  ca_status :: string
  ca_valid_until :: gotime
  ca_tl_sequence :: int
  ca_use_cases :: "string list"

record anchor_set_entry =
  en_snapshot_id :: string
  en_type :: string
  en_territory :: string
  en_fetched_at :: gotime
  en_valid_until :: gotime
  en_upstream_stale :: bool
  en_anchors :: "cached_anchor list"

record type_freshness =
  fr_snapshot_id :: string
  fr_fetched_at :: gotime
  fr_valid_until :: gotime
  fr_upstream_stale :: bool

record territory_health =
  th_tl_sequence :: int
  th_stale :: bool
  th_next_update :: "gotime option"

record snapshot_health =
  sh_snapshot_id :: string
  sh_lotl_sequence :: int
  sh_checked_at :: gotime
  sh_upstream_stale :: bool
  sh_pending_bootstrap :: bool
  sh_territories :: "string \<rightharpoonup> territory_health"

section \<open>The key contract\<close>

record key_contract =
  anchor_set_key :: "string \<Rightarrow> string \<Rightarrow> string"
  territory_index_key :: "string \<Rightarrow> string"
  etag_key :: "string \<Rightarrow> string"
  freshness_key :: "string \<Rightarrow> string"
  status_list_key :: "string \<Rightarrow> string"
  snapshot_health_key :: string
  status_refs_key :: string
  normalize_territory :: "string \<Rightarrow> string"

text \<open>
  What the worker relies on: for the wire type names in use, the keys of different kinds,
  types or territories are different.
\<close>

locale trust_keys =
  fixes K :: key_contract and wire :: "string set"
  assumes anchor_key_inj:
      "t \<in> wire \<Longrightarrow> t' \<in> wire \<Longrightarrow> anchor_set_key K t x = anchor_set_key K t' y \<longleftrightarrow> t = t' \<and> x = y"
    and index_key_inj: "t \<in> wire \<Longrightarrow> t' \<in> wire \<Longrightarrow> territory_index_key K t = territory_index_key K t' \<longleftrightarrow> t = t'"
    and etag_key_inj: "t \<in> wire \<Longrightarrow> t' \<in> wire \<Longrightarrow> etag_key K t = etag_key K t' \<longleftrightarrow> t = t'"
    and freshness_key_inj: "t \<in> wire \<Longrightarrow> t' \<in> wire \<Longrightarrow> freshness_key K t = freshness_key K t' \<longleftrightarrow> t = t'"
    and anchor_not_index: "t \<in> wire \<Longrightarrow> t' \<in> wire \<Longrightarrow> anchor_set_key K t x \<noteq> territory_index_key K t'"
    and anchor_not_etag: "t \<in> wire \<Longrightarrow> t' \<in> wire \<Longrightarrow> anchor_set_key K t x \<noteq> etag_key K t'"
    and anchor_not_freshness: "t \<in> wire \<Longrightarrow> t' \<in> wire \<Longrightarrow> anchor_set_key K t x \<noteq> freshness_key K t'"
    and index_not_etag: "t \<in> wire \<Longrightarrow> t' \<in> wire \<Longrightarrow> territory_index_key K t \<noteq> etag_key K t'"
    and index_not_freshness: "t \<in> wire \<Longrightarrow> t' \<in> wire \<Longrightarrow> territory_index_key K t \<noteq> freshness_key K t'"
    and etag_not_freshness: "t \<in> wire \<Longrightarrow> t' \<in> wire \<Longrightarrow> etag_key K t \<noteq> freshness_key K t'"
begin

lemmas key_neq =
  anchor_not_index anchor_not_index [symmetric] anchor_not_etag anchor_not_etag [symmetric]
  anchor_not_freshness anchor_not_freshness [symmetric] index_not_etag index_not_etag [symmetric]
  index_not_freshness index_not_freshness [symmetric] etag_not_freshness etag_not_freshness [symmetric]

lemmas key_inj = anchor_key_inj index_key_inj etag_key_inj freshness_key_inj

end

section \<open>The JSON codec of the cached values\<close>

text \<open>
  \<open>json.Marshal\<close> and \<open>json.Unmarshal\<close> at the types the worker stores. The struct tags are in
  the library, so the text itself is a parameter; a value that marshals is read back unchanged
  when it is representable (\<open>wf\<close>: valid UTF-8 strings, years 0 to 9999).
\<close>

record codec =
  enc_entry :: "anchor_set_entry \<Rightarrow> string result"
  dec_entry :: "string \<Rightarrow> anchor_set_entry result"
  enc_index :: "string list \<Rightarrow> string result"
  dec_index :: "string \<Rightarrow> string list result"
  enc_freshness :: "type_freshness \<Rightarrow> string result"
  dec_freshness :: "string \<Rightarrow> type_freshness result"
  enc_health :: "snapshot_health \<Rightarrow> string result"

locale cache_codec =
  fixes C :: codec
    and wf_entry :: "anchor_set_entry \<Rightarrow> bool"
    and wf_index :: "string list \<Rightarrow> bool"
    and wf_freshness :: "type_freshness \<Rightarrow> bool"
  assumes dec_enc_entry: "wf_entry e \<Longrightarrow> enc_entry C e = Inr b \<Longrightarrow> dec_entry C b = Inr e"
    and dec_enc_index: "wf_index ts \<Longrightarrow> enc_index C ts = Inr b \<Longrightarrow> dec_index C b = Inr ts"
    and dec_enc_freshness: "wf_freshness fr \<Longrightarrow> enc_freshness C fr = Inr b \<Longrightarrow> dec_freshness C b = Inr fr"
    and dec_entry_wf: "dec_entry C b = Inr e \<Longrightarrow> wf_entry e"
    and wf_patch: "wf_entry e \<Longrightarrow> wf_freshness fr \<Longrightarrow> wf_entry (e\<lparr>en_valid_until := fr_valid_until fr\<rparr>)"

end
