(* ===== verification/Anchor_Types.thy ===== *)
theory Anchor_Types
  imports Trust_Library
begin

text \<open>
  \<open>internal/trustsync/types.go\<close>: the table between anchor types and wire names, and its two
  readings. The wire names are the taxonomy of the README.
\<close>

definition type_table :: "(anchor_type \<times> string) list" where
  "type_table =
    [(PIDProvider, ''pid_provider''),
     (QEAAProvider, ''qeaa_provider''),
     (PubEAAProvider, ''pub_eaa_provider''),
     (EAAProvider, ''eaa_provider''),
     (WalletProvider, ''wallet_provider''),
     (AccessCA, ''access_ca''),
     (WRPRCIssuer, ''wrprc_issuer''),
     (PIDProviderStatus, ''pid_provider_status''),
     (QEAAProviderStatus, ''qeaa_provider_status''),
     (PubEAAProviderStatus, ''pub_eaa_provider_status''),
     (EAAProviderStatus, ''eaa_provider_status'')]"

text \<open>\<open>string(t)\<close>: an anchor type as a string, for messages. The library's constants are the wire
  names (the tests read them back from the log).\<close>

fun wire_type_loop :: "(anchor_type \<times> string) list \<Rightarrow> anchor_type \<Rightarrow> string option" where
  "wire_type_loop [] t = None"
| "wire_type_loop ((e, w) # es) t = (if e = t then Some w else wire_type_loop es t)"

definition type_string :: "anchor_type \<Rightarrow> string" where
  "type_string t = (case t of OtherType s \<Rightarrow> s | _ \<Rightarrow> the (wire_type_loop type_table t))"

definition wire_type :: "anchor_type \<Rightarrow> string result" where
  "wire_type t =
     (case wire_type_loop type_table t of
        Some w \<Rightarrow> Inr w
      | None \<Rightarrow> Inl (ErrQuoted ''trustsync: unknown anchor type '' (type_string t) ''''))"

fun find_wire :: "(anchor_type \<times> string) list \<Rightarrow> string \<Rightarrow> anchor_type option" where
  "find_wire [] w = None"
| "find_wire ((t, e) # es) w = (if e = w then Some t else find_wire es w)"

fun parse_types_loop :: "anchor_type list \<Rightarrow> string list \<Rightarrow> anchor_type list result" where
  "parse_types_loop out [] = Inr out"
| "parse_types_loop out (w # ws) =
     (case find_wire type_table w of
        None \<Rightarrow> Inl (ErrQuoted ''trustsync: unknown anchor type '' w '' in configuration'')
      | Some t \<Rightarrow> parse_types_loop (out @ [t]) ws)"

definition parse_types :: "string list \<Rightarrow> anchor_type list result" where
  "parse_types ws = parse_types_loop [] ws"

text \<open>The wire names of the taxonomy.\<close>

definition wire_names :: "string list" where
  "wire_names = map snd type_table"

section \<open>The table is a bijection\<close>

lemma type_table_distinct: "distinct (map fst type_table)" "distinct wire_names"
  by (simp_all add: type_table_def wire_names_def)

lemma find_wire_map_of: "find_wire es w = map_of (map prod.swap es) w"
  by (induction es) auto

lemma wire_type_loop_map_of: "wire_type_loop es t = map_of es t"
  by (induction es) auto

lemma wire_type_iff: "wire_type t = Inr w \<longleftrightarrow> (t, w) \<in> set type_table"
  by (auto simp: wire_type_def wire_type_loop_map_of split: option.splits
      simp flip: map_of_eq_Some_iff [OF type_table_distinct(1)])

lemma find_wire_iff: "find_wire type_table w = Some t \<longleftrightarrow> (t, w) \<in> set type_table"
proof -
  have "distinct (map fst (map prod.swap type_table))"
    using type_table_distinct(2) by (simp add: wire_names_def comp_def)
  then show ?thesis by (force simp: find_wire_map_of)
qed

lemma find_wire_wire_type: "find_wire type_table w = Some t \<longleftrightarrow> wire_type t = Inr w"
  by (simp add: find_wire_iff wire_type_iff)

lemma wire_type_in_names: "wire_type t = Inr w \<Longrightarrow> w \<in> set wire_names"
  by (force simp: wire_type_iff wire_names_def)

lemma wire_type_error: "wire_type t = Inl e \<longleftrightarrow> (\<exists>s. t = OtherType s \<and>
    e = ErrQuoted ''trustsync: unknown anchor type '' s '''')"
  by (cases t) (auto simp: wire_type_def type_table_def type_string_def)

lemma wire_type_inj: "wire_type t = Inr w \<Longrightarrow> wire_type t' = Inr w \<Longrightarrow> t = t'"
  by (metis find_wire_wire_type option.inject)

lemma parse_types_loop_ok:
  "parse_types_loop out ws = Inr ts \<longleftrightarrow> (\<exists>us. ts = out @ us \<and> list_all2 (\<lambda>w t. wire_type t = Inr w) ws us)"
proof (induction ws arbitrary: out)
  case Nil
  show ?case by auto
next
  case (Cons w ws)
  show ?case
    by (cases "find_wire type_table w")
      (auto simp: Cons.IH list_all2_Cons1 find_wire_wire_type [symmetric])
qed

text \<open>The two mappings are inverse: no name is dropped, reordered or guessed.\<close>

lemma parse_types_ok: "parse_types ws = Inr ts \<longleftrightarrow> map wire_type ts = map Inr ws"
proof -
  have "list_all2 (\<lambda>w t. wire_type t = Inr w) ws ts \<longleftrightarrow> map wire_type ts = map Inr ws"
    by (induction ws arbitrary: ts) (auto simp: list_all2_Cons1 map_eq_Cons_conv)
  then show ?thesis by (simp add: parse_types_def parse_types_loop_ok)
qed

lemma parse_types_loop_error:
  "(\<exists>e. parse_types_loop out ws = Inl e) \<longleftrightarrow> (\<exists>w \<in> set ws. w \<notin> set wire_names)"
proof (induction ws arbitrary: out)
  case Nil
  show ?case by simp
next
  case (Cons w ws)
  have "find_wire type_table w = None \<longleftrightarrow> w \<notin> set wire_names"
    by (force simp: find_wire_map_of map_of_eq_None_iff wire_names_def)
  then show ?case by (cases "find_wire type_table w") (auto simp: Cons.IH)
qed

lemma parse_types_total: "set ws \<subseteq> set wire_names \<Longrightarrow> \<exists>ts. parse_types ws = Inr ts"
  using parse_types_loop_error [of "[]" ws] by (cases "parse_types ws") (auto simp: parse_types_def)

lemma parse_types_known: "parse_types ws = Inr ts \<Longrightarrow> set ws \<subseteq> set wire_names"
  using parse_types_loop_error [of "[]" ws] by (auto simp: parse_types_def)

text \<open>
  Configuration fails closed: \<open>ParseTypes\<close> fails exactly when some configured name is outside
  the taxonomy, and \<open>WireType\<close> fails exactly on a type that is none of the eleven.
\<close>

lemma unknown_type_rejected:
  "((\<exists>e. parse_types ws = Inl e) \<longleftrightarrow> \<not> set ws \<subseteq> set wire_names) \<and>
   ((\<exists>e. wire_type t = Inl e) \<longleftrightarrow> (\<exists>s. t = OtherType s))"
  by (auto simp: parse_types_def parse_types_loop_error wire_type_error)

section \<open>Properties\<close>

text \<open>
  C35. Configuration names and anchor types translate back and forth without loss: \<open>ParseTypes\<close> gives a list of types
  exactly when \<open>WireType\<close> of each, in order, gives the configured names back, so nothing is dropped, reordered,
  merged or guessed; \<open>WireType\<close> succeeds exactly on the eleven named types, with the README's eleven names.
\<close>

theorem taxonomy_round_trip:
  "(parse_types ws = Inr ts \<longleftrightarrow> map wire_type ts = map Inr ws) \<and>
   (is_ok (wire_type t) \<longleftrightarrow> t \<in> {PIDProvider, QEAAProvider, PubEAAProvider, EAAProvider, WalletProvider, AccessCA,
      WRPRCIssuer, PIDProviderStatus, QEAAProviderStatus, PubEAAProviderStatus, EAAProviderStatus}) \<and>
   {k. \<exists>u. wire_type u = Inr k} = {''pid_provider'', ''qeaa_provider'', ''pub_eaa_provider'', ''eaa_provider'',
      ''wallet_provider'', ''access_ca'', ''wrprc_issuer'', ''pid_provider_status'', ''qeaa_provider_status'',
      ''pub_eaa_provider_status'', ''eaa_provider_status''} \<and>
   (is_ok (parse_types ws) \<longleftrightarrow> set ws \<subseteq> {k. \<exists>u. wire_type u = Inr k})"
proof (intro conjI)
  show "parse_types ws = Inr ts \<longleftrightarrow> map wire_type ts = map Inr ws" by (rule parse_types_ok)
  show "is_ok (wire_type t) \<longleftrightarrow> t \<in> {PIDProvider, QEAAProvider, PubEAAProvider, EAAProvider, WalletProvider, AccessCA,
      WRPRCIssuer, PIDProviderStatus, QEAAProviderStatus, PubEAAProviderStatus, EAAProviderStatus}"
    by (cases t) (simp_all add: wire_type_def type_table_def)
  have names: "{k. \<exists>u. wire_type u = Inr k} = set wire_names"
    by (force simp: wire_type_iff wire_names_def)
  then show "{k. \<exists>u. wire_type u = Inr k} = {''pid_provider'', ''qeaa_provider'', ''pub_eaa_provider'', ''eaa_provider'',
      ''wallet_provider'', ''access_ca'', ''wrprc_issuer'', ''pid_provider_status'', ''qeaa_provider_status'',
      ''pub_eaa_provider_status'', ''eaa_provider_status''}"
    by (simp add: wire_names_def type_table_def)
  have "is_ok (parse_types ws) \<longleftrightarrow> set ws \<subseteq> set wire_names"
    using parse_types_total [of ws] parse_types_known [of ws] by (auto simp: is_ok_def)
  with names show "is_ok (parse_types ws) \<longleftrightarrow> set ws \<subseteq> {k. \<exists>u. wire_type u = Inr k}" by simp
qed

end
