(* ===== verification/Worker_Effects.thy ===== *)
theory Worker_Effects
  imports Trust_Library
begin

text \<open>
  The observable side effects of the background jobs: counters and histograms of the platform
  kit's \<open>observability\<close> package and structured log lines (\<open>zap\<close>). Both are only written, so
  they are event lists, the latest event last. Label and outcome names are the ones the
  README's metrics table gives.
\<close>

datatype metric_event =
    IncCounter string "(string \<times> string) list"
  | ObserveSeconds string "(string \<times> string) list" duration

datatype log_level = LInfo | LWarn | LError

datatype log_value = LvStr string | LvInt int | LvBool bool | LvErr gerr

record log_entry =
  le_level :: log_level
  le_msg :: string
  le_fields :: "(string \<times> log_value) list"

record obs =
  ob_metrics :: "metric_event list"
  ob_log :: "log_entry list"

definition no_obs :: obs where
  "no_obs = \<lparr>ob_metrics = [], ob_log = []\<rparr>"

definition add_metric :: "metric_event \<Rightarrow> obs \<Rightarrow> obs" where
  "add_metric m ob = ob\<lparr>ob_metrics := ob_metrics ob @ [m]\<rparr>"

definition add_log :: "log_level \<Rightarrow> string \<Rightarrow> (string \<times> log_value) list \<Rightarrow> obs \<Rightarrow> obs" where
  "add_log lvl msg fs ob =
     ob\<lparr>ob_log := ob_log ob @ [\<lparr>le_level = lvl, le_msg = msg, le_fields = fs\<rparr>]\<rparr>"

lemma ob_metrics_add [simp]:
  "ob_metrics (add_metric m ob) = ob_metrics ob @ [m]" "ob_metrics (add_log l s fs ob) = ob_metrics ob"
  by (simp_all add: add_metric_def add_log_def)

lemma ob_log_add [simp]:
  "ob_log (add_metric m ob) = ob_log ob"
  "ob_log (add_log l s fs ob) = ob_log ob @ [\<lparr>le_level = l, le_msg = s, le_fields = fs\<rparr>]"
  by (simp_all add: add_metric_def add_log_def)

text \<open>The label \<open>outcome\<close> and its values.\<close>

definition outcome :: "string \<Rightarrow> string \<times> string" where
  "outcome v = (''outcome'', v)"

text \<open>Errors a log line carries.\<close>

fun log_errors :: "(string \<times> log_value) list \<Rightarrow> gerr list" where
  "log_errors [] = []"
| "log_errors ((n, LvErr e) # fs) = e # log_errors fs"
| "log_errors (_ # fs) = log_errors fs"

fun log_strings :: "(string \<times> log_value) list \<Rightarrow> string list" where
  "log_strings [] = []"
| "log_strings ((n, LvStr v) # fs) = v # log_strings fs"
| "log_strings (_ # fs) = log_strings fs"

end
