(* ===== verification/Health_State.thy ===== *)
theory Health_State
  imports Trust_Library
begin

text \<open>
  \<open>internal/health/state.go\<close>: the worker's readiness state. The mutex makes every method atomic,
  so each is one function on the state; the injected clock's reading is an argument. The gauge
  registration that \<open>SetTypeFreshness\<close> and \<open>SetSnapshot\<close> also perform is in \<open>Health_Metrics\<close>.
\<close>

section \<open>State and operations\<close>

record fresh_record =
  snapshotID :: string
  fetchedAt :: gotime
  validUntil :: gotime
  upstreamStale :: bool

record health_state =
  hs_required :: "string list"
  hs_fresh :: "string \<rightharpoonup> fresh_record"
  hs_snap :: "snapshot_health option"

definition new_state :: "string list \<Rightarrow> health_state" where
  "new_state required = \<lparr>hs_required = required, hs_fresh = Map.empty, hs_snap = None\<rparr>"

definition record_freshness ::
  "string \<Rightarrow> string \<Rightarrow> gotime \<Rightarrow> gotime \<Rightarrow> bool \<Rightarrow> health_state \<Rightarrow> health_state" where
  "record_freshness key_type snap fetched valid stale h =
     h\<lparr>hs_fresh := (hs_fresh h)(key_type \<mapsto>
        \<lparr>snapshotID = snap, fetchedAt = fetched, validUntil = valid, upstreamStale = stale\<rparr>)\<rparr>"

record type_status =
  st_type :: string
  st_synced :: bool
  st_snapshot_id :: string
  st_fetched_at :: gotime
  st_valid_until :: gotime
  st_upstream_stale :: bool

definition type_status_of :: "health_state \<Rightarrow> string \<Rightarrow> type_status" where
  "type_status_of h t =
     (case hs_fresh h t of
        Some fr \<Rightarrow> \<lparr>st_type = t, st_synced = True, st_snapshot_id = snapshotID fr,
          st_fetched_at = fetchedAt fr, st_valid_until = validUntil fr, st_upstream_stale = upstreamStale fr\<rparr>
      | None \<Rightarrow> \<lparr>st_type = t, st_synced = False, st_snapshot_id = [],
          st_fetched_at = zero_time, st_valid_until = zero_time, st_upstream_stale = False\<rparr>)"

definition type_statuses :: "health_state \<Rightarrow> type_status list" where
  "type_statuses h = map (type_status_of h) (hs_required h)"

fun ready_loop :: "health_state \<Rightarrow> gotime \<Rightarrow> string list \<Rightarrow> bool \<times> string" where
  "ready_loop h now [] = (True, [])"
| "ready_loop h now (t # ts) =
     (case hs_fresh h t of
        None \<Rightarrow> (False, ''anchor type never synced: '' @ t)
      | Some fr \<Rightarrow>
          if \<not> time_before now (validUntil fr) then (False, ''anchor cache expired for type: '' @ t)
          else ready_loop h now ts)"

definition ready :: "health_state \<Rightarrow> gotime \<Rightarrow> bool \<times> string" where
  "ready h now =
     (if hs_required h = [] then (False, ''no anchor types configured'')
      else ready_loop h now (hs_required h))"

definition record_snapshot :: "snapshot_health \<Rightarrow> health_state \<Rightarrow> health_state" where
  "record_snapshot sh h = h\<lparr>hs_snap := Some sh\<rparr>"

section \<open>Readiness\<close>

text \<open>A type is live when it has been synced and its horizon is in the future.\<close>

definition live :: "health_state \<Rightarrow> gotime \<Rightarrow> string \<Rightarrow> bool" where
  "live h now t \<longleftrightarrow> (case hs_fresh h t of None \<Rightarrow> False | Some fr \<Rightarrow> time_before now (validUntil fr))"

lemma ready_loop_prefix:
  "ready_loop h now ts =
     (case dropWhile (live h now) ts of
        [] \<Rightarrow> (True, [])
      | t # _ \<Rightarrow>
          (False, (if hs_fresh h t = None then ''anchor type never synced: '' else ''anchor cache expired for type: '') @ t))"
  by (induction ts) (auto simp: live_def split: option.splits)

lemma ready_loop_iff: "fst (ready_loop h now ts) \<longleftrightarrow> list_all (live h now) ts"
  by (induction ts) (auto simp: live_def split: option.splits)

lemma fst_ready: "fst (ready h now) \<longleftrightarrow> hs_required h \<noteq> [] \<and> list_all (live h now) (hs_required h)"
  by (simp add: ready_def ready_loop_iff)

lemma ready_filter:
  "ready h now =
     (if hs_required h = [] then (False, ''no anchor types configured'')
      else case filter (\<lambda>t. \<not> live h now t) (hs_required h) of
             [] \<Rightarrow> (True, [])
           | t # _ \<Rightarrow>
               (False, (if hs_fresh h t = None then ''anchor type never synced: ''
                        else ''anchor cache expired for type: '') @ t))"
proof -
  have "filter (\<lambda>t. \<not> live h now t) ts = (case dropWhile (live h now) ts of
      [] \<Rightarrow> [] | t # us \<Rightarrow> t # filter (\<lambda>t. \<not> live h now t) us)" for ts
    by (induction ts) auto
  from this [of "hs_required h"] show ?thesis
    by (cases "dropWhile (live h now) (hs_required h)") (simp_all add: ready_def ready_loop_prefix del: filter_empty_conv dropWhile_eq_Nil_conv)
qed

text \<open>
  \<open>/readyz\<close> fails closed: \<open>Ready\<close> is true exactly when some type is configured and every
  configured type has been synced and is still before its horizon; then the reason is empty.
  Otherwise the reason names the first configured type that is not live (never synced, or expired),
  or says that nothing is configured.
\<close>

lemma ready_exact:
  "ready h now =
     (if hs_required h = [] then (False, ''no anchor types configured'')
      else case filter (\<lambda>t. \<not> live h now t) (hs_required h) of
             [] \<Rightarrow> (True, [])
           | t # _ \<Rightarrow>
               (False, (if hs_fresh h t = None then ''anchor type never synced: ''
                        else ''anchor cache expired for type: '') @ t))"
  by (rule ready_filter)

text \<open>The reports of one configuration: readiness and operator status never disagree.\<close>

lemma live_status:
  "live h now t \<longleftrightarrow> st_synced (type_status_of h t) \<and> time_before now (st_valid_until (type_status_of h t))"
  by (simp add: live_def type_status_of_def split: option.splits)

text \<open>
  The operator report and the readiness probe agree: \<open>TypeStatuses\<close> lists every configured type
  once, in configuration order, and \<open>Ready\<close> is true exactly when the list is not empty, every entry
  is synced and every reported horizon is in the future.
\<close>

lemma statuses_agree_with_ready:
  "map st_type (type_statuses h) = hs_required h \<and>
   (fst (ready h now) \<longleftrightarrow> type_statuses h \<noteq> [] \<and>
      list_all (\<lambda>st. st_synced st \<and> time_before now (st_valid_until st)) (type_statuses h))"
proof -
  have "st_type (type_status_of h t) = t" for t
    by (simp add: type_status_of_def split: option.splits)
  then show ?thesis
    by (simp add: type_statuses_def comp_def fst_ready list_all_iff live_status)
qed

lemma record_freshness_simps [simp]:
  "hs_required (record_freshness t sn f v st h) = hs_required h"
  "hs_snap (record_freshness t sn f v st h) = hs_snap h"
  "hs_fresh (record_freshness t sn f v st h) = (hs_fresh h)(t \<mapsto>
     \<lparr>snapshotID = sn, fetchedAt = f, validUntil = v, upstreamStale = st\<rparr>)"
  by (simp_all add: record_freshness_def)

lemma record_snapshot_simps [simp]:
  "hs_required (record_snapshot sh h) = hs_required h" "hs_fresh (record_snapshot sh h) = hs_fresh h"
  "hs_snap (record_snapshot sh h) = Some sh"
  by (simp_all add: record_snapshot_def)

lemma live_record:
  "live (record_freshness t sn f v st h) now u = (if u = t then time_before now v else live h now u)"
  by (simp add: live_def)

text \<open>As time passes without a sync a type only stops being live.\<close>

lemma live_antimono:
  "valid_time now \<Longrightarrow> valid_time now' \<Longrightarrow> nanos now \<le> nanos now' \<Longrightarrow>
     (\<And>fr. hs_fresh h t = Some fr \<Longrightarrow> valid_time (validUntil fr)) \<Longrightarrow> live h now' t \<Longrightarrow> live h now t"
  by (auto simp: live_def nanos_before split: option.splits)

end
