(* ===== verification/Health_Metrics.thy ===== *)
theory Health_Metrics
  imports Health_State Complex_Main
begin

text \<open>
  \<open>internal/health/metrics.go\<close>: the gauges. The package keeps a process-wide pointer to the
  current \<open>State\<close>, a once flag and the set of registered label names; the metrics registry
  (third-party) keeps the first callback registered under a name (\<open>GetOrCreateGauge\<close>). States are
  numbered, so that the pointer is an optional number. A \<open>%q\<close> label stays structured
  (metric, label, value). Gauge values are exact rationals instead of the nearest float.
\<close>

section \<open>Registry\<close>

datatype gauge_name = FixedName string | LabelName string string string

datatype gauge = GLotlSequence | GUpstreamStale | GPendingBootstrap | GType string | GTerritory string

record registry =
  rg_current :: "nat option"
  rg_once :: bool
  rg_labels :: "gauge_name list"
  rg_gauges :: "(gauge_name \<times> gauge) list"

definition empty_registry :: registry where
  "empty_registry = \<lparr>rg_current = None, rg_once = False, rg_labels = [], rg_gauges = []\<rparr>"

definition get_or_create_gauge :: "gauge_name \<Rightarrow> gauge \<Rightarrow> registry \<Rightarrow> registry" where
  "get_or_create_gauge n g rg =
     (if n \<in> fst ` set (rg_gauges rg) then rg else rg\<lparr>rg_gauges := rg_gauges rg @ [(n, g)]\<rparr>)"

definition register_metrics :: "nat \<Rightarrow> registry \<Rightarrow> registry" where
  "register_metrics a rg =
     (let rg = rg\<lparr>rg_current := Some a\<rparr>
      in if rg_once rg then rg
         else get_or_create_gauge (FixedName ''trust_cache_pending_bootstrap'') GPendingBootstrap
               (get_or_create_gauge (FixedName ''trust_cache_upstream_stale'') GUpstreamStale
                 (get_or_create_gauge (FixedName ''trust_cache_lotl_sequence'') GLotlSequence
                   (rg\<lparr>rg_once := True\<rparr>))))"

text \<open>\<open>LoadOrStore\<close> on the label set, then the registration.\<close>

definition register_label :: "gauge_name \<Rightarrow> gauge \<Rightarrow> registry \<Rightarrow> registry" where
  "register_label n g rg =
     (if n \<in> set (rg_labels rg) then rg
      else get_or_create_gauge n g (rg\<lparr>rg_labels := n # rg_labels rg\<rparr>))"

definition type_gauge_name :: "string \<Rightarrow> gauge_name" where
  "type_gauge_name t = LabelName ''trust_cache_anchor_staleness_seconds'' ''type'' t"

definition register_type_gauge :: "string \<Rightarrow> registry \<Rightarrow> registry" where
  "register_type_gauge t rg = register_label (type_gauge_name t) (GType t) rg"

definition territory_gauge_name :: "string \<Rightarrow> gauge_name" where
  "territory_gauge_name c = LabelName ''trust_cache_territory_stale'' ''territory'' c"

definition register_territory_gauge :: "string \<Rightarrow> registry \<Rightarrow> registry" where
  "register_territory_gauge c rg = register_label (territory_gauge_name c) (GTerritory c) rg"

section \<open>The state's values\<close>

definition staleness_seconds :: "health_state \<Rightarrow> gotime \<Rightarrow> string \<Rightarrow> rat" where
  "staleness_seconds h now t =
     (case hs_fresh h t of
        None \<Rightarrow> -1
      | Some fr \<Rightarrow> of_int (time_sub now (fetchedAt fr)) / of_int second)"

definition lotl_sequence :: "health_state \<Rightarrow> rat" where
  "lotl_sequence h = (case hs_snap h of None \<Rightarrow> 0 | Some sh \<Rightarrow> of_int (sh_lotl_sequence sh))"

definition upstream_stale :: "health_state \<Rightarrow> rat" where
  "upstream_stale h = (case hs_snap h of None \<Rightarrow> 0 | Some sh \<Rightarrow> if sh_upstream_stale sh then 1 else 0)"

definition pending_bootstrap :: "health_state \<Rightarrow> rat" where
  "pending_bootstrap h = (case hs_snap h of None \<Rightarrow> 0 | Some sh \<Rightarrow> if sh_pending_bootstrap sh then 1 else 0)"

definition territory_stale :: "health_state \<Rightarrow> string \<Rightarrow> rat" where
  "territory_stale h c =
     (case hs_snap h of
        None \<Rightarrow> 0
      | Some sh \<Rightarrow> (case sh_territories sh c of Some th \<Rightarrow> if th_stale th then 1 else 0 | None \<Rightarrow> 0))"

text \<open>What a callback reads: the current state, whichever it is by then.\<close>

definition gauge_value :: "(nat \<Rightarrow> health_state option) \<Rightarrow> registry \<Rightarrow> gotime \<Rightarrow> gauge \<Rightarrow> rat" where
  "gauge_value states rg now g =
     (case (rg_current rg, Option.bind (rg_current rg) states) of
        (Some a, Some h) \<Rightarrow>
          (case g of
             GLotlSequence \<Rightarrow> lotl_sequence h
           | GUpstreamStale \<Rightarrow> upstream_stale h
           | GPendingBootstrap \<Rightarrow> pending_bootstrap h
           | GType t \<Rightarrow> staleness_seconds h now t
           | GTerritory c \<Rightarrow> territory_stale h c)
      | _ \<Rightarrow> (case g of GType t \<Rightarrow> -1 | _ \<Rightarrow> 0))"

section \<open>The methods that record and register\<close>

definition set_type_freshness ::
  "string \<Rightarrow> string \<Rightarrow> gotime \<Rightarrow> gotime \<Rightarrow> bool \<Rightarrow> health_state \<times> registry \<Rightarrow> health_state \<times> registry" where
  "set_type_freshness t snap fetched valid stale hr =
     (record_freshness t snap fetched valid stale (fst hr), register_type_gauge t (snd hr))"

text \<open>The territories are registered in the iteration order \<open>order\<close> of the map.\<close>

definition set_snapshot ::
  "string list \<Rightarrow> snapshot_health \<Rightarrow> health_state \<times> registry \<Rightarrow> health_state \<times> registry" where
  "set_snapshot order sh hr = (record_snapshot sh (fst hr), fold register_territory_gauge order (snd hr))"

section \<open>Every recorded type and territory has its gauge\<close>

fun gauge_label :: "gauge \<Rightarrow> gauge_name" where
  "gauge_label GLotlSequence = FixedName ''trust_cache_lotl_sequence''"
| "gauge_label GUpstreamStale = FixedName ''trust_cache_upstream_stale''"
| "gauge_label GPendingBootstrap = FixedName ''trust_cache_pending_bootstrap''"
| "gauge_label (GType t) = type_gauge_name t"
| "gauge_label (GTerritory c) = territory_gauge_name c"

lemma gauge_label_inj: "gauge_label g = gauge_label g' \<longleftrightarrow> g = g'"
  by (cases g; cases g') (simp_all add: type_gauge_name_def territory_gauge_name_def)

text \<open>Names are registered once, each with the callback of that name, and a registered label has
  its gauge.\<close>

definition registry_ok :: "registry \<Rightarrow> bool" where
  "registry_ok rg \<longleftrightarrow>
     distinct (map fst (rg_gauges rg)) \<and> (\<forall>(n, g) \<in> set (rg_gauges rg). n = gauge_label g) \<and>
     set (rg_labels rg) \<subseteq> fst ` set (rg_gauges rg)"

definition has_gauge :: "registry \<Rightarrow> gauge \<Rightarrow> bool" where
  "has_gauge rg g \<longleftrightarrow> (gauge_label g, g) \<in> set (rg_gauges rg)"

lemma registered_is_own:
  "registry_ok rg \<Longrightarrow> gauge_label g \<in> fst ` set (rg_gauges rg) \<Longrightarrow> has_gauge rg g"
  by (auto simp: registry_ok_def has_gauge_def gauge_label_inj)

lemma get_or_create_ok:
  assumes "registry_ok rg"
  shows "registry_ok (get_or_create_gauge (gauge_label g) g rg) \<and>
    has_gauge (get_or_create_gauge (gauge_label g) g rg) g \<and>
    (\<forall>g'. has_gauge rg g' \<longrightarrow> has_gauge (get_or_create_gauge (gauge_label g) g rg) g')"
  using assms registered_is_own [OF assms, of g]
  by (auto simp: get_or_create_gauge_def registry_ok_def has_gauge_def)

lemma register_label_ok:
  assumes "registry_ok rg"
  shows "registry_ok (register_label (gauge_label g) g rg) \<and>
    has_gauge (register_label (gauge_label g) g rg) g \<and>
    (\<forall>g'. has_gauge rg g' \<longrightarrow> has_gauge (register_label (gauge_label g) g rg) g')"
proof (cases "gauge_label g \<in> set (rg_labels rg)")
  case True
  with assms have "has_gauge rg g" by (intro registered_is_own) (auto simp: registry_ok_def)
  with True assms show ?thesis by (simp add: register_label_def)
next
  case False
  then show ?thesis using assms registered_is_own [OF assms, of g]
    by (auto simp: register_label_def get_or_create_gauge_def registry_ok_def has_gauge_def)
qed

lemma register_type_ok:
  "registry_ok rg \<Longrightarrow> registry_ok (register_type_gauge t rg) \<and> has_gauge (register_type_gauge t rg) (GType t) \<and>
     (\<forall>g. has_gauge rg g \<longrightarrow> has_gauge (register_type_gauge t rg) g)"
  using register_label_ok [of rg "GType t"] by (simp add: register_type_gauge_def)

lemma register_territory_ok:
  "registry_ok rg \<Longrightarrow> registry_ok (register_territory_gauge c rg) \<and>
     has_gauge (register_territory_gauge c rg) (GTerritory c) \<and>
     (\<forall>g. has_gauge rg g \<longrightarrow> has_gauge (register_territory_gauge c rg) g)"
  using register_label_ok [of rg "GTerritory c"] by (simp add: register_territory_gauge_def)

lemma register_territories_ok:
  "registry_ok rg \<Longrightarrow> registry_ok (fold register_territory_gauge cs rg) \<and>
     (\<forall>c \<in> set cs. has_gauge (fold register_territory_gauge cs rg) (GTerritory c)) \<and>
     (\<forall>g. has_gauge rg g \<longrightarrow> has_gauge (fold register_territory_gauge cs rg) g)"
proof (induction cs arbitrary: rg)
  case Nil
  then show ?case by simp
next
  case (Cons c cs)
  from register_territory_ok [OF Cons.prems, of c] Cons.IH [of "register_territory_gauge c rg"]
  show ?case by auto
qed

lemma registry_ok_updates [simp]:
  "registry_ok (rg\<lparr>rg_current := a\<rparr>) = registry_ok rg" "registry_ok (rg\<lparr>rg_once := b\<rparr>) = registry_ok rg"
  "has_gauge (rg\<lparr>rg_current := a\<rparr>) g = has_gauge rg g" "has_gauge (rg\<lparr>rg_once := b\<rparr>) g = has_gauge rg g"
  by (simp_all add: registry_ok_def has_gauge_def)

lemma register_metrics_ok:
  assumes "registry_ok rg"
  shows "registry_ok (register_metrics a rg) \<and> (\<forall>g. has_gauge rg g \<longrightarrow> has_gauge (register_metrics a rg) g) \<and>
    rg_current (register_metrics a rg) = Some a"
proof -
  let ?r0 = "rg\<lparr>rg_current := Some a\<rparr>\<lparr>rg_once := True\<rparr>"
  let ?r1 = "get_or_create_gauge (gauge_label GLotlSequence) GLotlSequence ?r0"
  let ?r2 = "get_or_create_gauge (gauge_label GUpstreamStale) GUpstreamStale ?r1"
  have 0: "registry_ok ?r0" using assms by simp
  note 1 = get_or_create_ok [OF 0, of GLotlSequence]
  note 2 = get_or_create_ok [OF 1 [THEN conjunct1], of GUpstreamStale]
  note 3 = get_or_create_ok [OF 2 [THEN conjunct1], of GPendingBootstrap]
  have "rg_current (get_or_create_gauge n g r) = rg_current r" for n g r
    by (simp add: get_or_create_gauge_def)
  then show ?thesis
    using 1 2 3 assms by (cases "rg_once rg") (simp_all add: register_metrics_def)
qed

section \<open>The process: any number of states, one registry\<close>

record process =
  pr_states :: "nat \<Rightarrow> health_state option"
  pr_reg :: registry

definition process_init :: process where
  "process_init = \<lparr>pr_states = Map.empty, pr_reg = empty_registry\<rparr>"

inductive process_step :: "process \<Rightarrow> process \<Rightarrow> bool" where
  create: "pr_states p a = None \<Longrightarrow>
    process_step p (p\<lparr>pr_states := (pr_states p)(a \<mapsto> new_state required)\<rparr>)"
| publish: "pr_states p a = Some h \<Longrightarrow> process_step p (p\<lparr>pr_reg := register_metrics a (pr_reg p)\<rparr>)"
| freshness: "pr_states p a = Some h \<Longrightarrow> set_type_freshness t sn f v st (h, pr_reg p) = (h', rg) \<Longrightarrow>
    process_step p \<lparr>pr_states = (pr_states p)(a \<mapsto> h'), pr_reg = rg\<rparr>"
| snapshot: "pr_states p a = Some h \<Longrightarrow> set order = dom (sh_territories sh) \<Longrightarrow>
    set_snapshot order sh (h, pr_reg p) = (h', rg) \<Longrightarrow>
    process_step p \<lparr>pr_states = (pr_states p)(a \<mapsto> h'), pr_reg = rg\<rparr>"

definition gauges_complete :: "process \<Rightarrow> bool" where
  "gauges_complete p \<longleftrightarrow>
     registry_ok (pr_reg p) \<and>
     (\<forall>a h. pr_states p a = Some h \<longrightarrow>
        (\<forall>t. hs_fresh h t \<noteq> None \<longrightarrow> has_gauge (pr_reg p) (GType t)) \<and>
        (\<forall>sh c. hs_snap h = Some sh \<longrightarrow> sh_territories sh c \<noteq> None \<longrightarrow> has_gauge (pr_reg p) (GTerritory c)))"

lemma gauges_complete_step: "process_step p q \<Longrightarrow> gauges_complete p \<Longrightarrow> gauges_complete q"
proof (induction rule: process_step.induct)
  case (create p a required)
  then show ?case by (auto simp: gauges_complete_def new_state_def)
next
  case (publish p a h)
  then have ok: "registry_ok (pr_reg p)" by (simp add: gauges_complete_def)
  from register_metrics_ok [OF ok, of a] publish show ?case by (simp add: gauges_complete_def)
next
  case (freshness p a h t sn f v st h' rg)
  then have ok: "registry_ok (pr_reg p)" by (simp add: gauges_complete_def)
  from freshness(2) have e: "h' = record_freshness t sn f v st h" "rg = register_type_gauge t (pr_reg p)"
    by (auto simp: set_type_freshness_def)
  from register_type_ok [OF ok, of t] freshness(1,3) show ?case
    by (auto simp: gauges_complete_def e)
next
  case (snapshot p a h order sh h' rg)
  then have ok: "registry_ok (pr_reg p)" by (simp add: gauges_complete_def)
  from snapshot(3) have e: "h' = record_snapshot sh h" "rg = fold register_territory_gauge order (pr_reg p)"
    by (auto simp: set_snapshot_def)
  from register_territories_ok [OF ok, of order] snapshot(1,2,4) show ?case
    by (auto simp: gauges_complete_def e)
qed

text \<open>
  C34. Whatever states a process creates, publishes and writes, every type ever recorded and every
  territory of a current snapshot has exactly one gauge, under its own name; and scraping that
  gauge reads the state published last, not the one that first registered the gauge.
\<close>

theorem gauges_read_current:
  assumes "process_step\<^sup>*\<^sup>* process_init p" "rg_current (pr_reg p) = Some a" "pr_states p a = Some h"
    and "hs_fresh h t = Some fr"
  shows "distinct (map fst (rg_gauges (pr_reg p))) \<and>
    map_of (rg_gauges (pr_reg p)) (type_gauge_name t) = Some (GType t) \<and>
    gauge_value (pr_states p) (pr_reg p) now (GType t) = of_int (time_sub now (fetchedAt fr)) / of_int second \<and>
    (\<forall>sh c th. hs_snap h = Some sh \<longrightarrow> sh_territories sh c = Some th \<longrightarrow>
       map_of (rg_gauges (pr_reg p)) (territory_gauge_name c) = Some (GTerritory c) \<and>
       gauge_value (pr_states p) (pr_reg p) now (GTerritory c) = (if th_stale th then 1 else 0))"
proof -
  have "gauges_complete process_init"
    by (simp add: gauges_complete_def process_init_def registry_ok_def empty_registry_def)
  with assms(1) have inv: "gauges_complete p"
    by (induction rule: rtranclp_induct) (auto intro: gauges_complete_step)
  then have d: "distinct (map fst (rg_gauges (pr_reg p)))" by (simp add: gauges_complete_def registry_ok_def)
  have one: "map_of (rg_gauges (pr_reg p)) (gauge_label g) = Some g" if "has_gauge (pr_reg p) g" for g
    using that d by (simp add: has_gauge_def)
  from inv assms(3,4) have "has_gauge (pr_reg p) (GType t)"
    unfolding gauges_complete_def by (metis option.distinct(1))
  moreover have "has_gauge (pr_reg p) (GTerritory c)" if "hs_snap h = Some sh" "sh_territories sh c = Some th" for sh c th
    using inv assms(3) that unfolding gauges_complete_def by (metis option.distinct(1))
  ultimately show ?thesis
    using d assms(2-4) one [of "GType t"] one [of "GTerritory c" for c]
    by (simp add: gauge_value_def staleness_seconds_def territory_stale_def)
qed

text \<open>Two states: the first registers the gauge, the second is published last.\<close>

definition sample_new :: health_state where
  "sample_new = new_state [''access_ca'']"

definition sample_sync :: "int \<Rightarrow> registry \<Rightarrow> health_state \<times> registry" where
  "sample_sync s rg =
     set_type_freshness ''access_ca'' ''snap'' (time_unix s) (time_unix (s + 100)) False (sample_new, rg)"

definition sample_before :: process where
  "sample_before =
     \<lparr>pr_states = [0 \<mapsto> fst (sample_sync 50 empty_registry), 1 \<mapsto> sample_new],
      pr_reg = register_metrics 1 (snd (sample_sync 50 empty_registry))\<rparr>"

definition sample_process :: process where
  "sample_process =
     \<lparr>pr_states = (pr_states sample_before)(1 \<mapsto> fst (sample_sync 0 (pr_reg sample_before))),
      pr_reg = snd (sample_sync 0 (pr_reg sample_before))\<rparr>"

lemma sample_before_reachable: "process_step\<^sup>*\<^sup>* process_init sample_before"
proof -
  let ?p1 = "process_init\<lparr>pr_states := (pr_states process_init)(0 \<mapsto> sample_new)\<rparr>"
  let ?p2 = "\<lparr>pr_states = (pr_states ?p1)(0 \<mapsto> fst (sample_sync 50 empty_registry)),
    pr_reg = snd (sample_sync 50 empty_registry)\<rparr>"
  let ?p3 = "?p2\<lparr>pr_states := (pr_states ?p2)(1 \<mapsto> sample_new)\<rparr>"
  have 1: "process_step process_init ?p1"
    unfolding sample_new_def by (rule create) (simp add: process_init_def)
  have 2: "process_step ?p1 ?p2"
    by (rule freshness [where h = sample_new]) (simp_all add: sample_sync_def process_init_def)
  have 3: "process_step ?p2 ?p3"
    unfolding sample_new_def by (rule create) (simp add: process_init_def)
  have "process_step ?p3 (?p3\<lparr>pr_reg := register_metrics 1 (pr_reg ?p3)\<rparr>)"
    by (rule publish [where h = sample_new]) simp
  moreover have "?p3\<lparr>pr_reg := register_metrics 1 (pr_reg ?p3)\<rparr> = sample_before"
    by (simp add: sample_before_def process_init_def)
  ultimately have 4: "process_step ?p3 sample_before" by simp
  have "process_step\<^sup>*\<^sup>* ?p3 sample_before" by (rule converse_rtranclp_into_rtranclp, rule 4, rule rtranclp.rtrancl_refl)
  with 3 have "process_step\<^sup>*\<^sup>* ?p2 sample_before" by (rule converse_rtranclp_into_rtranclp)
  with 2 have "process_step\<^sup>*\<^sup>* ?p1 sample_before" by (rule converse_rtranclp_into_rtranclp)
  with 1 show ?thesis by (rule converse_rtranclp_into_rtranclp)
qed

lemma sample_process_step: "process_step sample_before sample_process"
  unfolding sample_process_def
  by (rule freshness [where h = sample_new]) (simp_all add: sample_sync_def sample_before_def)

theorem gauges_read_current_witness:
  "\<exists>p. process_step\<^sup>*\<^sup>* process_init p \<and> rg_current (pr_reg p) = Some 1 \<and>
     map_of (rg_gauges (pr_reg p)) (type_gauge_name ''access_ca'') = Some (GType ''access_ca'') \<and>
     gauge_value (pr_states p) (pr_reg p) (time_unix 90) (GType ''access_ca'') = 90"
proof -
  have r: "process_step\<^sup>*\<^sup>* process_init sample_process"
    using sample_before_reachable sample_process_step by (rule rtranclp.rtrancl_into_rtrancl)
  have c: "rg_current (pr_reg sample_process) = Some 1"
    by (simp add: sample_process_def sample_before_def sample_sync_def set_type_freshness_def
        register_type_gauge_def register_label_def get_or_create_gauge_def register_metrics_def Let_def)
  have h: "pr_states sample_process 1 = Some (fst (sample_sync 0 (pr_reg sample_before)))"
    by (simp add: sample_process_def)
  have fr: "hs_fresh (fst (sample_sync 0 (pr_reg sample_before))) ''access_ca'' = Some
      \<lparr>snapshotID = ''snap'', fetchedAt = time_unix 0, validUntil = time_unix 100, upstreamStale = False\<rparr>"
    by (simp add: sample_sync_def set_type_freshness_def)
  have t: "time_sub (time_unix 90) (time_unix 0) = 90 * second"
    by (simp add: time_sub_def time_unix_def i64_def second_def min_duration_def max_duration_def)
  from gauges_read_current [OF r c h fr, of "time_unix 90"] r c t show ?thesis
    by (intro exI [of _ sample_process]) (simp add: second_def)
qed

end
