(* ===== verification/Valkey_Driver.thy ===== *)
theory Valkey_Driver
  imports Go_Std
begin

text \<open>
  The seam between the worker and \<open>valkey-go\<close> with its Valkey server, neither of which is in the
  repository. A driver is a parameter: a function from a batch of commands and a server state to
  the replies and the next state (\<open>client.Do\<close> sends one command, \<open>DoMulti\<close> on a dedicated
  connection sends several). What the store relies on is the locale \<open>valkey\<close>: the documented
  meaning of the commands it builds, with a network failure possible at every call and a
  \<open>MULTI\<close>/\<open>EXEC\<close> batch applied as a whole or not at all. Time stands still inside one batch;
  between operations the environment may change the keyspace (keys expire, a verifier adds
  references), so every law starts from an arbitrary state.

  \<open>ref_drv\<close> is a small server that satisfies the laws; it shows that they can hold and lets the
  witnesses compute.
\<close>

section \<open>Commands, replies, keyspace\<close>

datatype cmd =
    CGet string
  | CSetEx string string duration
  | CPttl string
  | CDel string
  | CExpire string int
  | CZrevrange string int int
  | CZremrangebyrank string int int
  | CMulti
  | CExec

datatype reply =
    RErr gerr
  | RNil
  | RStatus
  | RStr string
  | RInt int
  | RStrs "string list"

type_synonym 's driver = "cmd list \<Rightarrow> 's \<Rightarrow> reply list \<times> 's"

text \<open>\<open>client.Do(ctx, cmd)\<close>: the single reply of a one-command batch.\<close>

definition do1 :: "'s driver \<Rightarrow> cmd \<Rightarrow> 's \<Rightarrow> reply \<times> 's" where
  "do1 drv c s = (case drv [c] s of (r # _, s') \<Rightarrow> (r, s') | ([], s') \<Rightarrow> (RErr (ErrMsg ''no reply''), s'))"

text \<open>\<open>resp.Error()\<close> reports a nil reply as an error of its own.\<close>

fun resp_error :: "reply \<Rightarrow> gerr option" where
  "resp_error (RErr e) = Some e"
| "resp_error RNil = Some ValkeyNil"
| "resp_error _ = None"

definition unexpected :: gerr where
  "unexpected = ErrMsg ''valkey: unexpected reply type''"

fun as_bytes :: "reply \<Rightarrow> string result" where
  "as_bytes (RStr b) = Inr b"
| "as_bytes r = Inl (case resp_error r of Some e \<Rightarrow> e | None \<Rightarrow> unexpected)"

fun as_int64 :: "reply \<Rightarrow> int result" where
  "as_int64 (RInt n) = Inr n"
| "as_int64 r = Inl (case resp_error r of Some e \<Rightarrow> e | None \<Rightarrow> unexpected)"

fun as_str_slice :: "reply \<Rightarrow> string list result" where
  "as_str_slice (RStrs xs) = Inr xs"
| "as_str_slice r = Inl (case resp_error r of Some e \<Rightarrow> e | None \<Rightarrow> unexpected)"

text \<open>
  A keyspace: string keys with their value and remaining milliseconds (\<open>None\<close>: no expiry), and
  sorted sets as the list of their members by ascending rank.
\<close>

record keyspace =
  ks_val :: "string \<Rightarrow> (string \<times> int option) option"
  ks_zset :: "string \<Rightarrow> string list"

definition empty_ks :: keyspace where
  "empty_ks = \<lparr>ks_val = (\<lambda>_. None), ks_zset = (\<lambda>_. [])\<rparr>"

text \<open>Rank ranges: a negative index counts from the end; a range past the ends is clamped.\<close>

definition rank_lo :: "int \<Rightarrow> int \<Rightarrow> int" where
  "rank_lo n start = (if start < 0 then max 0 (n + start) else start)"

definition rank_hi :: "int \<Rightarrow> int \<Rightarrow> int" where
  "rank_hi n stop = min (n - 1) (if stop < 0 then n + stop else stop)"

definition in_range :: "int \<Rightarrow> int \<Rightarrow> 'a list \<Rightarrow> 'a list" where
  "in_range start stop xs =
     (let n = int (length xs); a = rank_lo n start; b = rank_hi n stop
      in if a \<le> b then take (nat (b - a + 1)) (drop (nat a) xs) else [])"

definition out_of_range :: "int \<Rightarrow> int \<Rightarrow> 'a list \<Rightarrow> 'a list" where
  "out_of_range start stop xs =
     (let n = int (length xs); a = rank_lo n start; b = rank_hi n stop
      in if a \<le> b then take (nat a) xs @ drop (nat (b + 1)) xs else xs)"

fun read_reply :: "cmd \<Rightarrow> keyspace \<Rightarrow> reply" where
  "read_reply (CGet k) ks = (case ks_val ks k of None \<Rightarrow> RNil | Some (v, _) \<Rightarrow> RStr v)"
| "read_reply (CPttl k) ks =
     (case ks_val ks k of None \<Rightarrow> RInt (-2) | Some (_, None) \<Rightarrow> RInt (-1) | Some (_, Some ms) \<Rightarrow> RInt ms)"
| "read_reply (CZrevrange k a b) ks = RStrs (in_range a b (rev (ks_zset ks k)))"
| "read_reply _ ks = RStatus"

text \<open>\<open>ex_ms ttl\<close>: the milliseconds a key set with \<open>Ex(ttl)\<close> has to live.\<close>

fun cmd_effect :: "(duration \<Rightarrow> int) \<Rightarrow> cmd \<Rightarrow> keyspace \<Rightarrow> keyspace" where
  "cmd_effect ex_ms (CSetEx k v ttl) ks =
     ks\<lparr>ks_val := (ks_val ks)(k := Some (v, Some (ex_ms ttl))), ks_zset := (ks_zset ks)(k := [])\<rparr>"
| "cmd_effect ex_ms (CDel k) ks = ks\<lparr>ks_val := (ks_val ks)(k := None), ks_zset := (ks_zset ks)(k := [])\<rparr>"
| "cmd_effect ex_ms (CExpire k secs) ks =
     (case ks_val ks k of
        None \<Rightarrow> ks
      | Some (v, _) \<Rightarrow> ks\<lparr>ks_val := (ks_val ks)(k := Some (v, Some (secs * 1000)))\<rparr>)"
| "cmd_effect ex_ms (CZremrangebyrank k a b) ks =
     ks\<lparr>ks_zset := (ks_zset ks)(k := out_of_range a b (ks_zset ks k))\<rparr>"
| "cmd_effect ex_ms _ ks = ks"

fun cmd_reads :: "cmd \<Rightarrow> bool" where
  "cmd_reads (CGet k) = True"
| "cmd_reads (CPttl k) = True"
| "cmd_reads (CZrevrange k a b) = True"
| "cmd_reads _ = False"

text \<open>Writes the server accepts: \<open>EX\<close> is in whole seconds and must be at least one.\<close>

fun cmd_writes :: "cmd \<Rightarrow> bool" where
  "cmd_writes (CSetEx k v ttl) = (second \<le> ttl)"
| "cmd_writes (CDel k) = True"
| "cmd_writes (CExpire k secs) = (0 < secs)"
| "cmd_writes (CZremrangebyrank k a b) = True"
| "cmd_writes _ = False"

text \<open>The store's loop over the replies of a batch: the first error, if any.\<close>

fun first_error :: "reply list \<Rightarrow> gerr option" where
  "first_error [] = None"
| "first_error (r # rs) = (case resp_error r of Some e \<Rightarrow> Some e | None \<Rightarrow> first_error rs)"

section \<open>The documented behaviour\<close>

locale valkey =
  fixes drv :: "'s driver" and view :: "'s \<Rightarrow> keyspace" and ex_ms :: "duration \<Rightarrow> int"
  assumes read_law: "cmd_reads c \<Longrightarrow> do1 drv c s = (r, s') \<Longrightarrow>
      view s' = view s \<and> (r = read_reply c (view s) \<or> (\<exists>e. r = RErr e \<and> e \<noteq> ValkeyNil))"
    and write_law: "cmd_writes c \<Longrightarrow> do1 drv c s = (r, s') \<Longrightarrow>
      (if resp_error r = None then view s' = cmd_effect ex_ms c (view s)
       else view s' = view s \<or> view s' = cmd_effect ex_ms c (view s))"
    and txn_law: "list_all cmd_writes cs \<Longrightarrow> drv (CMulti # cs @ [CExec]) s = (rs, s') \<Longrightarrow>
      (if first_error rs = None then view s' = fold (cmd_effect ex_ms) cs (view s)
       else view s' = view s \<or> view s' = fold (cmd_effect ex_ms) cs (view s))"
    and reject_law: "do1 drv (CSetEx k v ttl) s = (r, s') \<Longrightarrow> ttl < second \<Longrightarrow>
      resp_error r \<noteq> None \<and> view s' = view s"
    and ex_ms_bounds: "second \<le> ttl \<Longrightarrow> 0 < ex_ms ttl \<and> ex_ms ttl * millisecond \<le> ttl"

section \<open>Effects of a batch on one key\<close>

text \<open>The keys a command touches.\<close>

fun cmd_key :: "cmd \<Rightarrow> string option" where
  "cmd_key (CSetEx k v ttl) = Some k"
| "cmd_key (CDel k) = Some k"
| "cmd_key (CExpire k secs) = Some k"
| "cmd_key (CZremrangebyrank k a b) = Some k"
| "cmd_key _ = None"

lemma cmd_effect_other: "cmd_key c \<noteq> Some k \<Longrightarrow> ks_val (cmd_effect x c ks) k = ks_val ks k"
  by (cases c) (auto split: option.splits)

lemma cmd_effect_zset_other: "cmd_key c \<noteq> Some k \<Longrightarrow> ks_zset (cmd_effect x c ks) k = ks_zset ks k"
  by (cases c) (auto split: option.splits)

lemma fold_effect_other:
  "Some k \<notin> cmd_key ` set cs \<Longrightarrow> ks_val (fold (cmd_effect x) cs ks) k = ks_val ks k"
  by (induction cs arbitrary: ks) (auto simp: cmd_effect_other)

lemma fold_effect_zset_other:
  "Some k \<notin> cmd_key ` set cs \<Longrightarrow> ks_zset (fold (cmd_effect x) cs ks) k = ks_zset ks k"
  by (induction cs arbitrary: ks) (auto simp: cmd_effect_zset_other)

text \<open>
  When every command of a batch that touches \<open>k\<close> is the same idempotent write \<open>c\<close>, the batch
  acts on \<open>k\<close> as \<open>c\<close> does.
\<close>

lemma fold_effect_unique:
  assumes "c \<in> set cs" and only: "\<forall>d \<in> set cs. cmd_key d = Some k \<longrightarrow> d = c"
    and act: "\<And>ks. ks_val (cmd_effect x c ks) k = f (ks_val ks k)" and idem: "\<And>v. f (f v) = f v"
  shows "ks_val (fold (cmd_effect x) cs ks) k = f (ks_val ks k)"
  using assms(1) only
proof (induction cs arbitrary: ks)
  case Nil
  then show ?case by simp
next
  case (Cons d cs)
  show ?case
  proof (cases "c \<in> set cs")
    case True
    then have IH: "ks_val (fold (cmd_effect x) (d # cs) ks) k = f (ks_val (cmd_effect x d ks) k)"
      using Cons.IH Cons.prems(2) by simp
    show ?thesis
    proof (cases "cmd_key d = Some k")
      case True
      with Cons.prems(2) have "d = c" by simp
      then show ?thesis using IH by (simp add: act idem)
    next
      case False
      then show ?thesis using IH by (simp add: cmd_effect_other)
    qed
  next
    case False
    with Cons.prems(1) have "d = c" by simp
    moreover have "Some k \<notin> cmd_key ` set cs"
    proof
      assume "Some k \<in> cmd_key ` set cs"
      then obtain e where "e \<in> set cs" "cmd_key e = Some k" by (rule imageE) simp
      with Cons.prems(2) False show False by simp
    qed
    ultimately show ?thesis by (simp add: fold_effect_other act)
  qed
qed

lemma fold_effect_set:
  assumes "CSetEx k v ttl \<in> set cs" "\<forall>d \<in> set cs. cmd_key d = Some k \<longrightarrow> d = CSetEx k v ttl"
  shows "ks_val (fold (cmd_effect x) cs ks) k = Some (v, Some (x ttl))"
  using fold_effect_unique [OF assms, of x "\<lambda>_. Some (v, Some (x ttl))"] by simp

lemma fold_effect_del:
  assumes "CDel k \<in> set cs" "\<forall>d \<in> set cs. cmd_key d = Some k \<longrightarrow> d = CDel k"
  shows "ks_val (fold (cmd_effect x) cs ks) k = None"
  using fold_effect_unique [OF assms, of x "\<lambda>_. None"] by simp

lemma fold_effect_expire:
  assumes "CExpire k n \<in> set cs" "\<forall>d \<in> set cs. cmd_key d = Some k \<longrightarrow> d = CExpire k n"
  shows "ks_val (fold (cmd_effect x) cs ks) k = map_option (\<lambda>p. (fst p, Some (n * 1000))) (ks_val ks k)"
  by (rule fold_effect_unique [OF assms]) (auto simp: option.map_comp comp_def split: option.splits)

section \<open>A reference server\<close>

text \<open>Its script says what the network does to each batch: nothing, lose the request, or lose
  the replies after the batch was applied.\<close>

datatype fault = Healthy | LostRequest | LostReply

record refsrv =
  rs_ks :: keyspace
  rs_faults :: "fault list"

definition ref_ex_ms :: "duration \<Rightarrow> int" where
  "ref_ex_ms ttl = go_div ttl second * 1000"

definition ref_apply :: "cmd \<Rightarrow> keyspace \<Rightarrow> keyspace" where
  "ref_apply c ks = (if cmd_writes c then cmd_effect ref_ex_ms c ks else ks)"

text \<open>A read answers from the keyspace, a write with a status, a write the server does not accept
  with an error.\<close>

definition ref_reply :: "cmd \<Rightarrow> keyspace \<Rightarrow> reply" where
  "ref_reply c ks =
     (if cmd_reads c then read_reply c ks
      else if cmd_writes c \<or> c \<in> {CMulti, CExec} then RStatus
      else RErr (ErrMsg ''ERR invalid expire time''))"

fun ref_run :: "cmd list \<Rightarrow> keyspace \<Rightarrow> reply list \<times> keyspace" where
  "ref_run [] ks = ([], ks)"
| "ref_run (c # cs) ks =
     (let (rs, ks') = ref_run cs (ref_apply c ks)
      in (ref_reply c ks # rs, ks'))"

definition ref_drv :: "refsrv driver" where
  "ref_drv cs s =
     (let f = (case rs_faults s of [] \<Rightarrow> Healthy | f # _ \<Rightarrow> f);
          s' = s\<lparr>rs_faults := tl (rs_faults s)\<rparr>;
          (rs, ks') = ref_run cs (rs_ks s);
          lost = map (\<lambda>_. RErr (ErrMsg ''i/o timeout'')) cs
      in case f of
           Healthy \<Rightarrow> (rs, s'\<lparr>rs_ks := ks'\<rparr>)
         | LostRequest \<Rightarrow> (lost, s')
         | LostReply \<Rightarrow> (lost, s'\<lparr>rs_ks := ks'\<rparr>))"

definition ref_srv :: refsrv where
  "ref_srv = \<lparr>rs_ks = empty_ks, rs_faults = []\<rparr>"

lemma cmd_reads_not_writes: "cmd_reads c \<Longrightarrow> \<not> cmd_writes c"
  by (cases c) auto

lemma ref_run_writes:
  "list_all cmd_writes cs \<Longrightarrow> ref_run cs ks = (map (\<lambda>_. RStatus) cs, fold (cmd_effect ref_ex_ms) cs ks)"
  by (induction cs arbitrary: ks) (auto simp: ref_apply_def ref_reply_def dest: cmd_reads_not_writes)

lemma ref_run_append:
  "ref_run (cs @ ds) ks = (let (r, k) = ref_run cs ks; (r', k') = ref_run ds k in (r @ r', k'))"
  by (induction cs arbitrary: ks) (auto simp: Let_def split: prod.splits)

lemma first_error_map_status [simp]: "first_error (map (\<lambda>_. RStatus) cs) = None"
  by (induction cs) auto

lemma first_error_append: "first_error (rs @ qs) = (case first_error rs of None \<Rightarrow> first_error qs | e \<Rightarrow> e)"
  by (induction rs) (auto split: option.splits)

interpretation ref: valkey ref_drv rs_ks ref_ex_ms
proof
  fix c s r s'
  assume "cmd_reads c" "do1 ref_drv c s = (r, s')"
  then show "rs_ks s' = rs_ks s \<and> (r = read_reply c (rs_ks s) \<or> (\<exists>e. r = RErr e \<and> e \<noteq> ValkeyNil))"
    by (auto simp: do1_def ref_drv_def ref_reply_def ref_apply_def cmd_reads_not_writes Let_def
        split: fault.splits list.splits)
next
  fix c s r s'
  assume "cmd_writes c" "do1 ref_drv c s = (r, s')"
  then show "if resp_error r = None then rs_ks s' = cmd_effect ref_ex_ms c (rs_ks s)
    else rs_ks s' = rs_ks s \<or> rs_ks s' = cmd_effect ref_ex_ms c (rs_ks s)"
    by (auto simp: do1_def ref_drv_def ref_reply_def ref_apply_def Let_def dest: cmd_reads_not_writes
        split: fault.splits list.splits if_splits)
next
  fix cs s rs s'
  assume cs: "list_all cmd_writes cs" and run: "ref_drv (CMulti # cs @ [CExec]) s = (rs, s')"
  have batch: "ref_run (CMulti # cs @ [CExec]) ks =
      (RStatus # map (\<lambda>_. RStatus) cs @ [RStatus], fold (cmd_effect ref_ex_ms) cs ks)" for ks
    using cs by (simp add: ref_run_append ref_run_writes ref_reply_def ref_apply_def Let_def)
  show "if first_error rs = None then rs_ks s' = fold (cmd_effect ref_ex_ms) cs (rs_ks s)
    else rs_ks s' = rs_ks s \<or> rs_ks s' = fold (cmd_effect ref_ex_ms) cs (rs_ks s)"
    using run unfolding ref_drv_def batch Let_def
    by (auto simp: first_error_append split: fault.splits list.splits)
next
  fix k v ttl s r s'
  assume "do1 ref_drv (CSetEx k v ttl) s = (r, s')" "ttl < second"
  then show "resp_error r \<noteq> None \<and> rs_ks s' = rs_ks s"
    by (auto simp: do1_def ref_drv_def ref_reply_def ref_apply_def Let_def split: fault.splits list.splits)
next
  fix ttl :: int
  assume "second \<le> ttl"
  then show "0 < ref_ex_ms ttl \<and> ref_ex_ms ttl * millisecond \<le> ttl"
    by (auto simp: ref_ex_ms_def go_div_pos second_def millisecond_def)
qed

end
