(* ===== verification/Valkey_Store.thy ===== *)
theory Valkey_Store
  imports Trust_Library Valkey_Driver "HOL-Library.List_Lexorder" "HOL-Library.Char_ord"
begin

text \<open>
  \<open>internal/valkeystore/store.go\<close>: the write side of the trust cache. A \<open>store\<close> is the driver and
  the key prefix; every operation passes the server's state explicitly and returns Go's
  \<open>(value, error)\<close> as a \<open>result\<close>. Contexts only reach the driver, so they are part of it.
\<close>

section \<open>Construction\<close>

record 's store =
  st_client :: "'s driver"
  st_prefix :: string

record options =
  opt_url :: string
  opt_password :: string
  opt_key_prefix :: string

text \<open>The fields of \<open>valkey.ClientOption\<close> that the code or its tests look at.\<close>

record client_opts =
  co_init_address :: "string list"
  co_username :: string
  co_password :: string
  co_select_db :: int
  co_tls :: bool
  co_disable_cache :: bool
  co_force_single_client :: bool

definition err_empty_url :: gerr where
  "err_empty_url = ErrMsg ''valkeystore: empty URL''"

text \<open>\<open>valkey.ParseURL\<close> is the parameter \<open>parse_url\<close>.\<close>

definition client_option :: "(string \<Rightarrow> client_opts result) \<Rightarrow> options \<Rightarrow> client_opts result" where
  "client_option parse_url opt =
     (let raw = trim_space (opt_url opt)
      in if raw = [] then Inl err_empty_url
         else
           (let raw = (if \<not> str_contains raw ''://'' then ''redis://'' @ raw else raw)
            in case parse_url raw of
                 Inl e \<Rightarrow> Inl (ErrWrap ''valkeystore: parse URL: '' e)
               | Inr copt \<Rightarrow>
                   (let copt = (if opt_password opt \<noteq> [] then copt\<lparr>co_password := opt_password opt\<rparr> else copt)
                    in Inr (copt\<lparr>co_disable_cache := True, co_force_single_client := True\<rparr>))))"

definition key_prefix :: "string \<Rightarrow> string" where
  "key_prefix p = (let p = trim_right (CHR '':'') (trim_space p) in if p = [] then [] else p @ '':'')"

fun join :: "string \<Rightarrow> string list \<Rightarrow> string" where
  "join sep [] = []"
| "join sep [x] = x"
| "join sep (x # xs) = x @ sep @ join sep xs"

text \<open>\<open>valkey.NewClient\<close> is the parameter \<open>dial\<close>.\<close>

definition new_store ::
  "(string \<Rightarrow> client_opts result) \<Rightarrow> (client_opts \<Rightarrow> 's driver result) \<Rightarrow> options \<Rightarrow> 's store result" where
  "new_store parse_url dial opt =
     (case client_option parse_url opt of
        Inl e \<Rightarrow> Inl e
      | Inr copt \<Rightarrow>
          (case dial copt of
             Inl e \<Rightarrow> Inl (ErrWrap (''valkeystore: connect '' @ join '','' (co_init_address copt) @ '': '') e)
           | Inr c \<Rightarrow> Inr \<lparr>st_client = c, st_prefix = key_prefix (opt_key_prefix opt)\<rparr>))"

definition st_key :: "'s store \<Rightarrow> string \<Rightarrow> string" where
  "st_key st k = st_prefix st @ k"

section \<open>Single-key operations\<close>

text \<open>\<open>(nil, nil)\<close> for an absent key is \<open>Inr None\<close>.\<close>

definition store_get :: "'s store \<Rightarrow> string \<Rightarrow> 's \<Rightarrow> string option result \<times> 's" where
  "store_get st key s =
     (let (resp, s1) = do1 (st_client st) (CGet (st_key st key)) s
      in case resp_error resp of
           Some e \<Rightarrow>
             if e = ValkeyNil then (Inr None, s1)
             else (Inl (ErrWrap (''valkeystore: get '' @ key @ '': '') e), s1)
         | None \<Rightarrow>
             (case as_bytes resp of
                Inl e \<Rightarrow> (Inl (ErrWrap (''valkeystore: get '' @ key @ '': '') e), s1)
              | Inr b \<Rightarrow> (Inr (Some b), s1)))"

definition em_dash :: string where
  "em_dash = [CHR 0xE2, CHR 0x80, CHR 0x94]"

definition set_bytes :: "'s store \<Rightarrow> string \<Rightarrow> string \<Rightarrow> duration \<Rightarrow> 's \<Rightarrow> unit result \<times> 's" where
  "set_bytes st key val ttl s =
     (if ttl \<le> 0
      then (Inl (ErrMsg (''valkeystore: set '' @ key @ '': non-positive ttl '' @ em_dash @ '' every key must expire'')), s)
      else
        (let (resp, s1) = do1 (st_client st) (CSetEx (st_key st key) val ttl) s
         in case resp_error resp of
              Some e \<Rightarrow> (Inl (ErrWrap (''valkeystore: set '' @ key @ '': '') e), s1)
            | None \<Rightarrow> (Inr (), s1)))"

definition set_json :: "'s store \<Rightarrow> ('v \<Rightarrow> string result) \<Rightarrow> string \<Rightarrow> 'v \<Rightarrow> duration \<Rightarrow> 's \<Rightarrow> unit result \<times> 's" where
  "set_json st marshal key v ttl s =
     (case marshal v of
        Inl e \<Rightarrow> (Inl (ErrWrap (''valkeystore: marshal '' @ key @ '': '') e), s)
      | Inr raw \<Rightarrow> set_bytes st key raw ttl s)"

text \<open>Remaining TTL and whether the key exists.\<close>

definition get_ttl :: "'s store \<Rightarrow> string \<Rightarrow> 's \<Rightarrow> (duration \<times> bool) result \<times> 's" where
  "get_ttl st key s =
     (let (resp, s1) = do1 (st_client st) (CPttl (st_key st key)) s
      in case as_int64 resp of
           Inl e \<Rightarrow> (Inl (ErrWrap (''valkeystore: pttl '' @ key @ '': '') e), s1)
         | Inr ms \<Rightarrow>
             if ms = -2 then (Inr (0, False), s1)
             else if ms = -1 then (Inr (0, True), s1)
             else (Inr (i64 (ms * millisecond), True), s1))"

section \<open>The per-type swap\<close>

record swap =
  sw_key_type :: string
  sw_etag :: string
  sw_entries :: "anchor_set_entry list"
  sw_freshness :: type_freshness
  sw_ttl :: duration

text \<open>The territory index; \<open>[]\<close> when never written.\<close>

definition territories :: "'s store \<Rightarrow> key_contract \<Rightarrow> codec \<Rightarrow> string \<Rightarrow> 's \<Rightarrow> string list result \<times> 's" where
  "territories st K C key_type s =
     (case store_get st (territory_index_key K key_type) s of
        (Inl e, s1) \<Rightarrow> (Inl e, s1)
      | (Inr None, s1) \<Rightarrow> (Inr [], s1)
      | (Inr (Some raw), s1) \<Rightarrow>
          (case dec_index C raw of
             Inl e \<Rightarrow> (Inl (ErrWrap (''valkeystore: decode territory index '' @ key_type @ '': '') e), s1)
           | Inr out \<Rightarrow> (Inr out, s1)))"

fun entry_cmds :: "'s store \<Rightarrow> key_contract \<Rightarrow> codec \<Rightarrow> string \<Rightarrow> duration \<Rightarrow> anchor_set_entry list \<Rightarrow> cmd list result" where
  "entry_cmds st K C key_type ttl [] = Inr []"
| "entry_cmds st K C key_type ttl (e # es) =
     (case enc_entry C e of
        Inl err \<Rightarrow> Inl (ErrWrap (''valkeystore: marshal entry '' @ key_type @ ''/'' @ en_territory e @ '': '') err)
      | Inr raw \<Rightarrow>
          (case entry_cmds st K C key_type ttl es of
             Inl err \<Rightarrow> Inl err
           | Inr cs \<Rightarrow> Inr (CSetEx (st_key st (anchor_set_key K key_type (en_territory e))) raw ttl # cs)))"

definition vanished_cmds :: "'s store \<Rightarrow> key_contract \<Rightarrow> string \<Rightarrow> string list \<Rightarrow> string list \<Rightarrow> cmd list" where
  "vanished_cmds st K key_type prev next_set =
     map (\<lambda>t. CDel (st_key st (anchor_set_key K key_type t))) (filter (\<lambda>t. t \<notin> set next_set) prev)"

text \<open>The commands between \<open>MULTI\<close> and \<open>EXEC\<close>.\<close>

definition swap_cmds ::
  "'s store \<Rightarrow> key_contract \<Rightarrow> swap \<Rightarrow> string list \<Rightarrow> cmd list \<Rightarrow> string \<Rightarrow> string \<Rightarrow> cmd list" where
  "swap_cmds st K sw prev sets idx_raw fr_raw =
     vanished_cmds st K (sw_key_type sw) prev (map en_territory (sw_entries sw)) @ sets @
     [CSetEx (st_key st (territory_index_key K (sw_key_type sw))) idx_raw (sw_ttl sw),
      CSetEx (st_key st (etag_key K (sw_key_type sw))) (sw_etag sw) (sw_ttl sw),
      CSetEx (st_key st (freshness_key K (sw_key_type sw))) fr_raw (sw_ttl sw)]"

text \<open>\<open>DoMulti\<close> of a \<open>MULTI\<close>/\<open>EXEC\<close> batch and the loop over its replies.\<close>

definition run_txn :: "'s store \<Rightarrow> string \<Rightarrow> cmd list \<Rightarrow> 's \<Rightarrow> unit result \<times> 's" where
  "run_txn st what cs s =
     (let (rs, s1) = st_client st (CMulti # cs @ [CExec]) s
      in case first_error rs of
           Some e \<Rightarrow> (Inl (ErrWrap what e), s1)
         | None \<Rightarrow> (Inr (), s1))"

definition swap_anchor_type ::
  "'s store \<Rightarrow> key_contract \<Rightarrow> codec \<Rightarrow> swap \<Rightarrow> 's \<Rightarrow> unit result \<times> 's" where
  "swap_anchor_type st K C sw s =
     (case territories st K C (sw_key_type sw) s of
        (Inl e, s1) \<Rightarrow> (Inl e, s1)
      | (Inr prev, s1) \<Rightarrow>
          (let next = sort (map en_territory (sw_entries sw))
           in case enc_index C next of
                Inl e \<Rightarrow> (Inl (ErrWrap ''valkeystore: marshal territory index: '' e), s1)
              | Inr idx_raw \<Rightarrow>
                  (case enc_freshness C (sw_freshness sw) of
                     Inl e \<Rightarrow> (Inl (ErrWrap ''valkeystore: marshal freshness: '' e), s1)
                   | Inr fr_raw \<Rightarrow>
                       (case entry_cmds st K C (sw_key_type sw) (sw_ttl sw) (sw_entries sw) of
                          Inl e \<Rightarrow> (Inl e, s1)
                        | Inr sets \<Rightarrow>
                            run_txn st (''valkeystore: swap '' @ sw_key_type sw @ '': '')
                              (swap_cmds st K sw prev sets idx_raw fr_raw) s1))))"

section \<open>The 304 refresh\<close>

text \<open>Read, decode, patch and encode each listed entry; a vanished key is left out of \<open>patched\<close>.\<close>

fun patch_entries ::
  "'s store \<Rightarrow> key_contract \<Rightarrow> codec \<Rightarrow> string \<Rightarrow> type_freshness \<Rightarrow> string list \<Rightarrow> (string \<rightharpoonup> string) \<Rightarrow> 's
   \<Rightarrow> (string \<rightharpoonup> string) result \<times> 's" where
  "patch_entries st K C key_type fr [] patched s = (Inr patched, s)"
| "patch_entries st K C key_type fr (t # ts) patched s =
     (case store_get st (anchor_set_key K key_type t) s of
        (Inl e, s1) \<Rightarrow> (Inl e, s1)
      | (Inr None, s1) \<Rightarrow> patch_entries st K C key_type fr ts patched s1
      | (Inr (Some raw), s1) \<Rightarrow>
          (case dec_entry C raw of
             Inl e \<Rightarrow> (Inl (ErrWrap (''valkeystore: decode entry '' @ key_type @ ''/'' @ t @ '': '') e), s1)
           | Inr e \<Rightarrow>
               (case enc_entry C (e\<lparr>en_valid_until := fr_valid_until fr\<rparr>) of
                  Inl err \<Rightarrow> (Inl (ErrWrap (''valkeystore: marshal entry '' @ key_type @ ''/'' @ t @ '': '') err), s1)
                | Inr out \<Rightarrow> patch_entries st K C key_type fr ts (patched(t \<mapsto> out)) s1)))"

definition refresh_cmds ::
  "'s store \<Rightarrow> key_contract \<Rightarrow> string \<Rightarrow> duration \<Rightarrow> string list \<Rightarrow> (string \<rightharpoonup> string) \<Rightarrow> string \<Rightarrow> cmd list" where
  "refresh_cmds st K key_type ttl prev patched fr_raw =
     (let secs = go_div ttl second
      in map (\<lambda>t. let key = st_key st (anchor_set_key K key_type t)
                  in case patched t of Some raw \<Rightarrow> CSetEx key raw ttl | None \<Rightarrow> CExpire key secs) prev @
         [CExpire (st_key st (territory_index_key K key_type)) secs,
          CExpire (st_key st (etag_key K key_type)) secs,
          CSetEx (st_key st (freshness_key K key_type)) fr_raw ttl])"

definition refresh_anchor_type ::
  "'s store \<Rightarrow> key_contract \<Rightarrow> codec \<Rightarrow> string \<Rightarrow> type_freshness \<Rightarrow> duration \<Rightarrow> 's \<Rightarrow> unit result \<times> 's" where
  "refresh_anchor_type st K C key_type fr ttl s =
     (case territories st K C key_type s of
        (Inl e, s1) \<Rightarrow> (Inl e, s1)
      | (Inr prev, s1) \<Rightarrow>
          (case patch_entries st K C key_type fr prev Map.empty s1 of
             (Inl e, s2) \<Rightarrow> (Inl e, s2)
           | (Inr patched, s2) \<Rightarrow>
               (case enc_freshness C fr of
                  Inl e \<Rightarrow> (Inl (ErrWrap ''valkeystore: marshal freshness: '' e), s2)
                | Inr fr_raw \<Rightarrow>
                    run_txn st (''valkeystore: refresh '' @ key_type @ '': '')
                      (refresh_cmds st K key_type ttl prev patched fr_raw) s2)))"

section \<open>The set of referenced status lists\<close>

definition top_status_refs :: "'s store \<Rightarrow> key_contract \<Rightarrow> int \<Rightarrow> 's \<Rightarrow> string list result \<times> 's" where
  "top_status_refs st K n s =
     (if n \<le> 0 then (Inr [], s)
      else
        (let (resp, s1) = do1 (st_client st) (CZrevrange (st_key st (status_refs_key K)) 0 (n - 1)) s
         in case as_str_slice resp of
              Inl e \<Rightarrow> (Inl (ErrWrap ''valkeystore: status refs: '' e), s1)
            | Inr uris \<Rightarrow> (Inr uris, s1)))"

definition trim_status_refs :: "'s store \<Rightarrow> key_contract \<Rightarrow> int \<Rightarrow> 's \<Rightarrow> unit result \<times> 's" where
  "trim_status_refs st K keep s =
     (let (resp, s1) =
        do1 (st_client st) (CZremrangebyrank (st_key st (status_refs_key K)) 0 (i64 (- keep - 1))) s
      in case resp_error resp of
           Some e \<Rightarrow> (Inl (ErrWrap ''valkeystore: trim status refs: '' e), s1)
         | None \<Rightarrow> (Inr (), s1))"

section \<open>Key prefixes\<close>

text \<open>
  The configured prefix is normalised to nothing or to \<open>p:\<close> with exactly one colon at its end,
  it is put in front of every key unchanged, and it keeps different keys different.
\<close>

lemma key_prefix_normal:
  "key_prefix p = [] \<or> (\<exists>q. key_prefix p = q @ '':'' \<and> q \<noteq> [] \<and> last q \<noteq> CHR '':'')"
  using trim_right_no_suffix [of "CHR '':''" "trim_space p"] by (auto simp: key_prefix_def Let_def)

lemma st_key_inj [simp]: "st_key st k = st_key st k' \<longleftrightarrow> k = k'"
  by (simp add: st_key_def)

definition sample_url_opts :: client_opts where
  "sample_url_opts =
     \<lparr>co_init_address = [''localhost:6379''], co_username = [], co_password = [], co_select_db = 0,
      co_tls = False, co_disable_cache = False, co_force_single_client = False\<rparr>"

text \<open>
  The client options a store is built with: an empty URL is refused, a bare \<open>host:port\<close> is
  parsed as a \<open>redis\<close> URL and a URL with a scheme as it is, a configured password replaces the
  URL's one (and only then), client-side caching is always off, and every other option is
  the URL's.
\<close>

lemma client_option_sound:
  assumes "client_option parse_url opt = Inr copt"
  shows "trim_space (opt_url opt) \<noteq> [] \<and>
    (\<exists>raw u. raw = (if str_contains (trim_space (opt_url opt)) ''://'' then trim_space (opt_url opt)
                    else ''redis://'' @ trim_space (opt_url opt)) \<and>
       str_contains raw ''://'' \<and> parse_url raw = Inr u \<and>
       copt = u\<lparr>co_password := (if opt_password opt = [] then co_password u else opt_password opt),
                co_disable_cache := True, co_force_single_client := True\<rparr>)"
proof -
  let ?t = "trim_space (opt_url opt)"
  let ?raw = "if str_contains ?t ''://'' then ?t else ''redis://'' @ ?t"
  from assms obtain u where "?t \<noteq> []" "parse_url ?raw = Inr u"
    "copt = u\<lparr>co_password := (if opt_password opt = [] then co_password u else opt_password opt),
      co_disable_cache := True, co_force_single_client := True\<rparr>"
    by (cases "parse_url ?raw") (auto simp: client_option_def Let_def split: if_splits)
  then show ?thesis by (intro conjI exI [of _ ?raw] exI [of _ u]) auto
qed

lemma client_option_sound_instance:
  "\<exists>u. (\<lambda>raw. if raw = ''redis://localhost:6379'' then Inr sample_url_opts else Inl (ErrMsg raw))
      ''redis://localhost:6379'' = Inr u \<and>
    client_option (\<lambda>raw. if raw = ''redis://localhost:6379'' then Inr sample_url_opts else Inl (ErrMsg raw))
      \<lparr>opt_url = '' localhost:6379'', opt_password = ''pw'', opt_key_prefix = []\<rparr> =
    Inr (u\<lparr>co_password := ''pw'', co_disable_cache := True, co_force_single_client := True\<rparr>)"
proof -
  let ?p = "\<lambda>raw. if raw = ''redis://localhost:6379'' then Inr sample_url_opts else Inl (ErrMsg raw)"
  let ?o = "\<lparr>opt_url = '' localhost:6379'', opt_password = ''pw'', opt_key_prefix = []\<rparr>"
  have t: "trim_space '' localhost:6379'' = ''localhost:6379''"
    by (simp add: unicode_spaces_def space_prefix_def trim_space_def)
  obtain copt where "client_option ?p ?o = Inr copt"
    by (simp add: client_option_def t Let_def)
  from client_option_sound [OF this] this show ?thesis by (auto simp: t)
qed

end
