(* ===== verification/Store_Spec.thy ===== *)
theory Store_Spec
  imports Valkey_Store
begin

text \<open>
  What the store promises about the per-type materialization, stated on what a reader of the
  cache sees, and the proof that \<open>SwapAnchorType\<close> and \<open>RefreshAnchorType\<close> implement it.

  \<open>abs_type\<close> reads one anchor type out of the keyspace as an abstract \<open>type_cache\<close> (the entries
  per territory, the etag, the freshness). On that level a swap is the replacement by the new
  snapshot and a refresh moves every validity horizon; the lemmas of the locale \<open>valkey_store\<close>
  show that the command batches of the store do exactly that, atomically, provided the
  territory index covers the entries (\<open>index_covers\<close>), which both operations preserve.
\<close>

section \<open>The reader's view\<close>

definition entry_at :: "key_contract \<Rightarrow> codec \<Rightarrow> string \<Rightarrow> keyspace \<Rightarrow> string \<Rightarrow> string \<Rightarrow> anchor_set_entry option" where
  "entry_at K C p ks t x =
     (case ks_val ks (p @ anchor_set_key K t x) of
        None \<Rightarrow> None
      | Some (b, _) \<Rightarrow> (case dec_entry C b of Inl _ \<Rightarrow> None | Inr e \<Rightarrow> Some e))"

definition etag_at :: "key_contract \<Rightarrow> string \<Rightarrow> keyspace \<Rightarrow> string \<Rightarrow> string option" where
  "etag_at K p ks t = map_option fst (ks_val ks (p @ etag_key K t))"

definition freshness_at :: "key_contract \<Rightarrow> codec \<Rightarrow> string \<Rightarrow> keyspace \<Rightarrow> string \<Rightarrow> type_freshness option" where
  "freshness_at K C p ks t =
     (case ks_val ks (p @ freshness_key K t) of
        None \<Rightarrow> None
      | Some (b, _) \<Rightarrow> (case dec_freshness C b of Inl _ \<Rightarrow> None | Inr fr \<Rightarrow> Some fr))"

text \<open>The index as \<open>territories\<close> reads it: \<open>[]\<close> when absent, \<open>None\<close> when undecodable.\<close>

definition index_at :: "key_contract \<Rightarrow> codec \<Rightarrow> string \<Rightarrow> keyspace \<Rightarrow> string \<Rightarrow> string list option" where
  "index_at K C p ks t =
     (case ks_val ks (p @ territory_index_key K t) of
        None \<Rightarrow> Some []
      | Some (b, _) \<Rightarrow> (case dec_index C b of Inl _ \<Rightarrow> None | Inr ts \<Rightarrow> Some ts))"

record type_cache =
  tc_entries :: "string \<rightharpoonup> anchor_set_entry"
  tc_etag :: "string option"
  tc_freshness :: "type_freshness option"

definition abs_type :: "key_contract \<Rightarrow> codec \<Rightarrow> string \<Rightarrow> keyspace \<Rightarrow> string \<Rightarrow> type_cache" where
  "abs_type K C p ks t =
     \<lparr>tc_entries = entry_at K C p ks t, tc_etag = etag_at K p ks t, tc_freshness = freshness_at K C p ks t\<rparr>"

text \<open>Every present entry key is listed in the (decodable) index.\<close>

definition index_covers :: "key_contract \<Rightarrow> codec \<Rightarrow> string \<Rightarrow> keyspace \<Rightarrow> string \<Rightarrow> bool" where
  "index_covers K C p ks t \<longleftrightarrow>
     (\<exists>ts. index_at K C p ks t = Some ts \<and>
        (\<forall>x. ks_val ks (p @ anchor_set_key K t x) \<noteq> None \<longrightarrow> x \<in> set ts))"

text \<open>The abstract operations.\<close>

definition spec_swap :: "swap \<Rightarrow> type_cache" where
  "spec_swap sw =
     \<lparr>tc_entries = map_of (map (\<lambda>e. (en_territory e, e)) (sw_entries sw)),
      tc_etag = Some (sw_etag sw), tc_freshness = Some (sw_freshness sw)\<rparr>"

definition spec_refresh :: "type_freshness \<Rightarrow> type_cache \<Rightarrow> type_cache" where
  "spec_refresh fr tc =
     tc\<lparr>tc_entries := (\<lambda>x. map_option (\<lambda>e. e\<lparr>en_valid_until := fr_valid_until fr\<rparr>) (tc_entries tc x)),
        tc_freshness := Some fr\<rparr>"

definition empty_cache :: type_cache where
  "empty_cache = \<lparr>tc_entries = Map.empty, tc_etag = None, tc_freshness = None\<rparr>"

section \<open>The store over any driver that behaves as documented\<close>

locale valkey_store =
  valkey "st_client st" view ex_ms + trust_keys K wire + cache_codec C wf_entry wf_index wf_freshness
  for st :: "'s store" and view :: "'s \<Rightarrow> keyspace" and ex_ms :: "duration \<Rightarrow> int"
    and K :: key_contract and wire :: "string set" and C :: codec
    and wf_entry :: "anchor_set_entry \<Rightarrow> bool" and wf_index :: "string list \<Rightarrow> bool"
    and wf_freshness :: "type_freshness \<Rightarrow> bool"
begin

text \<open>Single reads: the state seen through \<open>view\<close> does not change, and the answer is right.\<close>

lemma get_spec:
  assumes "store_get st key s = (r, s')"
  shows "view s' = view s \<and>
    (\<forall>v. r = Inr v \<longrightarrow> v = map_option fst (ks_val (view s) (st_key st key)))"
proof -
  obtain resp s1 where d: "do1 (st_client st) (CGet (st_key st key)) s = (resp, s1)" by force
  from read_law [OF _ d] have v: "view s1 = view s"
    and "resp = read_reply (CGet (st_key st key)) (view s) \<or>
      (\<exists>e. resp = RErr e \<and> e \<noteq> ValkeyNil)" by simp_all
  with assms d show ?thesis
    by (auto simp: store_get_def split: option.splits if_splits)
qed

lemma get_total:
  assumes "do1 (st_client st) (CGet (st_key st key)) s = (resp, s1)" "\<nexists>e. resp = RErr e"
  shows "store_get st key s = (Inr (map_option fst (ks_val (view s) (st_key st key))), s1)"
  using read_law [OF _ assms(1)] assms by (auto simp: store_get_def split: option.splits)

lemma territories_spec:
  assumes "territories st K C t s = (r, s')"
  shows "view s' = view s \<and> (\<forall>ts. r = Inr ts \<longrightarrow> index_at K C (st_prefix st) (view s) t = Some ts)"
proof -
  obtain g s1 where g: "store_get st (territory_index_key K t) s = (g, s1)" by force
  from get_spec [OF g] assms g show ?thesis
    by (auto simp: territories_def index_at_def st_key_def split: sum.splits option.splits)
qed

text \<open>A batch of writes: all of it when it succeeds, all or nothing when it fails.\<close>

lemma run_txn_spec:
  assumes "list_all cmd_writes cs" "run_txn st what cs s = (r, s')"
  shows "(r = Inr () \<and> view s' = fold (cmd_effect ex_ms) cs (view s)) \<or>
    (\<not> is_ok r \<and> (view s' = view s \<or> view s' = fold (cmd_effect ex_ms) cs (view s)))"
proof -
  obtain rs s1 where b: "st_client st (CMulti # cs @ [CExec]) s = (rs, s1)" by force
  from txn_law [OF assms(1) b] assms(2) b show ?thesis
    by (auto simp: run_txn_def split: option.splits)
qed

text \<open>The commands of a swap and the keys they touch.\<close>

lemma entry_cmds_set:
  assumes "entry_cmds st K C t ttl es = Inr cs"
  shows "(\<forall>e \<in> set es. enc_entry C e = Inr (projr (enc_entry C e))) \<and>
    set cs = (\<lambda>e. CSetEx (st_key st (anchor_set_key K t (en_territory e))) (projr (enc_entry C e)) ttl) ` set es"
  using assms
  by (induction es arbitrary: cs) (auto split: sum.splits)

lemma swap_cmds_cases:
  assumes "entry_cmds st K C (sw_key_type sw) (sw_ttl sw) (sw_entries sw) = Inr sets"
    and "d \<in> set (swap_cmds st K sw prev sets idx fr)"
  obtains (del) y where "y \<in> set prev" "y \<notin> en_territory ` set (sw_entries sw)"
      "d = CDel (st_key st (anchor_set_key K (sw_key_type sw) y))"
    | (entry) e where "e \<in> set (sw_entries sw)"
      "d = CSetEx (st_key st (anchor_set_key K (sw_key_type sw) (en_territory e))) (projr (enc_entry C e)) (sw_ttl sw)"
    | (index) "d = CSetEx (st_key st (territory_index_key K (sw_key_type sw))) idx (sw_ttl sw)"
    | (etag) "d = CSetEx (st_key st (etag_key K (sw_key_type sw))) (sw_etag sw) (sw_ttl sw)"
    | (fresh) "d = CSetEx (st_key st (freshness_key K (sw_key_type sw))) fr (sw_ttl sw)"
  using assms(2) entry_cmds_set [OF assms(1)]
  by (auto simp: swap_cmds_def vanished_cmds_def)

lemma swap_cmds_writes:
  assumes "entry_cmds st K C (sw_key_type sw) (sw_ttl sw) (sw_entries sw) = Inr sets" "second \<le> sw_ttl sw"
  shows "list_all cmd_writes (swap_cmds st K sw prev sets idx fr)"
  unfolding list_all_iff
  by (intro ballI, erule swap_cmds_cases [OF assms(1)]) (use assms(2) in simp_all)

text \<open>Nothing but the type's own four kinds of keys is touched.\<close>

lemma swap_cmds_frame:
  assumes "entry_cmds st K C (sw_key_type sw) (sw_ttl sw) (sw_entries sw) = Inr sets"
    and "\<forall>y. k \<noteq> anchor_set_key K (sw_key_type sw) y" "k \<noteq> territory_index_key K (sw_key_type sw)"
      "k \<noteq> etag_key K (sw_key_type sw)" "k \<noteq> freshness_key K (sw_key_type sw)"
  shows "ks_val (fold (cmd_effect x) (swap_cmds st K sw prev sets idx fr) ks) (st_key st k) = ks_val ks (st_key st k)"
proof (rule fold_effect_other)
  show "Some (st_key st k) \<notin> cmd_key ` set (swap_cmds st K sw prev sets idx fr)"
  proof
    assume "Some (st_key st k) \<in> cmd_key ` set (swap_cmds st K sw prev sets idx fr)"
    then obtain d where "d \<in> set (swap_cmds st K sw prev sets idx fr)" "cmd_key d = Some (st_key st k)" by force
    then show False using assms by (elim swap_cmds_cases [OF assms(1)]) auto
  qed
qed

text \<open>The value of each of the type's keys after the batch.\<close>

lemma swap_meta:
  fixes prev :: "string list" and idx fr :: string
  assumes sets: "entry_cmds st K C (sw_key_type sw) (sw_ttl sw) (sw_entries sw) = Inr sets"
    and wire: "sw_key_type sw \<in> wire"
  defines "W \<equiv> swap_cmds st K sw prev sets idx fr"
  shows swap_index: "ks_val (fold (cmd_effect x) W ks) (st_key st (territory_index_key K (sw_key_type sw))) =
        Some (idx, Some (x (sw_ttl sw)))"
    and swap_etag: "ks_val (fold (cmd_effect x) W ks) (st_key st (etag_key K (sw_key_type sw))) =
        Some (sw_etag sw, Some (x (sw_ttl sw)))"
    and swap_fresh: "ks_val (fold (cmd_effect x) W ks) (st_key st (freshness_key K (sw_key_type sw))) =
        Some (fr, Some (x (sw_ttl sw)))"
proof -
  note cases = swap_cmds_cases [OF sets, of _ prev idx fr, folded W_def,
    consumes 1, case_names del entry index etag fresh]
  note neq = key_neq [OF wire wire] anchor_key_inj [OF wire wire]
  have meta: "ks_val (fold (cmd_effect x) W ks) (st_key st k) = Some (v, Some (x (sw_ttl sw)))"
    if kv: "(k, v) \<in> {(territory_index_key K (sw_key_type sw), idx), (etag_key K (sw_key_type sw), sw_etag sw),
      (freshness_key K (sw_key_type sw), fr)}" for k v
  proof (rule fold_effect_set)
    show "CSetEx (st_key st k) v (sw_ttl sw) \<in> set W" using kv by (auto simp: W_def swap_cmds_def)
    have "d = CSetEx (st_key st k) v (sw_ttl sw)" if "d \<in> set W" "cmd_key d = Some (st_key st k)" for d
      using that(1) by (cases rule: cases) (use that(2) kv in \<open>auto simp: neq\<close>)
    then show "\<forall>d \<in> set W. cmd_key d = Some (st_key st k) \<longrightarrow> d = CSetEx (st_key st k) v (sw_ttl sw)"
      by blast
  qed
  show "ks_val (fold (cmd_effect x) W ks) (st_key st (territory_index_key K (sw_key_type sw))) =
        Some (idx, Some (x (sw_ttl sw)))"
    and "ks_val (fold (cmd_effect x) W ks) (st_key st (etag_key K (sw_key_type sw))) =
        Some (sw_etag sw, Some (x (sw_ttl sw)))"
    and "ks_val (fold (cmd_effect x) W ks) (st_key st (freshness_key K (sw_key_type sw))) =
        Some (fr, Some (x (sw_ttl sw)))"
    by (simp_all add: meta)
qed

lemma swap_entry:
  fixes prev :: "string list" and idx fr :: string
  assumes sets: "entry_cmds st K C (sw_key_type sw) (sw_ttl sw) (sw_entries sw) = Inr sets"
    and wire: "sw_key_type sw \<in> wire" and dist: "distinct (map en_territory (sw_entries sw))" and e: "e \<in> set (sw_entries sw)"
  defines "W \<equiv> swap_cmds st K sw prev sets idx fr"
  shows "ks_val (fold (cmd_effect x) W ks) (st_key st (anchor_set_key K (sw_key_type sw) (en_territory e))) =
        Some (projr (enc_entry C e), Some (x (sw_ttl sw)))"
proof -
  note cases = swap_cmds_cases [OF sets, of _ prev idx fr, folded W_def,
    consumes 1, case_names del entry index etag fresh]
  note neq = key_neq [OF wire wire] anchor_key_inj [OF wire wire]
  show "ks_val (fold (cmd_effect x) W ks) (st_key st (anchor_set_key K (sw_key_type sw) (en_territory e))) =
        Some (projr (enc_entry C e), Some (x (sw_ttl sw)))"
  proof (rule fold_effect_set)
    show "CSetEx (st_key st (anchor_set_key K (sw_key_type sw) (en_territory e))) (projr (enc_entry C e)) (sw_ttl sw) \<in> set W"
      using e entry_cmds_set [OF sets] by (auto simp: W_def swap_cmds_def)
    have "d = CSetEx (st_key st (anchor_set_key K (sw_key_type sw) (en_territory e))) (projr (enc_entry C e)) (sw_ttl sw)"
      if "d \<in> set W" "cmd_key d = Some (st_key st (anchor_set_key K (sw_key_type sw) (en_territory e)))" for d
      using that(1)
    proof (cases rule: cases)
      case (entry e')
      with that(2) have "en_territory e' = en_territory e" by (simp add: neq)
      with dist e entry have "e' = e" by (auto simp: distinct_map dest: inj_onD)
      with entry show ?thesis by simp
    qed (use that(2) e in \<open>auto simp: neq\<close>)
    then show "\<forall>d \<in> set W. cmd_key d = Some (st_key st (anchor_set_key K (sw_key_type sw) (en_territory e))) \<longrightarrow>
      d = CSetEx (st_key st (anchor_set_key K (sw_key_type sw) (en_territory e))) (projr (enc_entry C e)) (sw_ttl sw)"
      by blast
  qed
qed

lemma swap_gone:
  fixes prev :: "string list" and idx fr :: string
  assumes sets: "entry_cmds st K C (sw_key_type sw) (sw_ttl sw) (sw_entries sw) = Inr sets"
    and wire: "sw_key_type sw \<in> wire" and y: "y \<notin> en_territory ` set (sw_entries sw)"
  defines "W \<equiv> swap_cmds st K sw prev sets idx fr"
  shows "ks_val (fold (cmd_effect x) W ks) (st_key st (anchor_set_key K (sw_key_type sw) y)) =
        (if y \<in> set prev then None else ks_val ks (st_key st (anchor_set_key K (sw_key_type sw) y)))"
proof -
  note cases = swap_cmds_cases [OF sets, of _ prev idx fr, folded W_def,
    consumes 1, case_names del entry index etag fresh]
  note neq = key_neq [OF wire wire] anchor_key_inj [OF wire wire]
  let ?k = "st_key st (anchor_set_key K (sw_key_type sw) y)"
  have only: "d = CDel ?k \<and> y \<in> set prev" if "d \<in> set W" "cmd_key d = Some ?k" for d
    using that(1) by (cases rule: cases) (use that(2) y in \<open>auto simp: neq\<close>)
  show ?thesis
  proof (cases "y \<in> set prev")
    case True
    then have "CDel ?k \<in> set W" using y by (auto simp: W_def swap_cmds_def vanished_cmds_def)
    moreover have "\<forall>d \<in> set W. cmd_key d = Some ?k \<longrightarrow> d = CDel ?k" using only by blast
    ultimately have "ks_val (fold (cmd_effect x) W ks) ?k = None" by (rule fold_effect_del)
    with True show ?thesis by simp
  next
    case False
    with only have "Some ?k \<notin> cmd_key ` set W" by (metis imageE)
    then have "ks_val (fold (cmd_effect x) W ks) ?k = ks_val ks ?k" by (rule fold_effect_other)
    with False show ?thesis by simp
  qed
qed

text \<open>On the reader's level the batch is the abstract swap.\<close>

lemma swap_batch_abs:
  fixes x :: "duration \<Rightarrow> int" and ks :: keyspace
  assumes sets: "entry_cmds st K C (sw_key_type sw) (sw_ttl sw) (sw_entries sw) = Inr sets"
    and idx: "enc_index C (sort (map en_territory (sw_entries sw))) = Inr idx"
    and fr: "enc_freshness C (sw_freshness sw) = Inr fr"
    and wire: "sw_key_type sw \<in> wire" and dist: "distinct (map en_territory (sw_entries sw))"
    and wf: "\<forall>e \<in> set (sw_entries sw). wf_entry e" "wf_index (sort (map en_territory (sw_entries sw)))"
      "wf_freshness (sw_freshness sw)"
    and prev: "index_at K C (st_prefix st) ks (sw_key_type sw) = Some prev"
    and cov: "index_covers K C (st_prefix st) ks (sw_key_type sw)"
  defines "ks' \<equiv> fold (cmd_effect x) (swap_cmds st K sw prev sets idx fr) ks"
  shows "abs_type K C (st_prefix st) ks' (sw_key_type sw) = spec_swap sw \<and>
    index_covers K C (st_prefix st) ks' (sw_key_type sw)"
proof -
  let ?t = "sw_key_type sw" and ?p = "st_prefix st"
  note vals =
    swap_meta [OF sets wire, where x = x and prev = prev and idx = idx and fr = fr and ks = ks, folded ks'_def, unfolded st_key_def]
    swap_entry [OF sets wire dist, where x = x and prev = prev and idx = idx and fr = fr and ks = ks, folded ks'_def, unfolded st_key_def]
    swap_gone [OF sets wire, where x = x and prev = prev and idx = idx and fr = fr and ks = ks, folded ks'_def, unfolded st_key_def]
  have gone: "ks_val ks' (?p @ anchor_set_key K ?t y) = None" if "y \<notin> en_territory ` set (sw_entries sw)" for y
  proof -
    have "y \<notin> set prev \<Longrightarrow> ks_val ks (?p @ anchor_set_key K ?t y) = None"
      using cov prev unfolding index_covers_def by (metis option.inject)
    with vals(5) [OF that] show ?thesis by simp
  qed
  have entries: "entry_at K C ?p ks' ?t = map_of (map (\<lambda>e. (en_territory e, e)) (sw_entries sw))"
  proof
    fix y
    show "entry_at K C ?p ks' ?t y = map_of (map (\<lambda>e. (en_territory e, e)) (sw_entries sw)) y"
    proof (cases "y \<in> en_territory ` set (sw_entries sw)")
      case True
      then obtain e where e: "e \<in> set (sw_entries sw)" "y = en_territory e" by blast
      have "dec_entry C (projr (enc_entry C e)) = Inr e"
        using wf(1) e(1) entry_cmds_set [OF sets] by (auto intro: dec_enc_entry)
      moreover have "map_of (map (\<lambda>e. (en_territory e, e)) (sw_entries sw)) y = Some e"
        using e dist by (intro map_of_is_SomeI) (auto simp: comp_def)
      ultimately show ?thesis using vals(4) [OF e(1)] by (simp add: entry_at_def e(2))
    next
      case False
      moreover have "map_of (map (\<lambda>e. (en_territory e, e)) (sw_entries sw)) y = None"
        using False by (auto simp: map_of_eq_None_iff image_iff)
      ultimately show ?thesis by (simp add: entry_at_def gone)
    qed
  qed
  have "dec_freshness C fr = Inr (sw_freshness sw)" using wf(3) fr by (rule dec_enc_freshness)
  then have meta: "etag_at K ?p ks' ?t = Some (sw_etag sw)" "freshness_at K C ?p ks' ?t = Some (sw_freshness sw)"
    using vals by (simp_all add: etag_at_def freshness_at_def)
  have "index_at K C ?p ks' ?t = Some (sort (map en_territory (sw_entries sw)))"
    using vals(1) dec_enc_index [OF wf(2) idx] by (simp add: index_at_def)
  moreover have "\<forall>y. ks_val ks' (?p @ anchor_set_key K ?t y) \<noteq> None \<longrightarrow>
      y \<in> set (sort (map en_territory (sw_entries sw)))"
    using gone by (metis set_map set_sort)
  ultimately have "index_covers K C ?p ks' ?t" unfolding index_covers_def by blast
  with entries meta show ?thesis by (simp add: abs_type_def spec_swap_def)
qed

text \<open>The view of another type depends on that type's keys only.\<close>

lemma abs_type_cong:
  assumes "\<And>y. ks_val ks' (p @ anchor_set_key K t y) = ks_val ks (p @ anchor_set_key K t y)"
    "ks_val ks' (p @ etag_key K t) = ks_val ks (p @ etag_key K t)"
    "ks_val ks' (p @ freshness_key K t) = ks_val ks (p @ freshness_key K t)"
  shows "abs_type K C p ks' t = abs_type K C p ks t"
  using assms by (simp add: abs_type_def entry_at_def etag_at_def freshness_at_def fun_eq_iff)

lemma index_covers_cong:
  assumes "\<And>y. ks_val ks' (p @ anchor_set_key K t y) = ks_val ks (p @ anchor_set_key K t y)"
    "ks_val ks' (p @ territory_index_key K t) = ks_val ks (p @ territory_index_key K t)"
  shows "index_covers K C p ks' t = index_covers K C p ks t"
  using assms by (simp add: index_covers_def index_at_def)

lemma swap_batch_other:
  fixes x :: "duration \<Rightarrow> int" and ks :: keyspace and prev :: "string list" and idx fr :: string
  assumes sets: "entry_cmds st K C (sw_key_type sw) (sw_ttl sw) (sw_entries sw) = Inr sets"
    and wire: "sw_key_type sw \<in> wire" "t \<in> wire" "t \<noteq> sw_key_type sw"
  defines "ks' \<equiv> fold (cmd_effect x) (swap_cmds st K sw prev sets idx fr) ks"
  shows "abs_type K C (st_prefix st) ks' t = abs_type K C (st_prefix st) ks t \<and>
    index_covers K C (st_prefix st) ks' t = index_covers K C (st_prefix st) ks t"
proof -
  note frame = swap_cmds_frame [OF sets, where x = x and prev = prev and idx = idx and fr = fr and ks = ks, folded ks'_def, unfolded st_key_def]
  have "ks_val ks' (st_prefix st @ k) = ks_val ks (st_prefix st @ k)"
    if "k \<in> {etag_key K t, freshness_key K t, territory_index_key K t} \<union> range (anchor_set_key K t)" for k
    using that wire by (intro frame) (auto simp: key_neq key_inj)
  then show ?thesis by (simp add: abs_type_cong [where ks' = ks'] index_covers_cong [where ks' = ks'])
qed

text \<open>The whole operation.\<close>

lemma swap_run:
  assumes wire: "sw_key_type sw \<in> wire" and ttl: "second \<le> sw_ttl sw"
    and run: "swap_anchor_type st K C sw s = (r, s')"
  obtains (early) "\<not> is_ok r" "view s' = view s"
    | (batch) prev sets idx fr where
      "index_at K C (st_prefix st) (view s) (sw_key_type sw) = Some prev"
      "entry_cmds st K C (sw_key_type sw) (sw_ttl sw) (sw_entries sw) = Inr sets"
      "enc_index C (sort (map en_territory (sw_entries sw))) = Inr idx"
      "enc_freshness C (sw_freshness sw) = Inr fr"
      "(r = Inr () \<and> view s' = fold (cmd_effect ex_ms) (swap_cmds st K sw prev sets idx fr) (view s)) \<or>
       (\<not> is_ok r \<and> (view s' = view s \<or>
          view s' = fold (cmd_effect ex_ms) (swap_cmds st K sw prev sets idx fr) (view s)))"
proof -
  obtain q s1 where q: "territories st K C (sw_key_type sw) s = (q, s1)" by force
  note tq = territories_spec [OF q]
  show ?thesis
  proof (cases q)
    case (Inl e)
    with run q tq early show ?thesis by (auto simp: swap_anchor_type_def)
  next
    case (Inr prev)
    show ?thesis
    proof (cases "\<exists>idx fr sets. enc_index C (sort (map en_territory (sw_entries sw))) = Inr idx \<and>
        enc_freshness C (sw_freshness sw) = Inr fr \<and>
        entry_cmds st K C (sw_key_type sw) (sw_ttl sw) (sw_entries sw) = Inr sets")
      case True
      then obtain idx fr sets where m: "enc_index C (sort (map en_territory (sw_entries sw))) = Inr idx"
        "enc_freshness C (sw_freshness sw) = Inr fr"
        "entry_cmds st K C (sw_key_type sw) (sw_ttl sw) (sw_entries sw) = Inr sets" by blast
      from run q Inr m have "run_txn st (''valkeystore: swap '' @ sw_key_type sw @ '': '')
          (swap_cmds st K sw prev sets idx fr) s1 = (r, s')"
        by (simp add: swap_anchor_type_def)
      from run_txn_spec [OF swap_cmds_writes [OF m(3) ttl] this] tq Inr m batch show ?thesis by simp
    next
      case False
      with run q Inr tq early show ?thesis
        by (auto simp: swap_anchor_type_def split: sum.splits)
    qed
  qed
qed

text \<open>The read-decode-patch-encode loop of the refresh.\<close>

lemma patch_entries_spec:
  assumes "patch_entries st K C t fr ts patched s = (r, s')"
  shows "view s' = view s \<and> (\<forall>m. r = Inr m \<longrightarrow>
    (\<forall>x \<in> set ts. \<forall>b ttl. ks_val (view s) (st_key st (anchor_set_key K t x)) = Some (b, ttl) \<longrightarrow>
       (\<exists>e out. dec_entry C b = Inr e \<and> enc_entry C (e\<lparr>en_valid_until := fr_valid_until fr\<rparr>) = Inr out \<and>
         m x = Some out)) \<and>
    (\<forall>x. x \<notin> set ts \<or> ks_val (view s) (st_key st (anchor_set_key K t x)) = None \<longrightarrow> m x = patched x))"
  using assms
proof (induction ts arbitrary: patched s)
  case Nil
  then show ?case by auto
next
  case (Cons x ts)
  obtain g s1 where g: "store_get st (anchor_set_key K t x) s = (g, s1)" by force
  from get_spec [OF g] have v: "view s1 = view s"
    and gv: "\<And>v. g = Inr v \<Longrightarrow> v = map_option fst (ks_val (view s) (st_key st (anchor_set_key K t x)))" by auto
  consider (err) e where "g = Inl e" | (absent) "g = Inr None" | (raw) b where "g = Inr (Some b)"
    by (metis option.exhaust sum.exhaust)
  then show ?case
  proof cases
    case err
    with Cons.prems g v show ?thesis by auto
  next
    case absent
    with Cons.prems g have "patch_entries st K C t fr ts patched s1 = (r, s')" by simp
    from Cons.IH [OF this] v gv [OF absent] show ?thesis by auto
  next
    case (raw b)
    show ?thesis
    proof (cases "\<exists>e out. dec_entry C b = Inr e \<and> enc_entry C (e\<lparr>en_valid_until := fr_valid_until fr\<rparr>) = Inr out")
      case True
      then obtain e out where eo: "dec_entry C b = Inr e"
        "enc_entry C (e\<lparr>en_valid_until := fr_valid_until fr\<rparr>) = Inr out" by blast
      with Cons.prems g raw have "patch_entries st K C t fr ts (patched(x \<mapsto> out)) s1 = (r, s')" by simp
      note IH = Cons.IH [OF this, unfolded v]
      from gv [OF raw] obtain ttl where k: "ks_val (view s) (st_key st (anchor_set_key K t x)) = Some (b, ttl)"
        by (cases "ks_val (view s) (st_key st (anchor_set_key K t x))") auto
      show ?thesis
      proof (intro conjI allI impI)
        show "view s' = view s" using IH by simp
        fix m assume m: "r = Inr m"
        show "\<forall>y \<in> set (x # ts). \<forall>b ttl. ks_val (view s) (st_key st (anchor_set_key K t y)) = Some (b, ttl) \<longrightarrow>
          (\<exists>e out. dec_entry C b = Inr e \<and> enc_entry C (e\<lparr>en_valid_until := fr_valid_until fr\<rparr>) = Inr out \<and> m y = Some out)"
          using IH m k eo by (cases "x \<in> set ts") auto
        fix y assume "y \<notin> set (x # ts) \<or> ks_val (view s) (st_key st (anchor_set_key K t y)) = None"
        then show "m y = patched y" using IH m k by auto
      qed
    next
      case False
      with Cons.prems g raw v show ?thesis by (auto split: sum.splits)
    qed
  qed
qed

lemma refresh_cmds_writes:
  assumes "second \<le> ttl"
  shows "list_all cmd_writes (refresh_cmds st K t ttl prev m fr)"
proof -
  have "0 < go_div ttl second" using assms by (simp add: go_div_pos second_def)
  with assms show ?thesis by (auto simp: refresh_cmds_def list_all_iff Let_def split: option.splits)
qed

lemma refresh_cmds_cases [consumes 1, case_names entry index etag fresh]:
  assumes "d \<in> set (refresh_cmds st K t ttl prev m fr)"
  obtains (entry) y where "y \<in> set prev"
      "d = (case m y of Some raw \<Rightarrow> CSetEx (st_key st (anchor_set_key K t y)) raw ttl
            | None \<Rightarrow> CExpire (st_key st (anchor_set_key K t y)) (go_div ttl second))"
    | (index) "d = CExpire (st_key st (territory_index_key K t)) (go_div ttl second)"
    | (etag) "d = CExpire (st_key st (etag_key K t)) (go_div ttl second)"
    | (fresh) "d = CSetEx (st_key st (freshness_key K t)) fr ttl"
  using assms by (auto simp: refresh_cmds_def Let_def)

lemma refresh_values:
  fixes prev :: "string list" and m :: "string \<rightharpoonup> string" and fr :: string and ttl :: duration
  assumes wire: "t \<in> wire"
  defines "W \<equiv> refresh_cmds st K t ttl prev m fr" and "n \<equiv> go_div ttl second * 1000"
  shows "ks_val (fold (cmd_effect x) W ks) (st_key st (territory_index_key K t)) =
        map_option (\<lambda>p. (fst p, Some n)) (ks_val ks (st_key st (territory_index_key K t)))"
    and "ks_val (fold (cmd_effect x) W ks) (st_key st (etag_key K t)) =
        map_option (\<lambda>p. (fst p, Some n)) (ks_val ks (st_key st (etag_key K t)))"
    and "ks_val (fold (cmd_effect x) W ks) (st_key st (freshness_key K t)) = Some (fr, Some (x ttl))"
    and "ks_val (fold (cmd_effect x) W ks) (st_key st (anchor_set_key K t y)) =
        (if y \<in> set prev
         then (case m y of Some raw \<Rightarrow> Some (raw, Some (x ttl))
               | None \<Rightarrow> map_option (\<lambda>p. (fst p, Some n)) (ks_val ks (st_key st (anchor_set_key K t y))))
         else ks_val ks (st_key st (anchor_set_key K t y)))"
proof -
  note neq = key_neq [OF wire wire] anchor_key_inj [OF wire wire]
  have cmd: "cmd_key (case q of Some raw \<Rightarrow> CSetEx k raw ttl | None \<Rightarrow> CExpire k i) = Some k" for q k i
    by (cases q) auto
  have only: "d = c" if "d \<in> set W" "c \<in> set W" "cmd_key d = cmd_key c" for c d
    using that unfolding W_def
    by (elim refresh_cmds_cases) (auto simp: neq cmd split: option.splits)
  have one: "\<forall>d \<in> set W. cmd_key d = Some k \<longrightarrow> d = c" if "c \<in> set W" "cmd_key c = Some k" for c k
    using only that by simp
  show "ks_val (fold (cmd_effect x) W ks) (st_key st (territory_index_key K t)) =
        map_option (\<lambda>p. (fst p, Some n)) (ks_val ks (st_key st (territory_index_key K t)))"
    unfolding n_def
    by (intro fold_effect_expire one) (simp_all add: W_def refresh_cmds_def Let_def)
  show "ks_val (fold (cmd_effect x) W ks) (st_key st (etag_key K t)) =
        map_option (\<lambda>p. (fst p, Some n)) (ks_val ks (st_key st (etag_key K t)))"
    unfolding n_def
    by (intro fold_effect_expire one) (simp_all add: W_def refresh_cmds_def Let_def)
  show "ks_val (fold (cmd_effect x) W ks) (st_key st (freshness_key K t)) = Some (fr, Some (x ttl))"
    by (intro fold_effect_set one) (simp_all add: W_def refresh_cmds_def Let_def)
  let ?k = "st_key st (anchor_set_key K t y)"
  show "ks_val (fold (cmd_effect x) W ks) ?k =
        (if y \<in> set prev
         then (case m y of Some raw \<Rightarrow> Some (raw, Some (x ttl))
               | None \<Rightarrow> map_option (\<lambda>p. (fst p, Some n)) (ks_val ks ?k))
         else ks_val ks ?k)"
  proof (cases "y \<in> set prev")
    case True
    show ?thesis
    proof (cases "m y")
      case None
      have "CExpire ?k (go_div ttl second) \<in> set W"
        using True None by (force simp: W_def refresh_cmds_def Let_def image_iff)
      then have "ks_val (fold (cmd_effect x) W ks) ?k = map_option (\<lambda>p. (fst p, Some n)) (ks_val ks ?k)"
        unfolding n_def by (intro fold_effect_expire one) simp_all
      with True None show ?thesis by simp
    next
      case (Some raw)
      have "CSetEx ?k raw ttl \<in> set W"
        using True Some by (force simp: W_def refresh_cmds_def Let_def image_iff)
      then have "ks_val (fold (cmd_effect x) W ks) ?k = Some (raw, Some (x ttl))"
        by (intro fold_effect_set one) simp_all
      with True Some show ?thesis by simp
    qed
  next
    case False
    have "cmd_key d \<noteq> Some ?k" if "d \<in> set W" for d
      using that False unfolding W_def by (elim refresh_cmds_cases) (auto simp: neq cmd)
    then have "ks_val (fold (cmd_effect x) W ks) ?k = ks_val ks ?k"
      by (intro fold_effect_other) force
    with False show ?thesis by simp
  qed
qed

text \<open>On the reader's level the batch is the abstract refresh.\<close>

lemma refresh_batch_abs:
  fixes x :: "duration \<Rightarrow> int" and m :: "string \<rightharpoonup> string" and ttl :: duration and ks :: keyspace
  assumes wire: "t \<in> wire" and fr: "enc_freshness C f = Inr fr" "wf_freshness f"
    and prev: "index_at K C (st_prefix st) ks t = Some prev" and cov: "index_covers K C (st_prefix st) ks t"
    and patch: "\<forall>y \<in> set prev. \<forall>b ms. ks_val ks (st_key st (anchor_set_key K t y)) = Some (b, ms) \<longrightarrow>
       (\<exists>e out. dec_entry C b = Inr e \<and> enc_entry C (e\<lparr>en_valid_until := fr_valid_until f\<rparr>) = Inr out \<and>
         m y = Some out)"
      "\<forall>y. y \<notin> set prev \<or> ks_val ks (st_key st (anchor_set_key K t y)) = None \<longrightarrow> m y = None"
  defines "ks' \<equiv> fold (cmd_effect x) (refresh_cmds st K t ttl prev m fr) ks"
  shows "abs_type K C (st_prefix st) ks' t = spec_refresh f (abs_type K C (st_prefix st) ks t) \<and>
    index_covers K C (st_prefix st) ks' t"
proof -
  let ?p = "st_prefix st"
  note vals = refresh_values [OF wire, where x = x and prev = prev and m = m and fr = fr and ks = ks and ttl = ttl,
      folded ks'_def, unfolded st_key_def]
  have cov': "ks_val ks (?p @ anchor_set_key K t y) = None" if "y \<notin> set prev" for y
    using cov prev that unfolding index_covers_def by (metis option.inject)
  have none: "ks_val ks' (?p @ anchor_set_key K t y) = None" if "ks_val ks (?p @ anchor_set_key K t y) = None" for y
    using vals(4) [of y] that patch(2) by (simp add: st_key_def split: option.splits)
  have entry: "entry_at K C ?p ks' t y =
      map_option (\<lambda>e. e\<lparr>en_valid_until := fr_valid_until f\<rparr>) (entry_at K C ?p ks t y)" for y
  proof (cases "ks_val ks (?p @ anchor_set_key K t y)")
    case None
    with none show ?thesis by (simp add: entry_at_def)
  next
    case (Some bm)
    then obtain b ms where k: "ks_val ks (?p @ anchor_set_key K t y) = Some (b, ms)" by (cases bm) auto
    with cov' have y: "y \<in> set prev" by fastforce
    have "\<exists>e out. dec_entry C b = Inr e \<and>
        enc_entry C (e\<lparr>en_valid_until := fr_valid_until f\<rparr>) = Inr out \<and> m y = Some out"
      by (rule patch(1) [rule_format, OF y]) (simp add: st_key_def k)
    then obtain e out where eo: "dec_entry C b = Inr e"
      "enc_entry C (e\<lparr>en_valid_until := fr_valid_until f\<rparr>) = Inr out" "m y = Some out"
      by auto
    have "dec_entry C out = Inr (e\<lparr>en_valid_until := fr_valid_until f\<rparr>)"
      by (rule dec_enc_entry [OF wf_patch [OF dec_entry_wf [OF eo(1)] fr(2)] eo(2)])
    then show ?thesis using vals(4) [of y] y k eo by (simp add: entry_at_def)
  qed
  have "dec_freshness C fr = Inr f" by (rule dec_enc_freshness [OF fr(2,1)])
  then have "freshness_at K C ?p ks' t = Some f" using vals(3) by (simp add: freshness_at_def)
  moreover have "etag_at K ?p ks' t = etag_at K ?p ks t"
    using vals(2) by (simp add: etag_at_def option.map_comp comp_def)
  ultimately have abs: "abs_type K C ?p ks' t = spec_refresh f (abs_type K C ?p ks t)"
    using entry by (simp add: abs_type_def spec_refresh_def fun_eq_iff)
  have "index_at K C ?p ks' t = Some prev"
    using vals(1) prev by (auto simp: index_at_def split: option.splits)
  moreover have "\<forall>y. ks_val ks' (?p @ anchor_set_key K t y) \<noteq> None \<longrightarrow> y \<in> set prev"
    by (metis none cov')
  ultimately have "index_covers K C ?p ks' t" unfolding index_covers_def by blast
  with abs show ?thesis by simp
qed

lemma refresh_cmds_frame:
  assumes "\<forall>y. k \<noteq> anchor_set_key K t y" "k \<noteq> territory_index_key K t" "k \<noteq> etag_key K t" "k \<noteq> freshness_key K t"
  shows "ks_val (fold (cmd_effect x) (refresh_cmds st K t ttl prev m fr) ks) (st_key st k) = ks_val ks (st_key st k)"
proof (rule fold_effect_other)
  have "cmd_key d \<noteq> Some (st_key st k)" if "d \<in> set (refresh_cmds st K t ttl prev m fr)" for d
    using that assms by (elim refresh_cmds_cases) (auto split: option.splits)
  then show "Some (st_key st k) \<notin> cmd_key ` set (refresh_cmds st K t ttl prev m fr)" by force
qed

lemma refresh_batch_other:
  fixes x :: "duration \<Rightarrow> int" and ks :: keyspace and prev :: "string list" and fr :: string
    and m :: "string \<rightharpoonup> string" and ttl :: duration
  assumes wire: "t \<in> wire" "t' \<in> wire" "t' \<noteq> t"
  defines "ks' \<equiv> fold (cmd_effect x) (refresh_cmds st K t ttl prev m fr) ks"
  shows "abs_type K C (st_prefix st) ks' t' = abs_type K C (st_prefix st) ks t' \<and>
    index_covers K C (st_prefix st) ks' t' = index_covers K C (st_prefix st) ks t'"
proof -
  note frame = refresh_cmds_frame [where x = x and t = t and prev = prev and m = m and fr = fr and ks = ks and ttl = ttl,
      folded ks'_def, unfolded st_key_def]
  have "ks_val ks' (st_prefix st @ k) = ks_val ks (st_prefix st @ k)"
    if "k \<in> {etag_key K t', freshness_key K t', territory_index_key K t'} \<union> range (anchor_set_key K t')" for k
    using that wire by (intro frame) (auto simp: key_neq key_inj)
  then show ?thesis by (simp add: abs_type_cong [where ks' = ks'] index_covers_cong [where ks' = ks'])
qed

lemma refresh_run:
  assumes wire: "t \<in> wire" and ttl: "second \<le> ttl"
    and run: "refresh_anchor_type st K C t f ttl s = (r, s')"
  obtains (early) "\<not> is_ok r" "view s' = view s"
    | (batch) prev m fr where
      "index_at K C (st_prefix st) (view s) t = Some prev"
      "\<forall>y \<in> set prev. \<forall>b ms. ks_val (view s) (st_key st (anchor_set_key K t y)) = Some (b, ms) \<longrightarrow>
         (\<exists>e out. dec_entry C b = Inr e \<and> enc_entry C (e\<lparr>en_valid_until := fr_valid_until f\<rparr>) = Inr out \<and>
           m y = Some out)"
      "\<forall>y. y \<notin> set prev \<or> ks_val (view s) (st_key st (anchor_set_key K t y)) = None \<longrightarrow> m y = None"
      "enc_freshness C f = Inr fr"
      "(r = Inr () \<and> view s' = fold (cmd_effect ex_ms) (refresh_cmds st K t ttl prev m fr) (view s)) \<or>
       (\<not> is_ok r \<and> (view s' = view s \<or>
          view s' = fold (cmd_effect ex_ms) (refresh_cmds st K t ttl prev m fr) (view s)))"
proof -
  obtain q s1 where q: "territories st K C t s = (q, s1)" by force
  note tq = territories_spec [OF q]
  show ?thesis
  proof (cases q)
    case (Inl e)
    with run q tq early show ?thesis by (auto simp: refresh_anchor_type_def)
  next
    case (Inr prev)
    obtain pq s2 where pq: "patch_entries st K C t f prev Map.empty s1 = (pq, s2)" by force
    note tp = patch_entries_spec [OF pq]
    show ?thesis
    proof (cases pq)
      case (Inl e)
      with run q Inr pq tq tp early show ?thesis by (auto simp: refresh_anchor_type_def)
    next
      case p: (Inr m)
      show ?thesis
      proof (cases "enc_freshness C f")
        case (Inl e)
        with run q Inr pq p tq tp early \<open>q = Inr prev\<close> show ?thesis by (auto simp: refresh_anchor_type_def)
      next
        case fr: (Inr fr)
        with run q \<open>q = Inr prev\<close> pq p have "run_txn st (''valkeystore: refresh '' @ t @ '': '')
            (refresh_cmds st K t ttl prev m fr) s2 = (r, s')"
          by (simp add: refresh_anchor_type_def)
        from run_txn_spec [OF refresh_cmds_writes [OF ttl] this]
        show ?thesis using tq tp p fr \<open>q = Inr prev\<close> by (intro batch [of prev m fr]) auto
      qed
    qed
  qed
qed

end

end
