(* ===== verification/Syncer.thy ===== *)
theory Syncer
  imports Anchor_Types Worker_Effects Health_Metrics Store_Spec
begin

text \<open>
  \<open>internal/trustsync/sync.go\<close>: one poll of one anchor type (\<open>sync_type\<close>) and one cycle over the
  configured types (\<open>sync_all\<close>). The state the code touches is the record \<open>world\<close>: the store's
  server, the environment (network, trust service, clock, map iteration order), the readiness state
  with its gauges, the etags in memory, and the observable effects. \<open>Run\<close>, which serialises
  cycles, is in \<open>Sync_Run\<close>.
\<close>

section \<open>Configuration, interfaces, state\<close>

record sync_config =
  sc_poll_interval :: duration
  sc_cache_ttl :: duration
  sc_snapshot_poll_interval :: duration
  sc_types :: "string list"

text \<open>The Go interface \<open>Store\<close>.\<close>

record 's store_iface =
  si_swap :: "swap \<Rightarrow> 's \<Rightarrow> unit result \<times> 's"
  si_refresh :: "string \<Rightarrow> type_freshness \<Rightarrow> duration \<Rightarrow> 's \<Rightarrow> unit result \<times> 's"

definition valkey_iface :: "'s store \<Rightarrow> key_contract \<Rightarrow> codec \<Rightarrow> 's store_iface" where
  "valkey_iface st K C = \<lparr>si_swap = swap_anchor_type st K C, si_refresh = refresh_anchor_type st K C\<rparr>"

text \<open>\<open>sy_order\<close> is the order in which the environment iterates a map with the given keys;
  \<open>sy_normalize\<close> is the library's \<open>NormalizeTerritory\<close>.\<close>

record ('s, 'c) syncer =
  sy_client :: "'c trust_client"
  sy_store :: "'s store_iface"
  sy_cfg :: sync_config
  sy_now :: "'c \<Rightarrow> gotime \<times> 'c"
  sy_order :: "'c \<Rightarrow> string list \<Rightarrow> string list"
  sy_normalize :: "string \<Rightarrow> string"

record ('s, 'c) world =
  wd_store :: 's
  wd_env :: 'c
  wd_health :: health_state
  wd_reg :: registry
  wd_etags :: "anchor_type \<Rightarrow> string option"
  wd_obs :: obs

definition etag :: "anchor_type \<Rightarrow> ('s, 'c) world \<Rightarrow> string" where
  "etag t w = (case wd_etags w t of None \<Rightarrow> [] | Some e \<Rightarrow> e)"

definition set_etag :: "anchor_type \<Rightarrow> string \<Rightarrow> ('s, 'c) world \<Rightarrow> ('s, 'c) world" where
  "set_etag t e w = w\<lparr>wd_etags := (wd_etags w)(t \<mapsto> e)\<rparr>"

definition read_clock :: "('s, 'c) syncer \<Rightarrow> ('s, 'c) world \<Rightarrow> gotime \<times> ('s, 'c) world" where
  "read_clock S w = (let (t, c) = sy_now S (wd_env w) in (t, w\<lparr>wd_env := c\<rparr>))"

definition w_metric :: "metric_event \<Rightarrow> ('s, 'c) world \<Rightarrow> ('s, 'c) world" where
  "w_metric m w = w\<lparr>wd_obs := add_metric m (wd_obs w)\<rparr>"

definition w_log :: "log_level \<Rightarrow> string \<Rightarrow> (string \<times> log_value) list \<Rightarrow> ('s, 'c) world \<Rightarrow> ('s, 'c) world" where
  "w_log l msg fs w = w\<lparr>wd_obs := add_log l msg fs (wd_obs w)\<rparr>"

definition w_set_freshness :: "string \<Rightarrow> type_freshness \<Rightarrow> ('s, 'c) world \<Rightarrow> ('s, 'c) world" where
  "w_set_freshness key_type fr w =
     (let (h, rg) = set_type_freshness key_type (fr_snapshot_id fr) (fr_fetched_at fr) (fr_valid_until fr)
                      (fr_upstream_stale fr) (wd_health w, wd_reg w)
      in w\<lparr>wd_health := h, wd_reg := rg\<rparr>)"

section \<open>Grouping by territory\<close>

definition cached_of :: "(string \<Rightarrow> string) \<Rightarrow> trust_anchor \<Rightarrow> cached_anchor" where
  "cached_of nrm a =
     \<lparr>ca_cert_der = (case ta_cert a of Some der \<Rightarrow> der | None \<Rightarrow> []),
      ca_territory = nrm (ta_country a), ca_status = ta_status a, ca_valid_until = ta_valid_until a,
      ca_tl_sequence = ta_tl_sequence a, ca_use_cases = ta_use_cases a\<rparr>"

text \<open>\<open>byTerritory[k] = append(byTerritory[k], x)\<close> on the map as an association list.\<close>

fun append_at :: "string \<Rightarrow> 'a \<Rightarrow> (string \<times> 'a list) list \<Rightarrow> (string \<times> 'a list) list" where
  "append_at k x [] = [(k, [x])]"
| "append_at k x ((k', xs) # m) = (if k' = k then (k', xs @ [x]) # m else (k', xs) # append_at k x m)"

fun by_territory :: "(string \<Rightarrow> string) \<Rightarrow> (string \<times> cached_anchor list) list \<Rightarrow> trust_anchor list
    \<Rightarrow> (string \<times> cached_anchor list) list" where
  "by_territory nrm m [] = m"
| "by_territory nrm m (a # as) = by_territory nrm (append_at (nrm (ta_country a)) (cached_of nrm a) m) as"

definition entries_by_territory ::
  "(string \<Rightarrow> string) \<Rightarrow> (string list \<Rightarrow> string list) \<Rightarrow> string \<Rightarrow> anchor_set \<Rightarrow> gotime \<Rightarrow> gotime
   \<Rightarrow> anchor_set_entry list" where
  "entries_by_territory nrm order key_type aset fetched valid =
     (let m = by_territory nrm [] (as_anchors aset)
      in map (\<lambda>t. \<lparr>en_snapshot_id = as_snapshot aset, en_type = key_type, en_territory = t,
                   en_fetched_at = fetched, en_valid_until = valid, en_upstream_stale = as_stale aset,
                   en_anchors = (case map_of m t of Some as \<Rightarrow> as | None \<Rightarrow> [])\<rparr>)
           (order (map fst m)))"

section \<open>One poll of one type\<close>

definition sync_labels :: "string \<Rightarrow> string \<Rightarrow> (string \<times> string) list" where
  "sync_labels key_type v = [(''type'', key_type), outcome v]"

definition count_sync :: "string \<Rightarrow> string \<Rightarrow> ('s, 'c) world \<Rightarrow> ('s, 'c) world" where
  "count_sync key_type v = w_metric (IncCounter ''trust_cache_sync_total'' (sync_labels key_type v))"

definition sync_not_modified ::
  "('s, 'c) syncer \<Rightarrow> anchor_type \<Rightarrow> string \<Rightarrow> gotime \<Rightarrow> ('s, 'c) world \<Rightarrow> unit result \<times> ('s, 'c) world" where
  "sync_not_modified S t key_type now w =
     (let ttl = sc_cache_ttl (sy_cfg S);
          fr = \<lparr>fr_snapshot_id = etag t w, fr_fetched_at = now, fr_valid_until = time_add now ttl,
                fr_upstream_stale = False\<rparr>;
          (r, s) = si_refresh (sy_store S) key_type fr ttl (wd_store w);
          w1 = w\<lparr>wd_store := s\<rparr>
      in case r of
           Inl e \<Rightarrow> (Inl e, count_sync key_type ''error'' w1)
         | Inr _ \<Rightarrow> (Inr (), count_sync key_type ''not_modified'' (w_set_freshness key_type fr w1)))"

definition sync_updated ::
  "('s, 'c) syncer \<Rightarrow> anchor_type \<Rightarrow> string \<Rightarrow> anchor_set \<Rightarrow> gotime \<Rightarrow> ('s, 'c) world
   \<Rightarrow> unit result \<times> ('s, 'c) world" where
  "sync_updated S t key_type aset now w =
     (let ttl = sc_cache_ttl (sy_cfg S);
          fr = \<lparr>fr_snapshot_id = as_snapshot aset, fr_fetched_at = now, fr_valid_until = time_add now ttl,
                fr_upstream_stale = as_stale aset\<rparr>;
          entries = entries_by_territory (sy_normalize S) (sy_order S (wd_env w)) key_type aset now
                      (time_add now ttl);
          sw = \<lparr>sw_key_type = key_type, sw_etag = as_snapshot aset, sw_entries = entries,
                sw_freshness = fr, sw_ttl = ttl\<rparr>;
          (r, s) = si_swap (sy_store S) sw (wd_store w);
          w1 = w\<lparr>wd_store := s\<rparr>
      in case r of
           Inl e \<Rightarrow> (Inl e, count_sync key_type ''error'' w1)
         | Inr _ \<Rightarrow>
             (Inr (),
              w_log LInfo ''anchor set materialized''
                [(''anchor_type'', LvStr key_type), (''snapshot'', LvStr (as_snapshot aset)),
                 (''territories'', LvInt (int (length entries))), (''upstream_stale'', LvBool (as_stale aset))]
                (count_sync key_type ''updated''
                  (w_set_freshness key_type fr (set_etag t (as_snapshot aset) w1)))))"

definition call_anchors ::
  "('s, 'c) syncer \<Rightarrow> anchor_type \<Rightarrow> ('s, 'c) world \<Rightarrow> (anchor_set \<times> bool) result \<times> ('s, 'c) world" where
  "call_anchors S t w =
     (let (r, c) = tc_anchors (sy_client S) t [] (etag t w) (wd_env w) in (r, w\<lparr>wd_env := c\<rparr>))"

definition sync_type ::
  "('s, 'c) syncer \<Rightarrow> anchor_type \<Rightarrow> ('s, 'c) world \<Rightarrow> unit result \<times> ('s, 'c) world" where
  "sync_type S t w =
     (case wire_type t of
        Inl e \<Rightarrow> (Inl e, w)
      | Inr key_type \<Rightarrow>
          (let (start, w1) = read_clock S w;
               (resp, w2) = call_anchors S t w1;
               (stop, w3) = read_clock S w2;
               w4 = w_metric (ObserveSeconds ''trust_cache_sync_duration_seconds'' [(''type'', key_type)]
                      (time_sub stop start)) w3
           in case resp of
                Inl e \<Rightarrow> (Inl (ErrWrap (''trustsync: anchors '' @ key_type @ '': '') e),
                          count_sync key_type ''error'' w4)
              | Inr (aset, modified) \<Rightarrow>
                  (let (now, w5) = read_clock S w4
                   in if \<not> modified then sync_not_modified S t key_type now w5
                      else sync_updated S t key_type aset now w5)))"

section \<open>One cycle\<close>

fun sync_loop :: "('s, 'c) syncer \<Rightarrow> anchor_type list \<Rightarrow> ('s, 'c) world \<Rightarrow> ('s, 'c) world" where
  "sync_loop S [] w = w"
| "sync_loop S (t # ts) w =
     (case sync_type S t w of
        (Inr _, w1) \<Rightarrow> sync_loop S ts w1
      | (Inl e, w1) \<Rightarrow>
          sync_loop S ts (w_log LError ''anchor sync failed''
            [(''anchor_type'', LvStr (type_string t)), (''error'', LvErr e)] w1))"

definition sync_all :: "('s, 'c) syncer \<Rightarrow> ('s, 'c) world \<Rightarrow> ('s, 'c) world" where
  "sync_all S w =
     (case parse_types (sc_types (sy_cfg S)) of
        Inl e \<Rightarrow> w_log LError ''invalid anchor type configuration'' [(''error'', LvErr e)] w
      | Inr ts \<Rightarrow> sync_loop S ts w)"

section \<open>Field access\<close>

lemma world_simps [simp]:
  "wd_store (w_metric m w) = wd_store w" "wd_env (w_metric m w) = wd_env w"
  "wd_health (w_metric m w) = wd_health w" "wd_reg (w_metric m w) = wd_reg w"
  "wd_etags (w_metric m w) = wd_etags w" "wd_obs (w_metric m w) = add_metric m (wd_obs w)"
  "wd_store (w_log l s fs w) = wd_store w" "wd_env (w_log l s fs w) = wd_env w"
  "wd_health (w_log l s fs w) = wd_health w" "wd_reg (w_log l s fs w) = wd_reg w"
  "wd_etags (w_log l s fs w) = wd_etags w" "wd_obs (w_log l s fs w) = add_log l s fs (wd_obs w)"
  "wd_store (set_etag t e w) = wd_store w" "wd_env (set_etag t e w) = wd_env w"
  "wd_health (set_etag t e w) = wd_health w" "wd_reg (set_etag t e w) = wd_reg w"
  "wd_etags (set_etag t e w) = (wd_etags w)(t \<mapsto> e)" "wd_obs (set_etag t e w) = wd_obs w"
  "wd_store (w_set_freshness k fr w) = wd_store w" "wd_env (w_set_freshness k fr w) = wd_env w"
  "wd_etags (w_set_freshness k fr w) = wd_etags w" "wd_obs (w_set_freshness k fr w) = wd_obs w"
  "wd_health (w_set_freshness k fr w) =
     record_freshness k (fr_snapshot_id fr) (fr_fetched_at fr) (fr_valid_until fr) (fr_upstream_stale fr) (wd_health w)"
  "wd_reg (w_set_freshness k fr w) = register_type_gauge k (wd_reg w)"
  by (simp_all add: w_metric_def w_log_def set_etag_def w_set_freshness_def set_type_freshness_def)

lemma count_sync_simps [simp]:
  "wd_store (count_sync k v w) = wd_store w" "wd_env (count_sync k v w) = wd_env w"
  "wd_health (count_sync k v w) = wd_health w" "wd_reg (count_sync k v w) = wd_reg w"
  "wd_etags (count_sync k v w) = wd_etags w"
  "wd_obs (count_sync k v w) = add_metric (IncCounter ''trust_cache_sync_total'' (sync_labels k v)) (wd_obs w)"
  by (simp_all add: count_sync_def)

lemma etag_simps [simp]:
  "etag t (w_metric m w) = etag t w" "etag t (w\<lparr>wd_env := c\<rparr>) = etag t w" "etag t (w\<lparr>wd_store := s\<rparr>) = etag t w"
  by (simp_all add: etag_def)

text \<open>Reading the clock and calling the client change the environment only.\<close>

lemma read_clock_simps [simp]: "read_clock S w = (fst (sy_now S (wd_env w)), w\<lparr>wd_env := snd (sy_now S (wd_env w))\<rparr>)"
  by (simp add: read_clock_def split: prod.splits)

lemma call_anchors_simps [simp]:
  "call_anchors S t w = (fst (tc_anchors (sy_client S) t [] (etag t w) (wd_env w)),
     w\<lparr>wd_env := snd (tc_anchors (sy_client S) t [] (etag t w) (wd_env w))\<rparr>)"
  by (simp add: call_anchors_def split: prod.splits)

end
