(* ===== verification/Ref_Instances.thy ===== *)
theory Ref_Instances
  imports Anchor_Types Store_Spec
begin

text \<open>
  Concrete instances of the parameters that stand for library code, so that the witnesses can
  discharge the hypotheses on them: the key contract as the README's table writes it
  (\<open>readme_keys\<close>, over any hash for status-list URIs), and a small injective text codec
  (\<open>ref_codec\<close>: a sequence of quoted strings, nested where a field is itself a sequence).
  Nothing in the model uses them.
\<close>

section \<open>Sequences of quoted strings\<close>

fun quote_char :: "char \<Rightarrow> string" where
  "quote_char c = (if c = CHR 0x22 \<or> c = CHR 0x5C then [CHR 0x5C, c] else [c])"

definition quote_str :: "string \<Rightarrow> string" where
  "quote_str s = CHR 0x22 # concat (map quote_char s) @ [CHR 0x22]"

definition enc_strs :: "string list \<Rightarrow> string" where
  "enc_strs xs = concat (map quote_str xs)"

fun read_str :: "string \<Rightarrow> (string \<times> string) option" where
  "read_str [] = None"
| "read_str (c # cs) =
     (if c = CHR 0x22 then Some ([], cs)
      else if c = CHR 0x5C
        then (case cs of [] \<Rightarrow> None | d # ds \<Rightarrow> map_option (\<lambda>(x, r). (d # x, r)) (read_str ds))
      else map_option (\<lambda>(x, r). (c # x, r)) (read_str cs))"

lemma read_str_length: "read_str s = Some (x, r) \<Longrightarrow> length r < length s"
  by (induction s arbitrary: x r rule: read_str.induct) (fastforce split: if_splits list.splits)+

function dec_strs :: "string \<Rightarrow> string list option" where
  "dec_strs s =
     (case s of
        [] \<Rightarrow> Some []
      | c # cs \<Rightarrow>
          (case read_str cs of None \<Rightarrow> None | Some (x, r) \<Rightarrow> map_option (\<lambda>xs. x # xs) (dec_strs r)))"
  by pat_completeness auto
termination by (relation "measure length") (auto dest!: read_str_length)

declare dec_strs.simps [simp del]

lemma read_str_quote: "read_str (concat (map quote_char x) @ CHR 0x22 # r) = Some (x, r)"
  by (induction x) auto

lemma dec_enc_strs [simp]: "dec_strs (enc_strs xs) = Some xs"
proof (induction xs)
  case Nil
  show ?case by (simp add: enc_strs_def dec_strs.simps)
next
  case (Cons x xs)
  have "enc_strs (x # xs) = CHR 0x22 # concat (map quote_char x) @ CHR 0x22 # enc_strs xs"
    by (simp add: enc_strs_def quote_str_def)
  with Cons show ?case by (subst dec_strs.simps) (simp add: read_str_quote)
qed

section \<open>Numbers\<close>

definition undigits :: "string \<Rightarrow> nat" where
  "undigits s = foldl (\<lambda>a c. 10 * a + (of_char c - 48)) 0 s"

lemma undigits_digits [simp]: "undigits (digits n) = n"
proof (induction n rule: digits.induct)
  case (1 n)
  have d: "(of_char (char_of (48 + m) :: char) :: nat) - 48 = m" if "m < 10" for m
    using that by (simp add: of_char_of)
  show ?case
  proof (cases "n < 10")
    case True
    then show ?thesis by (subst digits.simps) (simp add: undigits_def d)
  next
    case False
    with 1 have "foldl (\<lambda>a c. 10 * a + (of_char c - 48)) 0 (digits (n div 10)) = n div 10"
      by (simp add: undigits_def)
    with False show ?thesis by (subst digits.simps) (simp add: undigits_def d)
  qed
qed

definition enc_int :: "int \<Rightarrow> string" where
  "enc_int n = (if n < 0 then CHR ''-'' # digits (nat (- n)) else CHR ''+'' # digits (nat n))"

definition dec_int :: "string \<Rightarrow> int" where
  "dec_int s = (case s of [] \<Rightarrow> 0 | c # cs \<Rightarrow> if c = CHR ''-'' then - int (undigits cs) else int (undigits cs))"

lemma dec_enc_int [simp]: "dec_int (enc_int n) = n"
  by (simp add: dec_int_def enc_int_def)

definition enc_bool :: "bool \<Rightarrow> string" where
  "enc_bool b = (if b then ''t'' else ''f'')"

definition dec_bool :: "string \<Rightarrow> bool" where
  "dec_bool s \<longleftrightarrow> s = ''t''"

lemma dec_enc_bool [simp]: "dec_bool (enc_bool b) = b"
  by (simp add: dec_bool_def enc_bool_def)

section \<open>The codec\<close>

definition enc_anchor :: "cached_anchor \<Rightarrow> string" where
  "enc_anchor a = enc_strs
     [ca_cert_der a, ca_territory a, ca_status a, enc_int (sec (ca_valid_until a)),
      enc_int (nsec (ca_valid_until a)), enc_int (ca_tl_sequence a), enc_strs (ca_use_cases a)]"

definition dec_anchor :: "string \<Rightarrow> cached_anchor option" where
  "dec_anchor s =
     (case dec_strs s of
        Some [der, terr, status, vs, vn, sq, uses] \<Rightarrow>
          map_option (\<lambda>us. \<lparr>ca_cert_der = der, ca_territory = terr, ca_status = status,
            ca_valid_until = \<lparr>sec = dec_int vs, nsec = dec_int vn\<rparr>, ca_tl_sequence = dec_int sq,
            ca_use_cases = us\<rparr>) (dec_strs uses)
      | _ \<Rightarrow> None)"

lemma dec_enc_anchor [simp]: "dec_anchor (enc_anchor a) = Some a"
  by (simp add: dec_anchor_def enc_anchor_def)

definition ref_enc_entry :: "anchor_set_entry \<Rightarrow> string" where
  "ref_enc_entry e = enc_strs
     ([en_snapshot_id e, en_type e, en_territory e,
       enc_int (sec (en_fetched_at e)), enc_int (nsec (en_fetched_at e)),
       enc_int (sec (en_valid_until e)), enc_int (nsec (en_valid_until e)),
       enc_bool (en_upstream_stale e)] @ map enc_anchor (en_anchors e))"

fun all_some :: "'a option list \<Rightarrow> 'a list option" where
  "all_some [] = Some []"
| "all_some (None # xs) = None"
| "all_some (Some x # xs) = map_option (\<lambda>ys. x # ys) (all_some xs)"

definition ref_dec_entry :: "string \<Rightarrow> anchor_set_entry option" where
  "ref_dec_entry s =
     (case dec_strs s of
        Some (snap # ty # terr # fs # fn # vs # vn # st # ancs) \<Rightarrow>
          map_option (\<lambda>as. \<lparr>en_snapshot_id = snap, en_type = ty, en_territory = terr,
            en_fetched_at = \<lparr>sec = dec_int fs, nsec = dec_int fn\<rparr>,
            en_valid_until = \<lparr>sec = dec_int vs, nsec = dec_int vn\<rparr>,
            en_upstream_stale = dec_bool st, en_anchors = as\<rparr>) (all_some (map dec_anchor ancs))
      | _ \<Rightarrow> None)"

lemma all_some_anchors [simp]: "all_some (map (dec_anchor \<circ> enc_anchor) as) = Some as"
  by (induction as) auto

lemma ref_dec_enc_entry: "ref_dec_entry (ref_enc_entry e) = Some e"
  by (simp add: ref_dec_entry_def ref_enc_entry_def)

definition ref_enc_freshness :: "type_freshness \<Rightarrow> string" where
  "ref_enc_freshness f = enc_strs
     [fr_snapshot_id f, enc_int (sec (fr_fetched_at f)), enc_int (nsec (fr_fetched_at f)),
      enc_int (sec (fr_valid_until f)), enc_int (nsec (fr_valid_until f)), enc_bool (fr_upstream_stale f)]"

definition ref_dec_freshness :: "string \<Rightarrow> type_freshness option" where
  "ref_dec_freshness s =
     (case dec_strs s of
        Some [snap, fs, fn, vs, vn, st] \<Rightarrow>
          Some \<lparr>fr_snapshot_id = snap, fr_fetched_at = \<lparr>sec = dec_int fs, nsec = dec_int fn\<rparr>,
            fr_valid_until = \<lparr>sec = dec_int vs, nsec = dec_int vn\<rparr>, fr_upstream_stale = dec_bool st\<rparr>
      | _ \<Rightarrow> None)"

lemma ref_dec_enc_freshness: "ref_dec_freshness (ref_enc_freshness f) = Some f"
  by (simp add: ref_dec_freshness_def ref_enc_freshness_def)

definition decoded :: "'a option \<Rightarrow> 'a result" where
  "decoded x = (case x of None \<Rightarrow> Inl (ErrMsg ''invalid text'') | Some y \<Rightarrow> Inr y)"

definition ref_codec :: codec where
  "ref_codec =
     \<lparr>enc_entry = (\<lambda>e. Inr (ref_enc_entry e)), dec_entry = (\<lambda>b. decoded (ref_dec_entry b)),
      enc_index = (\<lambda>ts. Inr (enc_strs ts)), dec_index = (\<lambda>b. decoded (dec_strs b)),
      enc_freshness = (\<lambda>f. Inr (ref_enc_freshness f)), dec_freshness = (\<lambda>b. decoded (ref_dec_freshness b)),
      enc_health = (\<lambda>h. Inr (enc_strs [sh_snapshot_id h, enc_int (sh_lotl_sequence h),
        enc_bool (sh_upstream_stale h), enc_bool (sh_pending_bootstrap h)]))\<rparr>"

interpretation ref_codec: cache_codec ref_codec "\<lambda>_. True" "\<lambda>_. True" "\<lambda>_. True"
  by unfold_locales
    (auto simp: ref_codec_def decoded_def ref_dec_enc_entry ref_dec_enc_freshness)

section \<open>The keys of the README\<close>

definition upper_char :: "char \<Rightarrow> char" where
  "upper_char c = (let n = of_char c :: nat in if 97 \<le> n \<and> n \<le> 122 then char_of (n - 32) else c)"

definition readme_keys :: "(string \<Rightarrow> string) \<Rightarrow> key_contract" where
  "readme_keys hash =
     \<lparr>anchor_set_key = (\<lambda>t x. ''trust:anchors:'' @ t @ '':'' @ x),
      territory_index_key = (\<lambda>t. ''trust:anchors:territories:'' @ t),
      etag_key = (\<lambda>t. ''trust:anchors:etag:'' @ t),
      freshness_key = (\<lambda>t. ''trust:freshness:'' @ t),
      status_list_key = (\<lambda>u. ''trust:statuslist:'' @ hash u),
      snapshot_health_key = ''trust:freshness:snapshot'',
      status_refs_key = ''trust:statuslist:refs'',
      normalize_territory = (\<lambda>c. if c = [] then ''EU'' else map upper_char c)\<rparr>"

lemma colon_split: "CHR '':'' \<notin> set a \<Longrightarrow> CHR '':'' \<notin> set b \<Longrightarrow>
    a @ CHR '':'' # x = b @ CHR '':'' # y \<longleftrightarrow> a = b \<and> x = y"
proof (induction a arbitrary: b)
  case Nil
  then show ?case by (cases b) auto
next
  case (Cons c a)
  then show ?case by (cases b) auto
qed

lemma wire_names_plain:
  "t \<in> set wire_names \<Longrightarrow> CHR '':'' \<notin> set t \<and> t \<noteq> ''territories'' \<and> t \<noteq> ''etag''"
  by (auto simp: wire_names_def type_table_def)

interpretation readme: trust_keys "readme_keys hash" "set wire_names"
proof unfold_locales
  fix t t' x y
  assume w: "t \<in> set wire_names" "t' \<in> set wire_names"
  note plain = wire_names_plain [OF w(1)] wire_names_plain [OF w(2)]
  show "anchor_set_key (readme_keys hash) t x = anchor_set_key (readme_keys hash) t' y \<longleftrightarrow> t = t' \<and> x = y"
    using plain by (simp add: readme_keys_def colon_split)
  have "t @ CHR '':'' # x = ''territories'' @ CHR '':'' # t' \<longleftrightarrow> t = ''territories'' \<and> x = t'"
    using plain by (intro colon_split) auto
  then show "anchor_set_key (readme_keys hash) t x \<noteq> territory_index_key (readme_keys hash) t'"
    using plain by (simp add: readme_keys_def)
  have "t @ CHR '':'' # x = ''etag'' @ CHR '':'' # t' \<longleftrightarrow> t = ''etag'' \<and> x = t'"
    using plain by (intro colon_split) auto
  then show "anchor_set_key (readme_keys hash) t x \<noteq> etag_key (readme_keys hash) t'"
    using plain by (simp add: readme_keys_def)
qed (auto simp: readme_keys_def)

text \<open>A store on the reference server, with a prefix.\<close>

definition ref_store :: "refsrv store" where
  "ref_store = \<lparr>st_client = ref_drv, st_prefix = ''verifierdev:''\<rparr>"

definition ref_keys :: key_contract where
  "ref_keys = readme_keys (\<lambda>u. rev u)"

interpretation ref_store: valkey_store ref_store rs_ks ref_ex_ms ref_keys "set wire_names" ref_codec
    "\<lambda>_. True" "\<lambda>_. True" "\<lambda>_. True"
proof -
  have "valkey (st_client ref_store) rs_ks ref_ex_ms"
    by (simp add: ref_store_def ref.valkey_axioms)
  moreover have "trust_keys ref_keys (set wire_names)"
    by (simp add: ref_keys_def readme.trust_keys_axioms)
  ultimately show "valkey_store ref_store rs_ks ref_ex_ms ref_keys (set wire_names) ref_codec
      (\<lambda>_. True) (\<lambda>_. True) (\<lambda>_. True)"
    by (intro valkey_store.intro ref_codec.cache_codec_axioms)
qed

end
