(* ===== verification/Store_Properties.thy ===== *)
theory Store_Properties
  imports Ref_Instances
begin

text \<open>
  The properties of \<open>internal/valkeystore\<close>, over any driver that behaves as documented, with
  their witnesses on the reference server.
\<close>

section \<open>Swap and refresh implement the abstract operations\<close>

text \<open>What the syncer guarantees of a swap: a known type, a TTL of at least a second, one entry
  per territory, representable values.\<close>

definition swap_wf ::
  "string set \<Rightarrow> (anchor_set_entry \<Rightarrow> bool) \<Rightarrow> (string list \<Rightarrow> bool) \<Rightarrow> (type_freshness \<Rightarrow> bool) \<Rightarrow> swap \<Rightarrow> bool" where
  "swap_wf wire wf_entry wf_index wf_freshness sw \<longleftrightarrow>
     sw_key_type sw \<in> wire \<and> second \<le> sw_ttl sw \<and> distinct (map en_territory (sw_entries sw)) \<and>
     list_all wf_entry (sw_entries sw) \<and> wf_index (sort (map en_territory (sw_entries sw))) \<and>
     wf_freshness (sw_freshness sw)"

context valkey_store
begin

lemma swap_spec:
  assumes wf: "swap_wf wire wf_entry wf_index wf_freshness sw"
    and cov: "index_covers K C (st_prefix st) (view s) (sw_key_type sw)"
    and run: "swap_anchor_type st K C sw s = (r, s')"
  shows "((r = Inr () \<and> abs_type K C (st_prefix st) (view s') (sw_key_type sw) = spec_swap sw) \<or>
      (\<not> is_ok r \<and> abs_type K C (st_prefix st) (view s') (sw_key_type sw)
         \<in> {abs_type K C (st_prefix st) (view s) (sw_key_type sw), spec_swap sw})) \<and>
    index_covers K C (st_prefix st) (view s') (sw_key_type sw)"
proof -
  note w = wf [unfolded swap_wf_def list_all_iff]
  from w have wire: "sw_key_type sw \<in> wire" and ttl: "second \<le> sw_ttl sw" by simp_all
  show ?thesis
  proof (cases rule: swap_run [OF wire ttl run])
    case 1
    with cov show ?thesis by simp
  next
    case (2 prev sets idx fr)
    have "abs_type K C (st_prefix st) (fold (cmd_effect ex_ms) (swap_cmds st K sw prev sets idx fr) (view s))
        (sw_key_type sw) = spec_swap sw \<and>
      index_covers K C (st_prefix st) (fold (cmd_effect ex_ms) (swap_cmds st K sw prev sets idx fr) (view s))
        (sw_key_type sw)"
      using w 2 cov by (intro swap_batch_abs) simp_all
    with 2(5) cov show ?thesis by auto
  qed
qed

lemma swap_frame:
  assumes "sw_key_type sw \<in> wire" "second \<le> sw_ttl sw" "swap_anchor_type st K C sw s = (r, s')"
    and t: "t \<in> wire" "t \<noteq> sw_key_type sw"
  shows "abs_type K C (st_prefix st) (view s') t = abs_type K C (st_prefix st) (view s) t \<and>
    index_covers K C (st_prefix st) (view s') t = index_covers K C (st_prefix st) (view s) t"
proof (cases rule: swap_run [OF assms(1-3)])
  case 1
  then show ?thesis by simp
next
  case (2 prev sets idx fr)
  from swap_batch_other [OF 2(2) assms(1) t] 2(5) show ?thesis by auto
qed

lemma refresh_spec:
  assumes wire: "t \<in> wire" and ttl: "second \<le> ttl" and wf: "wf_freshness f"
    and cov: "index_covers K C (st_prefix st) (view s) t"
    and run: "refresh_anchor_type st K C t f ttl s = (r, s')"
  shows "((r = Inr () \<and> abs_type K C (st_prefix st) (view s') t =
        spec_refresh f (abs_type K C (st_prefix st) (view s) t)) \<or>
      (\<not> is_ok r \<and> abs_type K C (st_prefix st) (view s') t
         \<in> {abs_type K C (st_prefix st) (view s) t, spec_refresh f (abs_type K C (st_prefix st) (view s) t)})) \<and>
    index_covers K C (st_prefix st) (view s') t"
proof (cases rule: refresh_run [OF wire ttl run])
  case 1
  with cov show ?thesis by simp
next
  case (2 prev m fr)
  from refresh_batch_abs [OF wire 2(4) wf 2(1) cov 2(2,3)] 2(5) cov show ?thesis by auto
qed

lemma refresh_frame:
  assumes "t \<in> wire" "second \<le> ttl" "refresh_anchor_type st K C t f ttl s = (r, s')"
    and t: "t' \<in> wire" "t' \<noteq> t"
  shows "abs_type K C (st_prefix st) (view s') t' = abs_type K C (st_prefix st) (view s) t' \<and>
    index_covers K C (st_prefix st) (view s') t' = index_covers K C (st_prefix st) (view s) t'"
proof (cases rule: refresh_run [OF assms(1-3)])
  case 1
  then show ?thesis by simp
next
  case (2 prev m fr)
  from refresh_batch_other [OF assms(1) t] 2(5) show ?thesis by auto
qed

end

text \<open>
  C3. \<open>SwapAnchorType\<close> is the atomic per-type replacement. When it returns no error, a reader of
  the type sees exactly the new entries (every vanished territory is gone), the new etag and the
  new freshness; when it returns an error, the reader sees the whole old or the whole new state,
  never a mixture. The territory index still covers the entries afterwards, and no other type
  is touched.
\<close>

theorem swap_refines_replacement:
  assumes "valkey_store st view ex_ms K wire C wf_entry wf_index wf_freshness"
    and "swap_wf wire wf_entry wf_index wf_freshness sw"
    and "index_covers K C (st_prefix st) (view s) (sw_key_type sw)"
    and "swap_anchor_type st K C sw s = (r, s')"
  shows "((r = Inr () \<and> abs_type K C (st_prefix st) (view s') (sw_key_type sw) = spec_swap sw) \<or>
      (\<not> is_ok r \<and> abs_type K C (st_prefix st) (view s') (sw_key_type sw)
         \<in> {abs_type K C (st_prefix st) (view s) (sw_key_type sw), spec_swap sw})) \<and>
    index_covers K C (st_prefix st) (view s') (sw_key_type sw) \<and>
    (\<forall>t \<in> wire - {sw_key_type sw}.
       abs_type K C (st_prefix st) (view s') t = abs_type K C (st_prefix st) (view s) t)"
proof -
  from assms(2) have w: "sw_key_type sw \<in> wire" "second \<le> sw_ttl sw" by (simp_all add: swap_wf_def)
  note frame = valkey_store.swap_frame [OF assms(1) w assms(4)]
  from valkey_store.swap_spec [OF assms] frame show ?thesis by blast
qed

text \<open>A swap of two territories into an empty keyspace.\<close>

definition sample_entry :: "string \<Rightarrow> anchor_set_entry" where
  "sample_entry terr =
     \<lparr>en_snapshot_id = ''snap-1'', en_type = ''pid_provider'', en_territory = terr,
      en_fetched_at = time_unix 1783166400, en_valid_until = time_unix 1783169100,
      en_upstream_stale = False,
      en_anchors = [\<lparr>ca_cert_der = ''der'', ca_territory = terr, ca_status = ''granted'',
        ca_valid_until = time_unix 1830297600, ca_tl_sequence = 51, ca_use_cases = []\<rparr>]\<rparr>"

definition sample_freshness :: type_freshness where
  "sample_freshness =
     \<lparr>fr_snapshot_id = ''snap-1'', fr_fetched_at = time_unix 1783166400,
      fr_valid_until = time_unix 1783169100, fr_upstream_stale = False\<rparr>"

definition sample_swap :: swap where
  "sample_swap =
     \<lparr>sw_key_type = ''pid_provider'', sw_etag = ''snap-1'',
      sw_entries = [sample_entry ''LV'', sample_entry ''EE''],
      sw_freshness = sample_freshness, sw_ttl = 45 * minute\<rparr>"

lemma sample_swap_wf: "swap_wf (set wire_names) (\<lambda>_. True) (\<lambda>_. True) (\<lambda>_. True) sample_swap"
  by (simp add: swap_wf_def sample_swap_def sample_entry_def wire_names_def type_table_def minute_def second_def)

lemma ref_srv_covers: "index_covers K C p (rs_ks ref_srv) t"
  by (simp add: index_covers_def index_at_def ref_srv_def empty_ks_def)

lemma ref_get_absent:
  "rs_faults s = [] \<Longrightarrow> ks_val (rs_ks s) (st_key ref_store k) = None \<Longrightarrow> store_get ref_store k s = (Inr None, s)"
  by (simp add: store_get_def do1_def ref_drv_def ref_reply_def ref_apply_def Let_def ref_store_def)

lemma ref_run_txn:
  "list_all cmd_writes cs \<Longrightarrow> rs_faults s = [] \<Longrightarrow>
     run_txn ref_store w cs s = (Inr (), s\<lparr>rs_ks := fold (cmd_effect ref_ex_ms) cs (rs_ks s)\<rparr>)"
  by (simp add: run_txn_def ref_store_def ref_drv_def Let_def ref_run_append ref_run_writes ref_reply_def ref_apply_def
      first_error_append)

lemma sample_swap_ok: "\<exists>s'. swap_anchor_type ref_store ref_keys ref_codec sample_swap ref_srv = (Inr (), s')"
proof -
  have t: "territories ref_store ref_keys ref_codec ''pid_provider'' ref_srv = (Inr [], ref_srv)"
    by (simp add: territories_def ref_get_absent ref_srv_def empty_ks_def)
  have w: "list_all cmd_writes (swap_cmds ref_store ref_keys sample_swap [] sets idx fr)"
    if "list_all cmd_writes sets" for sets idx fr
    using that by (simp add: swap_cmds_def vanished_cmds_def sample_swap_def minute_def second_def)
  show ?thesis
    using t w by (simp add: swap_anchor_type_def sample_swap_def [THEN arg_cong, of sw_key_type]
        sample_swap_def [THEN arg_cong, of sw_entries] sample_swap_def [THEN arg_cong, of sw_ttl]
        ref_codec_def ref_run_txn ref_srv_def minute_def second_def)
qed

theorem swap_refines_replacement_witness:
  "\<exists>s'. swap_anchor_type ref_store ref_keys ref_codec sample_swap ref_srv = (Inr (), s') \<and>
     abs_type ref_keys ref_codec ''verifierdev:'' (rs_ks s') ''pid_provider'' = spec_swap sample_swap"
proof -
  obtain s' where run: "swap_anchor_type ref_store ref_keys ref_codec sample_swap ref_srv = (Inr (), s')"
    using sample_swap_ok by blast
  have "sw_key_type sample_swap = ''pid_provider''" "st_prefix ref_store = ''verifierdev:''"
    by (simp_all add: sample_swap_def ref_store_def)
  with swap_refines_replacement [OF ref_store.valkey_store_axioms sample_swap_wf ref_srv_covers run] run
  show ?thesis by auto
qed

text \<open>
  C6. \<open>RefreshAnchorType\<close> (the 304 path) is the atomic extension of a type's validity: when it
  returns no error, every entry a reader sees is the old one with \<open>ValidUntil\<close> moved to the
  new horizon, the etag is unchanged and the freshness is the new one; no entry appears, vanishes
  or changes its anchors. On an error the reader sees the whole old or the whole new state, and
  no other type is touched.
\<close>

theorem refresh_refines_extension:
  assumes "valkey_store st view ex_ms K wire C wf_entry wf_index wf_freshness"
    and "t \<in> wire" "second \<le> ttl" "wf_freshness f"
    and "index_covers K C (st_prefix st) (view s) t"
    and "refresh_anchor_type st K C t f ttl s = (r, s')"
  shows "((r = Inr () \<and> abs_type K C (st_prefix st) (view s') t =
        spec_refresh f (abs_type K C (st_prefix st) (view s) t)) \<or>
      (\<not> is_ok r \<and> abs_type K C (st_prefix st) (view s') t
         \<in> {abs_type K C (st_prefix st) (view s) t, spec_refresh f (abs_type K C (st_prefix st) (view s) t)})) \<and>
    index_covers K C (st_prefix st) (view s') t \<and>
    (\<forall>u \<in> wire - {t}.
       abs_type K C (st_prefix st) (view s') u = abs_type K C (st_prefix st) (view s) u)"
  using valkey_store.refresh_spec [OF assms] valkey_store.refresh_frame [OF assms(1-3,6)] by blast

text \<open>A refresh of an empty keyspace on the reference server.\<close>

lemma ref_refresh_empty:
  "\<exists>s'. refresh_anchor_type ref_store ref_keys ref_codec ''pid_provider'' sample_freshness (45 * minute) ref_srv
     = (Inr (), s')"
proof -
  have t: "territories ref_store ref_keys ref_codec ''pid_provider'' ref_srv = (Inr [], ref_srv)"
    by (simp add: territories_def ref_get_absent ref_srv_def empty_ks_def)
  then show ?thesis
    by (simp add: refresh_anchor_type_def ref_codec_def refresh_cmds_def ref_run_txn ref_srv_def
        minute_def second_def go_div_def)
qed

lemma pid_provider_wire [simp]: "''pid_provider'' \<in> set wire_names"
  by (simp add: wire_names_def type_table_def)

theorem refresh_refines_extension_witness:
  "\<exists>s'. refresh_anchor_type ref_store ref_keys ref_codec ''pid_provider'' sample_freshness (45 * minute) ref_srv
       = (Inr (), s') \<and>
     abs_type ref_keys ref_codec ''verifierdev:'' (rs_ks s') ''pid_provider'' =
       spec_refresh sample_freshness (abs_type ref_keys ref_codec ''verifierdev:'' (rs_ks ref_srv) ''pid_provider'')"
proof -
  obtain s' where run: "refresh_anchor_type ref_store ref_keys ref_codec ''pid_provider'' sample_freshness
      (45 * minute) ref_srv = (Inr (), s')"
    using ref_refresh_empty by blast
  have "second \<le> 45 * minute" "st_prefix ref_store = ''verifierdev:''"
    by (simp_all add: minute_def second_def ref_store_def)
  with refresh_refines_extension [OF ref_store.valkey_store_axioms pid_provider_wire _ _ ref_srv_covers run] run
  show ?thesis by auto
qed

section \<open>Single keys\<close>

context valkey_store
begin

lemma set_bytes_cases:
  assumes "set_bytes st key v ttl s = (r, s')"
  obtains (rejected) "ttl < second" "\<not> is_ok r" "view s' = view s" "ttl \<le> 0 \<longrightarrow> s' = s"
    | (written) "second \<le> ttl" "r = Inr ()" "view s' = cmd_effect ex_ms (CSetEx (st_key st key) v ttl) (view s)"
    | (failed) "second \<le> ttl" "\<not> is_ok r"
      "view s' = view s \<or> view s' = cmd_effect ex_ms (CSetEx (st_key st key) v ttl) (view s)"
proof (cases "ttl \<le> 0")
  case True
  with assms show ?thesis by (intro rejected) (auto simp: set_bytes_def second_def)
next
  case pos: False
  obtain resp s1 where d: "do1 (st_client st) (CSetEx (st_key st key) v ttl) s = (resp, s1)" by force
  with assms pos have r: "s' = s1" "r = (case resp_error resp of Some e \<Rightarrow>
      Inl (ErrWrap (''valkeystore: set '' @ key @ '': '') e) | None \<Rightarrow> Inr ())"
    by (auto simp: set_bytes_def split: option.splits)
  show ?thesis
  proof (cases "ttl < second")
    case True
    from reject_law [OF d True] r pos True show ?thesis by (intro rejected) auto
  next
    case False
    then have w: "cmd_writes (CSetEx (st_key st key) v ttl)" by simp
    from write_law [OF w d] r False show ?thesis
      by (cases "resp_error resp") (auto intro: written failed)
  qed
qed

lemma get_ttl_spec:
  assumes "get_ttl st key s = (r, s')" "is_ok r"
  shows "view s' = view s \<and> r = Inr (case ks_val (view s) (st_key st key) of
      None \<Rightarrow> (0, False)
    | Some (_, None) \<Rightarrow> (0, True)
    | Some (_, Some ms) \<Rightarrow> if ms = -2 then (0, False) else if ms = -1 then (0, True) else (i64 (ms * millisecond), True))"
proof -
  obtain resp s1 where d: "do1 (st_client st) (CPttl (st_key st key)) s = (resp, s1)" by force
  from read_law [OF _ d] have "view s1 = view s \<and>
    (resp = read_reply (CPttl (st_key st key)) (view s) \<or> (\<exists>e. resp = RErr e \<and> e \<noteq> ValkeyNil))" by simp
  with assms d show ?thesis
    by (auto simp: get_ttl_def split: option.splits)
qed

end

text \<open>
  Every value \<open>SetBytes\<close> (and \<open>SetJSON\<close>) stores expires: a TTL of zero or less is refused
  before the server is called, one below a second is refused by the server, and after a
  success the key holds the value with a positive remaining life of at most the TTL, every other
  key being untouched.
\<close>

lemma set_bytes_expires:
  assumes "valkey_store st view ex_ms K wire C wf_entry wf_index wf_freshness"
    and "set_bytes st key v ttl s = (r, s')"
  shows "(ttl \<le> 0 \<longrightarrow> \<not> is_ok r \<and> s' = s) \<and>
    (ttl < second \<longrightarrow> \<not> is_ok r \<and> view s' = view s) \<and>
    (is_ok r \<longrightarrow> (\<exists>ms. ks_val (view s') (st_key st key) = Some (v, Some ms) \<and> 0 < ms \<and> ms * millisecond \<le> ttl)) \<and>
    (\<forall>k. k \<noteq> st_key st key \<longrightarrow> ks_val (view s') k = ks_val (view s) k)"
proof -
  have b: "0 < ex_ms ttl \<and> ex_ms ttl * millisecond \<le> ttl" if "second \<le> ttl"
    using assms(1) that by (simp add: valkey_store_def valkey_def)
  show ?thesis
    by (rule valkey_store.set_bytes_cases [OF assms]) (use b in \<open>auto simp: second_def\<close>)
qed

lemma set_bytes_expires_instance:
  "\<exists>r s'. set_bytes ref_store ''trust:statuslist:x'' ''body'' (5 * minute) ref_srv = (r, s') \<and> is_ok r \<and>
     (\<exists>ms. ks_val (rs_ks s') ''verifierdev:trust:statuslist:x'' = Some (''body'', Some ms) \<and>
        0 < ms \<and> ms * millisecond \<le> 5 * minute)"
proof -
  obtain r s' where run: "set_bytes ref_store ''trust:statuslist:x'' ''body'' (5 * minute) ref_srv = (r, s')"
    by force
  then have "is_ok r"
    by (auto simp: set_bytes_def do1_def ref_store_def ref_drv_def ref_reply_def ref_srv_def minute_def second_def)
  with set_bytes_expires [OF ref_store.valkey_store_axioms run] run
  show ?thesis by (auto simp: st_key_def ref_store_def)
qed

text \<open>
  \<open>GetTTL\<close> tells an absent key, a key without expiry and a key with a remaining life apart,
  and reports the remaining life exactly (a life that fits an \<open>int64\<close> of nanoseconds).
\<close>

lemma get_ttl_reports:
  assumes "valkey_store st view ex_ms K wire C wf_entry wf_index wf_freshness"
    and "get_ttl st key s = (Inr res, s')"
    and "\<forall>v ms. ks_val (view s) (st_key st key) = Some (v, Some ms) \<longrightarrow> 0 \<le> ms \<and> is_i64 (ms * millisecond)"
  shows "view s' = view s \<and>
    res = (case ks_val (view s) (st_key st key) of
             None \<Rightarrow> (0, False) | Some (_, None) \<Rightarrow> (0, True) | Some (_, Some ms) \<Rightarrow> (ms * millisecond, True))"
  using valkey_store.get_ttl_spec [OF assms(1,2)] assms(3) by (auto split: option.splits)

lemma get_ttl_reports_instance:
  "\<exists>s'. get_ttl ref_store ''trust:statuslist:x'' ref_srv = (Inr (0, False), s') \<and> rs_ks s' = rs_ks ref_srv"
proof -
  obtain s' where run: "get_ttl ref_store ''trust:statuslist:x'' ref_srv = (Inr (0, False), s')"
    by (auto simp: get_ttl_def do1_def ref_store_def ref_drv_def ref_reply_def ref_apply_def ref_srv_def empty_ks_def)
  with get_ttl_reports [OF ref_store.valkey_store_axioms run] show ?thesis
    by (auto simp: ref_srv_def empty_ks_def)
qed

section \<open>Every key expires\<close>

text \<open>
  The store's operations and the passing of time as one step relation on the server's state. The
  TTLs of the operations are at most \<open>T\<close>; between two operations a key of the cache may grow
  older or vanish.
\<close>

definition ages :: "string \<Rightarrow> keyspace \<Rightarrow> keyspace \<Rightarrow> bool" where
  "ages p ks ks' \<longleftrightarrow>
     (\<forall>k. ks_val ks' (p @ k) = None \<or>
        (\<exists>v ms ms'. ks_val ks (p @ k) = Some (v, Some ms) \<and> ks_val ks' (p @ k) = Some (v, Some ms') \<and>
           0 < ms' \<and> ms' \<le> ms))"

inductive store_step ::
  "'s store \<Rightarrow> key_contract \<Rightarrow> codec \<Rightarrow> ('s \<Rightarrow> keyspace) \<Rightarrow> duration \<Rightarrow> 's \<Rightarrow> 's \<Rightarrow> bool"
  for st :: "'s store" and K C and view :: "'s \<Rightarrow> keyspace" and T where
  get: "store_get st k s = (r, s') \<Longrightarrow> store_step st K C view T s s'"
| get_ttl: "get_ttl st k s = (r1, s') \<Longrightarrow> store_step st K C view T s s'"
| set_bytes: "ttl \<le> T \<Longrightarrow> set_bytes st k v ttl s = (r2, s') \<Longrightarrow> store_step st K C view T s s'"
| swap: "second \<le> sw_ttl sw \<Longrightarrow> sw_ttl sw \<le> T \<Longrightarrow>
    swap_anchor_type st K C sw s = (r3, s') \<Longrightarrow> store_step st K C view T s s'"
| refresh: "second \<le> ttl \<Longrightarrow> ttl \<le> T \<Longrightarrow>
    refresh_anchor_type st K C t f ttl s = (r4, s') \<Longrightarrow> store_step st K C view T s s'"
| top: "top_status_refs st K n s = (r5, s') \<Longrightarrow> store_step st K C view T s s'"
| trim: "trim_status_refs st K n s = (r6, s') \<Longrightarrow> store_step st K C view T s s'"
| time: "ages (st_prefix st) (view s) (view s') \<Longrightarrow> store_step st K C view T s s'"

definition expiring :: "string \<Rightarrow> duration \<Rightarrow> keyspace \<Rightarrow> bool" where
  "expiring p T ks \<longleftrightarrow>
     (\<forall>k v e. ks_val ks (p @ k) = Some (v, e) \<longrightarrow> (\<exists>ms. e = Some ms \<and> 0 < ms \<and> ms * millisecond \<le> T))"

text \<open>A command whose own life is positive and at most \<open>T\<close> keeps the invariant.\<close>

fun short_lived :: "(duration \<Rightarrow> int) \<Rightarrow> duration \<Rightarrow> cmd \<Rightarrow> bool" where
  "short_lived x T (CSetEx k v ttl) = (0 < x ttl \<and> x ttl * millisecond \<le> T)"
| "short_lived x T (CExpire k secs) = (0 < secs \<and> secs * second \<le> T)"
| "short_lived x T c = True"

lemma expiring_effect: "short_lived x T c \<Longrightarrow> expiring p T ks \<Longrightarrow> expiring p T (cmd_effect x c ks)"
  by (cases c) (auto simp: expiring_def millisecond_def second_def split: option.splits if_splits)

lemma expiring_fold:
  "list_all (short_lived x T) cs \<Longrightarrow> expiring p T ks \<Longrightarrow> expiring p T (fold (cmd_effect x) cs ks)"
  by (induction cs arbitrary: ks) (auto simp: expiring_effect)

lemma expiring_ages: "ages p ks ks' \<Longrightarrow> expiring p T ks \<Longrightarrow> expiring p T ks'"
  unfolding ages_def expiring_def
proof (intro allI impI)
  fix k v e
  assume a: "\<forall>k. ks_val ks' (p @ k) = None \<or>
        (\<exists>v ms ms'. ks_val ks (p @ k) = Some (v, Some ms) \<and> ks_val ks' (p @ k) = Some (v, Some ms') \<and>
           0 < ms' \<and> ms' \<le> ms)"
    and inv: "\<forall>k v e. ks_val ks (p @ k) = Some (v, e) \<longrightarrow> (\<exists>ms. e = Some ms \<and> 0 < ms \<and> ms * millisecond \<le> T)"
    and k: "ks_val ks' (p @ k) = Some (v, e)"
  from a [rule_format, of k] k obtain ms ms' where m: "ks_val ks (p @ k) = Some (v, Some ms)"
    "e = Some ms'" "0 < ms'" "ms' \<le> ms" by auto
  with inv [rule_format, OF m(1)] have "ms * millisecond \<le> T" by simp
  moreover have "ms' * millisecond \<le> ms * millisecond" using m(4) by (simp add: millisecond_def)
  ultimately show "\<exists>ms. e = Some ms \<and> 0 < ms \<and> ms * millisecond \<le> T" using m by auto
qed

text \<open>A read or a one-command write through the driver.\<close>

context valkey_store
begin

lemma whole_seconds: "second \<le> ttl \<Longrightarrow> ttl \<le> T \<Longrightarrow> 0 < go_div ttl second \<and> go_div ttl second * second \<le> T"
  by (auto simp: go_div_pos second_def)

lemma short_ex: "second \<le> ttl \<Longrightarrow> ttl \<le> T \<Longrightarrow> 0 < ex_ms ttl \<and> ex_ms ttl * millisecond \<le> T"
  using ex_ms_bounds [of ttl] by linarith

lemma swap_expiring:
  assumes "second \<le> sw_ttl sw" "sw_ttl sw \<le> T"
    and sets: "entry_cmds st K C (sw_key_type sw) (sw_ttl sw) (sw_entries sw) = Inr sets"
  shows "list_all (short_lived ex_ms T) (swap_cmds st K sw prev sets idx fr)"
  unfolding list_all_iff
  by (intro ballI, erule swap_cmds_cases [OF sets]) (use short_ex [OF assms(1,2)] in simp_all)

lemma refresh_expiring:
  assumes "second \<le> ttl" "ttl \<le> T"
  shows "list_all (short_lived ex_ms T) (refresh_cmds st K t ttl prev m fr)"
  unfolding list_all_iff
  by (intro ballI, erule refresh_cmds_cases)
    (use short_ex [OF assms] whole_seconds [OF assms] in \<open>simp_all split: option.splits\<close>)

lemma txn_expiring:
  assumes "list_all cmd_writes cs" "list_all (short_lived ex_ms T) cs" "run_txn st what cs s = (r, s')"
    and "expiring p T (view s)"
  shows "expiring p T (view s')"
  using run_txn_spec [OF assms(1,3)] expiring_fold [OF assms(2,4)] assms(4) by auto

lemma swap_step_expiring:
  assumes ttl: "second \<le> sw_ttl sw" "sw_ttl sw \<le> T"
    and run: "swap_anchor_type st K C sw s = (r, s')" and inv: "expiring p T (view s)"
  shows "expiring p T (view s')"
proof -
  obtain q s1 where q: "territories st K C (sw_key_type sw) s = (q, s1)" by force
  from territories_spec [OF q] inv have s1: "expiring p T (view s1)" by simp
  show ?thesis
  proof (cases "s' = s1")
    case True
    with s1 show ?thesis by simp
  next
    case False
    with run q obtain prev idx fr sets where
      sets: "entry_cmds st K C (sw_key_type sw) (sw_ttl sw) (sw_entries sw) = Inr sets"
      and txn: "run_txn st (''valkeystore: swap '' @ sw_key_type sw @ '': '') (swap_cmds st K sw prev sets idx fr) s1
        = (r, s')"
      by (auto simp: swap_anchor_type_def Let_def split: sum.splits)
    from txn_expiring [OF swap_cmds_writes [OF sets ttl(1)] swap_expiring [OF ttl sets] txn s1]
    show ?thesis .
  qed
qed

lemma patch_view: "patch_entries st K C t f ts m s = (r, s') \<Longrightarrow> view s' = view s"
  using patch_entries_spec by blast

lemma refresh_step_expiring:
  assumes ttl: "second \<le> ttl" "ttl \<le> T"
    and run: "refresh_anchor_type st K C t f ttl s = (r, s')" and inv: "expiring p T (view s)"
  shows "expiring p T (view s')"
proof -
  obtain q s1 where q: "territories st K C t s = (q, s1)" by force
  note v1 = territories_spec [OF q]
  show ?thesis
  proof (cases q)
    case (Inl e)
    with run q v1 inv show ?thesis by (auto simp: refresh_anchor_type_def)
  next
    case (Inr prev)
    obtain pq s2 where pq: "patch_entries st K C t f prev Map.empty s1 = (pq, s2)" by force
    with patch_view v1 inv have s2: "expiring p T (view s2)" by metis
    show ?thesis
    proof (cases "s' = s2")
      case True
      with s2 show ?thesis by simp
    next
      case False
      with run q Inr pq obtain m fr where
        "run_txn st (''valkeystore: refresh '' @ t @ '': '') (refresh_cmds st K t ttl prev m fr) s2 = (r, s')"
        by (auto simp: refresh_anchor_type_def split: sum.splits)
      from txn_expiring [OF refresh_cmds_writes [OF ttl(1)] refresh_expiring [OF ttl] this s2]
      show ?thesis .
    qed
  qed
qed

lemma top_view:
  assumes "top_status_refs st K n s = (r, s')" shows "view s' = view s"
proof -
  obtain resp s1 where d: "do1 (st_client st) (CZrevrange (st_key st (status_refs_key K)) 0 (n - 1)) s = (resp, s1)"
    by force
  from read_law [OF _ d] assms d show ?thesis
    by (auto simp: top_status_refs_def split: if_splits sum.splits)
qed

lemma trim_cases:
  assumes "trim_status_refs st K keep s = (r, s')"
  obtains (removed) "r = Inr ()"
      "view s' = cmd_effect ex_ms (CZremrangebyrank (st_key st (status_refs_key K)) 0 (i64 (- keep - 1))) (view s)"
    | (failed) "\<not> is_ok r" "view s' = view s \<or>
      view s' = cmd_effect ex_ms (CZremrangebyrank (st_key st (status_refs_key K)) 0 (i64 (- keep - 1))) (view s)"
proof -
  obtain resp s1 where
    d: "do1 (st_client st) (CZremrangebyrank (st_key st (status_refs_key K)) 0 (i64 (- keep - 1))) s = (resp, s1)"
    by force
  have w: "cmd_writes (CZremrangebyrank (st_key st (status_refs_key K)) 0 (i64 (- keep - 1)))" by simp
  from write_law [OF w d] assms d show ?thesis
    by (cases "resp_error resp") (auto simp: trim_status_refs_def intro: removed failed)
qed

lemma store_step_expiring:
  assumes "store_step st K C view T s s'" "expiring (st_prefix st) T (view s)"
  shows "expiring (st_prefix st) T (view s')"
  using assms
proof cases
  case (get k r)
  with get_spec assms(2) show ?thesis by metis
next
  case (get_ttl k r)
  obtain resp s1 where d: "do1 (st_client st) (CPttl (st_key st k)) s = (resp, s1)" by force
  with get_ttl have "s' = s1" by (auto simp: get_ttl_def split: sum.splits if_splits)
  with read_law [OF _ d] assms(2) show ?thesis by simp
next
  case (set_bytes ttl k v r)
  show ?thesis
    by (rule set_bytes_cases [OF set_bytes(2)])
      (use set_bytes(1) assms(2) short_ex [of ttl T] expiring_effect in \<open>auto simp del: cmd_effect.simps\<close>)
next
  case (trim n r)
  show ?thesis
    by (rule trim_cases [OF trim]) (use assms(2) expiring_effect in \<open>auto simp del: cmd_effect.simps\<close>)
qed (use assms(2) swap_step_expiring refresh_step_expiring top_view expiring_ages in \<open>metis+\<close>)

end

text \<open>Whatever sequence of store operations runs, with failures and with time passing in between.\<close>

lemma store_steps_expiring:
  assumes "valkey_store st view ex_ms K wire C wf_entry wf_index wf_freshness"
    and "(store_step st K C view T)\<^sup>*\<^sup>* s s'"
    and "expiring (st_prefix st) T (view s)"
  shows "expiring (st_prefix st) T (view s')"
  using assms(2,3) by (induction rule: rtranclp_induct) (auto intro: valkey_store.store_step_expiring [OF assms(1)])

section \<open>The set of referenced status lists\<close>

lemma in_range_take: "0 < n \<Longrightarrow> in_range 0 (n - 1) xs = take (nat n) xs"
  by (cases "length xs = 0") (auto simp: in_range_def rank_lo_def rank_hi_def Let_def min_def nat_add_distrib nat_diff_distrib)

lemma out_of_range_keep: "0 \<le> keep \<Longrightarrow> out_of_range 0 (- keep - 1) xs = drop (length xs - nat keep) xs"
  by (auto simp: out_of_range_def rank_lo_def rank_hi_def Let_def min_def nat_diff_distrib)

lemma out_of_range_negative: "keep < 0 \<Longrightarrow> out_of_range 0 (- keep - 1) xs = drop (nat (- keep)) xs"
  by (cases "length xs = 0") (auto simp: out_of_range_def rank_lo_def rank_hi_def Let_def min_def)

lemma take_rev_drop: "n \<le> k \<Longrightarrow> take n (rev (drop (length xs - k) xs)) = take n (rev xs)"
proof -
  assume "n \<le> k"
  then have "length xs - (length xs - k + n) + (length xs - k) = length xs - n" by linarith
  then show ?thesis by (simp add: take_rev)
qed

context valkey_store
begin

lemma trim_spec:
  assumes "trim_status_refs st K keep s = (Inr (), s')" "- (2 ^ 63) < keep" "keep < 2 ^ 63"
  shows "ks_val (view s') = ks_val (view s) \<and>
    ks_zset (view s') = (ks_zset (view s))(st_key st (status_refs_key K) :=
      (let xs = ks_zset (view s) (st_key st (status_refs_key K))
       in if 0 \<le> keep then drop (length xs - nat keep) xs else drop (nat (- keep)) xs))"
proof -
  have "is_i64 (- keep - 1)" using assms(2,3) by (simp add: is_i64_def)
  then have "i64 (- keep - 1) = - keep - 1" by simp
  then show ?thesis
    by (cases rule: trim_cases [OF assms(1)])
      (auto simp: Let_def out_of_range_keep out_of_range_negative)
qed

lemma top_spec:
  assumes "top_status_refs st K n s = (Inr uris, s')"
  shows "view s' = view s \<and> uris = take (nat n) (rev (ks_zset (view s) (st_key st (status_refs_key K))))"
proof (cases "n \<le> 0")
  case True
  with assms show ?thesis by (auto simp: top_status_refs_def)
next
  case False
  obtain resp s1 where d: "do1 (st_client st) (CZrevrange (st_key st (status_refs_key K)) 0 (n - 1)) s = (resp, s1)"
    by force
  from read_law [OF _ d] assms d False show ?thesis
    by (auto simp: top_status_refs_def in_range_take split: sum.splits)
qed

end

text \<open>
  \<open>TrimStatusRefs(keep)\<close> bounds the referenced set to its newest members and
  \<open>TopStatusRefs(n)\<close> lists the newest first: after a trim to a \<open>keep\<close> of at least zero exactly
  the \<open>keep\<close> newest references remain (all of them when they already fit), and a listing of at
  most \<open>keep\<close> of them is what it would have been without the trim.
\<close>

lemma trim_keeps_newest:
  assumes "valkey_store st view ex_ms K wire C wf_entry wf_index wf_freshness"
    and "trim_status_refs st K keep s = (Inr (), s')" "0 \<le> keep" "keep < 2 ^ 63"
    and "top_status_refs st K n s' = (Inr uris, s'')" "n \<le> keep"
  shows "uris = take (nat n) (rev (ks_zset (view s) (st_key st (status_refs_key K)))) \<and>
    ks_zset (view s') (st_key st (status_refs_key K)) =
      drop (length (ks_zset (view s) (st_key st (status_refs_key K))) - nat keep)
        (ks_zset (view s) (st_key st (status_refs_key K)))"
proof -
  have "- (2 ^ 63) < keep" using assms(3) by simp
  with valkey_store.trim_spec [OF assms(1,2)] assms(3,4)
  have zs: "ks_zset (view s') (st_key st (status_refs_key K)) =
      drop (length (ks_zset (view s) (st_key st (status_refs_key K))) - nat keep)
        (ks_zset (view s) (st_key st (status_refs_key K)))"
    by (simp add: Let_def)
  moreover have "nat n \<le> nat keep" using assms(6) by simp
  ultimately show ?thesis
    using valkey_store.top_spec [OF assms(1,5)] by (simp add: take_rev_drop)
qed

text \<open>A server whose set has three references, oldest first.\<close>

definition refs_srv :: refsrv where
  "refs_srv = \<lparr>rs_ks = empty_ks\<lparr>ks_zset := (\<lambda>k. if k = ''verifierdev:trust:statuslist:refs''
     then [''u1'', ''u2'', ''u3''] else [])\<rparr>, rs_faults = []\<rparr>"

lemmas ref_run_simps =
  do1_def ref_store_def ref_drv_def ref_reply_def ref_apply_def st_key_def ref_keys_def readme_keys_def

lemma refs_srv_trim:
  "trim_status_refs ref_store ref_keys k refs_srv = (Inr (), snd (trim_status_refs ref_store ref_keys k refs_srv))"
  by (simp add: trim_status_refs_def ref_run_simps refs_srv_def)

lemma refs_srv_top:
  "\<exists>uris s''. top_status_refs ref_store ref_keys 1 (snd (trim_status_refs ref_store ref_keys 2 refs_srv)) = (Inr uris, s'')"
  by (simp add: trim_status_refs_def top_status_refs_def ref_run_simps refs_srv_def)

lemma trim_keeps_newest_instance:
  "\<exists>s' s''. trim_status_refs ref_store ref_keys 2 refs_srv = (Inr (), s') \<and>
     top_status_refs ref_store ref_keys 1 s' = (Inr [''u3''], s'') \<and>
     ks_zset (rs_ks s') ''verifierdev:trust:statuslist:refs'' = [''u2'', ''u3'']"
proof -
  obtain uris s'' where
    t: "top_status_refs ref_store ref_keys 1 (snd (trim_status_refs ref_store ref_keys 2 refs_srv)) = (Inr uris, s'')"
    using refs_srv_top by blast
  have k: "st_key ref_store (status_refs_key ref_keys) = ''verifierdev:trust:statuslist:refs''"
    by (simp add: ref_run_simps)
  from trim_keeps_newest [OF ref_store.valkey_store_axioms refs_srv_trim _ _ t] refs_srv_trim [of 2] t
  show ?thesis by (auto simp: k refs_srv_def)
qed

text \<open>
  A negative \<open>keep\<close> does not keep nothing, as the comment of \<open>TrimStatusRefs\<close> says: the stop rank
  \<open>-keep-1\<close> is then a rank from the old end, so a successful trim removes just the
  \<open>-keep\<close> oldest references, and a set with more than that many keeps the rest.
\<close>

lemma trim_negative_keeps_rest:
  assumes "valkey_store st view ex_ms K wire C wf_entry wf_index wf_freshness"
    and "trim_status_refs st K keep s = (Inr (), s')" "- (2 ^ 63) < keep" "keep < 0"
    and "nat (- keep) < length (ks_zset (view s) (st_key st (status_refs_key K)))"
  shows "ks_zset (view s') (st_key st (status_refs_key K)) =
      drop (nat (- keep)) (ks_zset (view s) (st_key st (status_refs_key K))) \<and>
    ks_zset (view s') (st_key st (status_refs_key K)) \<noteq> []"
  using valkey_store.trim_spec [OF assms(1-3)] assms(4,5) by (simp add: Let_def)

lemma trim_negative_keeps_rest_instance:
  "\<exists>s'. trim_status_refs ref_store ref_keys (- 1) refs_srv = (Inr (), s') \<and>
     ks_zset (rs_ks s') ''verifierdev:trust:statuslist:refs'' = [''u2'', ''u3'']"
proof -
  have k: "st_key ref_store (status_refs_key ref_keys) = ''verifierdev:trust:statuslist:refs''"
    by (simp add: ref_run_simps)
  from trim_negative_keeps_rest [OF ref_store.valkey_store_axioms refs_srv_trim [of "-1"]] refs_srv_trim [of "-1"]
  show ?thesis by (auto simp: k refs_srv_def)
qed

end
