(* ===== verification/Sync_Spec.thy ===== *)
theory Sync_Spec
  imports Syncer Store_Properties "HOL-Library.Multiset"
begin

text \<open>
  The lemmas on the syncer: what one poll does in each of its outcomes, over any store that keeps
  the contract of the locale \<open>anchor_store\<close> (the Go interface \<open>Store\<close> with the promises of
  \<open>SwapAnchorType\<close> and \<open>RefreshAnchorType\<close>). The Valkey store provides that contract, by the
  sublocale at the end of the first section.
\<close>

section \<open>The contract of the store interface\<close>

locale anchor_store =
  fixes I :: "'s store_iface" and cache :: "'s \<Rightarrow> string \<Rightarrow> type_cache" and covered :: "'s \<Rightarrow> string \<Rightarrow> bool"
    and wire :: "string set" and good_swap :: "swap \<Rightarrow> bool" and good_fresh :: "type_freshness \<Rightarrow> bool"
  assumes swap_law: "good_swap sw \<Longrightarrow> covered s (sw_key_type sw) \<Longrightarrow> si_swap I sw s = (r, s') \<Longrightarrow>
      ((r = Inr () \<and> cache s' (sw_key_type sw) = spec_swap sw) \<or>
       (\<not> is_ok r \<and> cache s' (sw_key_type sw) \<in> {cache s (sw_key_type sw), spec_swap sw})) \<and>
      covered s' (sw_key_type sw)"
    and swap_others: "good_swap sw \<Longrightarrow> si_swap I sw s = (r, s') \<Longrightarrow> t \<in> wire \<Longrightarrow> t \<noteq> sw_key_type sw \<Longrightarrow>
      cache s' t = cache s t \<and> covered s' t = covered s t"
    and refresh_law: "t \<in> wire \<Longrightarrow> second \<le> ttl \<Longrightarrow> good_fresh f \<Longrightarrow> covered s t \<Longrightarrow>
      si_refresh I t f ttl s = (r, s') \<Longrightarrow>
      ((r = Inr () \<and> cache s' t = spec_refresh f (cache s t)) \<or>
       (\<not> is_ok r \<and> cache s' t \<in> {cache s t, spec_refresh f (cache s t)})) \<and> covered s' t"
    and refresh_others: "t \<in> wire \<Longrightarrow> second \<le> ttl \<Longrightarrow> si_refresh I t f ttl s = (r, s') \<Longrightarrow>
      t' \<in> wire \<Longrightarrow> t' \<noteq> t \<Longrightarrow> cache s' t' = cache s t' \<and> covered s' t' = covered s t'"

sublocale valkey_store \<subseteq> anchors: anchor_store "valkey_iface st K C"
    "\<lambda>s. abs_type K C (st_prefix st) (view s)" "\<lambda>s. index_covers K C (st_prefix st) (view s)"
    wire "swap_wf wire wf_entry wf_index wf_freshness" wf_freshness
proof unfold_locales
  fix sw s r s'
  assume "swap_wf wire wf_entry wf_index wf_freshness sw"
    "index_covers K C (st_prefix st) (view s) (sw_key_type sw)" "si_swap (valkey_iface st K C) sw s = (r, s')"
  then show "((r = Inr () \<and> abs_type K C (st_prefix st) (view s') (sw_key_type sw) = spec_swap sw) \<or>
      (\<not> is_ok r \<and> abs_type K C (st_prefix st) (view s') (sw_key_type sw)
         \<in> {abs_type K C (st_prefix st) (view s) (sw_key_type sw), spec_swap sw})) \<and>
    index_covers K C (st_prefix st) (view s') (sw_key_type sw)"
    by (intro swap_spec) (simp_all add: valkey_iface_def)
next
  fix sw s r s' t
  assume "swap_wf wire wf_entry wf_index wf_freshness sw" "si_swap (valkey_iface st K C) sw s = (r, s')"
    "t \<in> wire" "t \<noteq> sw_key_type sw"
  then show "abs_type K C (st_prefix st) (view s') t = abs_type K C (st_prefix st) (view s) t \<and>
    index_covers K C (st_prefix st) (view s') t = index_covers K C (st_prefix st) (view s) t"
    by (intro swap_frame) (simp_all add: valkey_iface_def swap_wf_def)
next
  fix t ttl f s r s'
  assume "t \<in> wire" "second \<le> ttl" "wf_freshness f" "index_covers K C (st_prefix st) (view s) t"
    "si_refresh (valkey_iface st K C) t f ttl s = (r, s')"
  then show "((r = Inr () \<and> abs_type K C (st_prefix st) (view s') t =
        spec_refresh f (abs_type K C (st_prefix st) (view s) t)) \<or>
      (\<not> is_ok r \<and> abs_type K C (st_prefix st) (view s') t
         \<in> {abs_type K C (st_prefix st) (view s) t, spec_refresh f (abs_type K C (st_prefix st) (view s) t)})) \<and>
    index_covers K C (st_prefix st) (view s') t"
    by (intro refresh_spec) (simp_all add: valkey_iface_def)
next
  fix t ttl f s r s' t'
  assume "t \<in> wire" "second \<le> ttl" "si_refresh (valkey_iface st K C) t f ttl s = (r, s')" "t' \<in> wire" "t' \<noteq> t"
  then show "abs_type K C (st_prefix st) (view s') t' = abs_type K C (st_prefix st) (view s) t' \<and>
    index_covers K C (st_prefix st) (view s') t' = index_covers K C (st_prefix st) (view s) t'"
    by (intro refresh_frame) (simp_all add: valkey_iface_def)
qed

section \<open>Grouping\<close>

lemma keys_append_at: "map fst (append_at k x m) = (if k \<in> fst ` set m then map fst m else map fst m @ [k])"
  by (induction m) (auto simp: image_iff, force+)

lemma distinct_append_at: "distinct (map fst m) \<Longrightarrow> distinct (map fst (append_at k x m))"
  by (simp add: keys_append_at)

lemma map_of_append_at:
  "map_of (append_at k x m) k' =
     (if k' = k then Some ((case map_of m k of Some xs \<Rightarrow> xs | None \<Rightarrow> []) @ [x]) else map_of m k')"
  by (induction m) auto

lemma by_territory_keys:
  "distinct (map fst m) \<Longrightarrow> distinct (map fst (by_territory n m as)) \<and>
     fst ` set (by_territory n m as) = fst ` set m \<union> (\<lambda>a. n (ta_country a)) ` set as"
proof (induction as arbitrary: m)
  case Nil
  then show ?case by simp
next
  case (Cons a as)
  have "fst ` set (append_at k x m) = insert k (fst ` set m)" for k and x :: cached_anchor
    using arg_cong [OF keys_append_at [of k x m], of set] by auto
  with Cons.IH [OF distinct_append_at [OF Cons.prems]] show ?case by auto
qed

lemma by_territory_lookup:
  "map_of (by_territory n m as) k =
     (case filter (\<lambda>a. n (ta_country a) = k) as of
        [] \<Rightarrow> map_of m k
      | bs \<Rightarrow> Some ((case map_of m k of Some xs \<Rightarrow> xs | None \<Rightarrow> []) @ map (cached_of n) bs))"
proof (induction as arbitrary: m)
  case Nil
  then show ?case by simp
next
  case (Cons a as)
  show ?case
    by (cases "filter (\<lambda>a. n (ta_country a) = k) as") (auto simp: Cons.IH map_of_append_at)
qed

text \<open>Any order in which Go may iterate the map.\<close>

definition iteration_order :: "(string list \<Rightarrow> string list) \<Rightarrow> bool" where
  "iteration_order f \<longleftrightarrow> (\<forall>xs. mset (f xs) = mset xs)"

lemma iteration_orderD:
  assumes "iteration_order f"
  shows "set (f xs) = set xs" "distinct (f xs) = distinct xs" "length (f xs) = length xs"
proof -
  have "mset (f xs) = mset xs" using assms by (simp add: iteration_order_def)
  then show "set (f xs) = set xs" "distinct (f xs) = distinct xs" "length (f xs) = length xs"
    by (metis set_mset_mset, metis mset_eq_imp_distinct_iff, metis size_mset)
qed

text \<open>The entry of territory \<open>x\<close>.\<close>

definition entry_of :: "(string \<Rightarrow> string) \<Rightarrow> string \<Rightarrow> anchor_set \<Rightarrow> gotime \<Rightarrow> gotime \<Rightarrow> string \<Rightarrow> anchor_set_entry" where
  "entry_of n key_type aset fetched valid x =
     \<lparr>en_snapshot_id = as_snapshot aset, en_type = key_type, en_territory = x, en_fetched_at = fetched,
      en_valid_until = valid, en_upstream_stale = as_stale aset,
      en_anchors = map (cached_of n) (filter (\<lambda>a. n (ta_country a) = x) (as_anchors aset))\<rparr>"

lemma entries_are:
  "entries_by_territory n order key_type aset fetched valid =
     map (entry_of n key_type aset fetched valid) (order (map fst (by_territory n [] (as_anchors aset))))"
proof -
  have "(case map_of (by_territory n [] (as_anchors aset)) x of Some as \<Rightarrow> as | None \<Rightarrow> []) =
      map (cached_of n) (filter (\<lambda>a. n (ta_country a) = x) (as_anchors aset))" for x
    by (cases "filter (\<lambda>a. n (ta_country a) = x) (as_anchors aset)") (auto simp: by_territory_lookup)
  then show ?thesis by (simp add: entries_by_territory_def entry_of_def Let_def)
qed

lemma entries_territories:
  assumes "iteration_order order"
  shows "distinct (map en_territory (entries_by_territory n order key_type aset fetched valid)) \<and>
    set (map en_territory (entries_by_territory n order key_type aset fetched valid)) =
      (\<lambda>a. n (ta_country a)) ` set (as_anchors aset)"
  using by_territory_keys [of "[]" n "as_anchors aset"] iteration_orderD [OF assms]
  by (simp add: entries_are comp_def entry_of_def image_image)

lemma entries_map_of:
  assumes "iteration_order order"
  shows "map_of (map (\<lambda>e. (en_territory e, e)) (entries_by_territory n order key_type aset fetched valid)) x =
    (if x \<in> (\<lambda>a. n (ta_country a)) ` set (as_anchors aset)
     then Some (entry_of n key_type aset fetched valid x) else None)"
proof -
  let ?ks = "order (map fst (by_territory n [] (as_anchors aset)))"
  have "set ?ks = (\<lambda>a. n (ta_country a)) ` set (as_anchors aset)"
    using by_territory_keys [of "[]" n "as_anchors aset"] iteration_orderD [OF assms] by simp
  moreover have "map_of (map (\<lambda>e. (en_territory e, e)) (map (entry_of n key_type aset fetched valid) ks)) x =
      (if x \<in> set ks then Some (entry_of n key_type aset fetched valid x) else None)" for ks
    by (induction ks) (auto simp: entry_of_def)
  ultimately show ?thesis by (simp add: entries_are)
qed

section \<open>The phases of a poll\<close>

text \<open>The client's answer, the environment after the duration was measured, the time of the poll.\<close>

definition anchors_call :: "('s, 'c) syncer \<Rightarrow> anchor_type \<Rightarrow> ('s, 'c) world \<Rightarrow> (anchor_set \<times> bool) result \<times> 'c" where
  "anchors_call S t w = tc_anchors (sy_client S) t [] (etag t w) (snd (sy_now S (wd_env w)))"

definition poll_env :: "('s, 'c) syncer \<Rightarrow> anchor_type \<Rightarrow> ('s, 'c) world \<Rightarrow> 'c" where
  "poll_env S t w = snd (sy_now S (snd (anchors_call S t w)))"

definition poll_now :: "('s, 'c) syncer \<Rightarrow> anchor_type \<Rightarrow> ('s, 'c) world \<Rightarrow> gotime" where
  "poll_now S t w = fst (sy_now S (poll_env S t w))"

definition poll_end :: "('s, 'c) syncer \<Rightarrow> anchor_type \<Rightarrow> ('s, 'c) world \<Rightarrow> 'c" where
  "poll_end S t w = snd (sy_now S (poll_env S t w))"

definition polled :: "('s, 'c) syncer \<Rightarrow> anchor_type \<Rightarrow> string \<Rightarrow> 'c \<Rightarrow> ('s, 'c) world \<Rightarrow> ('s, 'c) world" where
  "polled S t key_type c w =
     w_metric (ObserveSeconds ''trust_cache_sync_duration_seconds'' [(''type'', key_type)]
       (time_sub (fst (sy_now S (snd (anchors_call S t w)))) (fst (sy_now S (wd_env w)))))
       (w\<lparr>wd_env := c\<rparr>)"

text \<open>The freshness record and the swap a poll writes.\<close>

definition poll_fresh :: "('s, 'c) syncer \<Rightarrow> anchor_type \<Rightarrow> string \<Rightarrow> bool \<Rightarrow> ('s, 'c) world \<Rightarrow> type_freshness" where
  "poll_fresh S t snap stale w =
     \<lparr>fr_snapshot_id = snap, fr_fetched_at = poll_now S t w,
      fr_valid_until = time_add (poll_now S t w) (sc_cache_ttl (sy_cfg S)), fr_upstream_stale = stale\<rparr>"

definition poll_swap :: "('s, 'c) syncer \<Rightarrow> anchor_type \<Rightarrow> string \<Rightarrow> anchor_set \<Rightarrow> ('s, 'c) world \<Rightarrow> swap" where
  "poll_swap S t key_type aset w =
     \<lparr>sw_key_type = key_type, sw_etag = as_snapshot aset,
      sw_entries = entries_by_territory (sy_normalize S) (sy_order S (poll_end S t w)) key_type aset
        (poll_now S t w) (time_add (poll_now S t w) (sc_cache_ttl (sy_cfg S))),
      sw_freshness = poll_fresh S t (as_snapshot aset) (as_stale aset) w, sw_ttl = sc_cache_ttl (sy_cfg S)\<rparr>"

lemma polled_simps [simp]:
  "wd_store (polled S t k c w) = wd_store w" "wd_env (polled S t k c w) = c" "wd_health (polled S t k c w) = wd_health w"
  "wd_reg (polled S t k c w) = wd_reg w" "wd_etags (polled S t k c w) = wd_etags w" "etag u (polled S t k c w) = etag u w"
  "ob_log (wd_obs (polled S t k c w)) = ob_log (wd_obs w)"
  by (simp_all add: polled_def)

lemma w_metric_env [simp]: "w_metric m w\<lparr>wd_env := d\<rparr> = w_metric m (w\<lparr>wd_env := d\<rparr>)"
  by (simp add: w_metric_def)

lemma polled_env [simp]: "polled S t k c w\<lparr>wd_env := d\<rparr> = polled S t k d w"
  by (simp add: polled_def)

lemma sync_type_phases:
  assumes "wire_type t = Inr k"
  shows "sync_type S t w =
    (case fst (anchors_call S t w) of
       Inl e \<Rightarrow> (Inl (ErrWrap (''trustsync: anchors '' @ k @ '': '') e), count_sync k ''error'' (polled S t k (poll_env S t w) w))
     | Inr (aset, modified) \<Rightarrow>
         if modified then sync_updated S t k aset (poll_now S t w) (polled S t k (poll_end S t w) w)
         else sync_not_modified S t k (poll_now S t w) (polled S t k (poll_end S t w) w))"
  using assms
  by (simp add: sync_type_def Let_def anchors_call_def poll_env_def poll_now_def poll_end_def polled_def
      split: sum.splits)

text \<open>The outcomes of a poll of a known type.\<close>

lemma sync_type_cases:
  assumes wire: "wire_type t = Inr k" and run: "sync_type S t w = (r, w')"
  obtains (failed) e where "fst (anchors_call S t w) = Inl e"
      "r = Inl (ErrWrap (''trustsync: anchors '' @ k @ '': '') e)"
      "w' = count_sync k ''error'' (polled S t k (poll_env S t w) w)"
    | (refresh_failed) aset e s' where "fst (anchors_call S t w) = Inr (aset, False)"
      "si_refresh (sy_store S) k (poll_fresh S t (etag t w) False w) (sc_cache_ttl (sy_cfg S)) (wd_store w) = (Inl e, s')"
      "r = Inl e" "w' = count_sync k ''error'' (polled S t k (poll_end S t w) w\<lparr>wd_store := s'\<rparr>)"
    | (refreshed) aset s' where "fst (anchors_call S t w) = Inr (aset, False)"
      "si_refresh (sy_store S) k (poll_fresh S t (etag t w) False w) (sc_cache_ttl (sy_cfg S)) (wd_store w) = (Inr (), s')"
      "r = Inr ()" "w' = count_sync k ''not_modified'' (w_set_freshness k (poll_fresh S t (etag t w) False w)
        (polled S t k (poll_end S t w) w\<lparr>wd_store := s'\<rparr>))"
    | (swap_failed) aset e s' where "fst (anchors_call S t w) = Inr (aset, True)"
      "si_swap (sy_store S) (poll_swap S t k aset w) (wd_store w) = (Inl e, s')"
      "r = Inl e" "w' = count_sync k ''error'' (polled S t k (poll_end S t w) w\<lparr>wd_store := s'\<rparr>)"
    | (swapped) aset s' fs where "fst (anchors_call S t w) = Inr (aset, True)"
      "si_swap (sy_store S) (poll_swap S t k aset w) (wd_store w) = (Inr (), s')"
      "r = Inr ()" "w' = w_log LInfo ''anchor set materialized'' fs (count_sync k ''updated''
        (w_set_freshness k (poll_fresh S t (as_snapshot aset) (as_stale aset) w)
          (set_etag t (as_snapshot aset) (polled S t k (poll_end S t w) w\<lparr>wd_store := s'\<rparr>))))"
proof (cases "fst (anchors_call S t w)")
  case (Inl e)
  with run show ?thesis by (intro failed) (auto simp: sync_type_phases [OF wire])
next
  case (Inr am)
  obtain aset m where am: "am = (aset, m)" by force
  show ?thesis
  proof (cases m)
    case True
    obtain q s' where q: "si_swap (sy_store S) (poll_swap S t k aset w) (wd_store w) = (q, s')" by force
    show ?thesis
    proof (cases q)
      case (Inl e)
      with run q \<open>fst _ = Inr am\<close> am True show ?thesis
        by (intro swap_failed) (auto simp: sync_type_phases [OF wire] sync_updated_def Let_def poll_swap_def poll_fresh_def)
    next
      case (Inr u)
      with run q \<open>fst _ = Inr am\<close> am True show ?thesis
        by (intro swapped) (auto simp: sync_type_phases [OF wire] sync_updated_def Let_def poll_swap_def poll_fresh_def)
    qed
  next
    case False
    obtain q s' where q: "si_refresh (sy_store S) k (poll_fresh S t (etag t w) False w) (sc_cache_ttl (sy_cfg S))
      (wd_store w) = (q, s')" by force
    show ?thesis
    proof (cases q)
      case (Inl e)
      with run q \<open>fst _ = Inr am\<close> am False show ?thesis
        by (intro refresh_failed) (auto simp: sync_type_phases [OF wire] sync_not_modified_def Let_def poll_fresh_def)
    next
      case (Inr u)
      with run q \<open>fst _ = Inr am\<close> am False show ?thesis
        by (intro refreshed) (auto simp: sync_type_phases [OF wire] sync_not_modified_def Let_def poll_fresh_def)
    qed
  qed
qed

end
