(* ===== verification/Sync_Properties.thy ===== *)
theory Sync_Properties
  imports Sync_Spec
begin

text \<open>
  The properties of \<open>SyncType\<close> and \<open>SyncAll\<close>, with their witnesses: a syncer on the reference
  store whose trust service answers from a script.
\<close>

section \<open>A scripted environment for the witnesses\<close>

record ref_env =
  re_time :: int
  re_replies :: "(anchor_set \<times> bool) result list"

definition ref_client :: "ref_env trust_client" where
  "ref_client =
     \<lparr>tc_anchors = (\<lambda>t x e c. case re_replies c of
          [] \<Rightarrow> (Inl (ErrMsg ''connection refused''), c)
        | r # rs \<Rightarrow> (r, c\<lparr>re_replies := rs\<rparr>)),
      tc_snapshot = (\<lambda>c. (Inl (ErrMsg ''connection refused''), c))\<rparr>"

definition ref_syncer :: "(refsrv, ref_env) syncer" where
  "ref_syncer =
     \<lparr>sy_client = ref_client, sy_store = valkey_iface ref_store ref_keys ref_codec,
      sy_cfg = \<lparr>sc_poll_interval = 5 * minute, sc_cache_ttl = 45 * minute,
        sc_snapshot_poll_interval = 5 * minute, sc_types = [''pid_provider'']\<rparr>,
      sy_now = (\<lambda>c. (time_unix (re_time c mod 4000000000), c)),
      sy_order = (\<lambda>c. rev), sy_normalize = normalize_territory ref_keys\<rparr>"

definition ref_world :: "refsrv \<Rightarrow> (anchor_set \<times> bool) result list \<Rightarrow> (refsrv, ref_env) world" where
  "ref_world s replies =
     \<lparr>wd_store = s, wd_env = \<lparr>re_time = 1783166400, re_replies = replies\<rparr>,
      wd_health = new_state [''pid_provider''], wd_reg = empty_registry, wd_etags = Map.empty, wd_obs = no_obs\<rparr>"

definition sample_anchor :: "string \<Rightarrow> trust_anchor" where
  "sample_anchor c =
     \<lparr>ta_cert = Some ''der'', ta_country = c, ta_status = ''granted'', ta_valid_until = time_unix 1830297600,
      ta_tl_sequence = 51, ta_use_cases = []\<rparr>"

definition sample_set :: anchor_set where
  "sample_set =
     \<lparr>as_anchors = [sample_anchor ''lv'', sample_anchor ''EE'', sample_anchor ''LV''],
      as_snapshot = ''snap-1'', as_stale = False\<rparr>"

section \<open>An upstream error writes nothing\<close>

text \<open>The \<open>trust_cache_sync_total\<close> events: type and outcome.\<close>

fun sync_counts :: "metric_event list \<Rightarrow> (string \<times> string) list" where
  "sync_counts [] = []"
| "sync_counts (IncCounter n [(l, k), (l', v)] # ms) =
     (if n = ''trust_cache_sync_total'' then (k, v) # sync_counts ms else sync_counts ms)"
| "sync_counts (m # ms) = sync_counts ms"

lemma sync_counts_append [simp]: "sync_counts (xs @ ys) = sync_counts xs @ sync_counts ys"
  by (induction xs rule: sync_counts.induct) auto

lemma sync_counts_simps [simp]:
  "sync_counts (ob_metrics (wd_obs (count_sync k v w))) = sync_counts (ob_metrics (wd_obs w)) @ [(k, v)]"
  "sync_counts (ob_metrics (wd_obs (polled S t k c w))) = sync_counts (ob_metrics (wd_obs w))"
  by (simp_all add: sync_labels_def outcome_def polled_def)

text \<open>
  C25. When the trust service cannot be read, nothing is written: the store is not even called, the
  readiness state, the gauges and the etags are unchanged (so the cache ages toward its expiry),
  the error is returned wrapped with the type's name, and the failure is counted once.
\<close>

theorem sync_error_writes_nothing:
  assumes "wire_type t = Inr k" "fst (anchors_call S t w) = Inl e" "sync_type S t w = (r, w')"
  shows "r = Inl (ErrWrap (''trustsync: anchors '' @ k @ '': '') e) \<and> wd_store w' = wd_store w \<and>
    wd_health w' = wd_health w \<and> wd_reg w' = wd_reg w \<and> wd_etags w' = wd_etags w \<and>
    ob_log (wd_obs w') = ob_log (wd_obs w) \<and>
    sync_counts (ob_metrics (wd_obs w')) = sync_counts (ob_metrics (wd_obs w)) @ [(k, ''error'')]"
  by (rule sync_type_cases [OF assms(1,3)]) (use assms(2) in \<open>auto simp: sync_labels_def outcome_def\<close>)

lemma wire_pid [simp]: "wire_type PIDProvider = Inr ''pid_provider''"
  by (simp add: wire_type_def type_table_def)

theorem sync_error_writes_nothing_witness:
  "\<exists>r w'. sync_type ref_syncer PIDProvider (ref_world ref_srv []) = (r, w') \<and> \<not> is_ok r \<and>
     wd_store w' = ref_srv \<and> sync_counts (ob_metrics (wd_obs w')) = [(''pid_provider'', ''error'')]"
proof -
  obtain r w' where run: "sync_type ref_syncer PIDProvider (ref_world ref_srv []) = (r, w')" by force
  have "fst (anchors_call ref_syncer PIDProvider (ref_world ref_srv [])) = Inl (ErrMsg ''connection refused'')"
    by (simp add: anchors_call_def ref_syncer_def ref_client_def ref_world_def)
  from sync_error_writes_nothing [OF wire_pid this run] run show ?thesis
    by (simp add: ref_world_def no_obs_def)
qed

section \<open>Grouping by territory\<close>

text \<open>
  \<open>entriesByTerritory\<close> neither loses nor invents an anchor: in whatever order Go iterates the
  map, there is exactly one entry per territory that occurs, it holds the anchors of that
  territory in the order of the anchor set, and it carries the set's snapshot id, stale flag and
  the poll's horizon.
\<close>

lemma entries_partition_anchors:
  assumes "iteration_order order"
  shows "distinct (map en_territory (entries_by_territory n order k aset fetched valid)) \<and>
    set (map en_territory (entries_by_territory n order k aset fetched valid)) =
      (\<lambda>a. n (ta_country a)) ` set (as_anchors aset) \<and>
    (\<forall>e \<in> set (entries_by_territory n order k aset fetched valid).
       en_anchors e = map (cached_of n) (filter (\<lambda>a. n (ta_country a) = en_territory e) (as_anchors aset)) \<and>
       en_anchors e \<noteq> [] \<and> en_snapshot_id e = as_snapshot aset \<and> en_type e = k \<and>
       en_valid_until e = valid \<and> en_fetched_at e = fetched \<and> en_upstream_stale e = as_stale aset)"
proof -
  have "\<exists>a \<in> set (as_anchors aset). n (ta_country a) = x"
    if "x \<in> set (order (map fst (by_territory n [] (as_anchors aset))))" for x
    using that by_territory_keys [of "[]" n "as_anchors aset"] iteration_orderD(1) [OF assms] by auto
  then show ?thesis
    using entries_territories [OF assms, of n k aset fetched valid]
    by (auto simp: entries_are entry_of_def filter_empty_conv)
qed

lemma iteration_order_rev: "iteration_order rev"
  by (simp add: iteration_order_def)

lemma sample_normal [simp]:
  "normalize_territory ref_keys ''lv'' = ''LV''" "normalize_territory ref_keys ''LV'' = ''LV''"
  "normalize_territory ref_keys ''EE'' = ''EE''"
  by (simp_all add: ref_keys_def readme_keys_def) (code_simp+)

lemma entries_partition_anchors_instance:
  "set (map en_territory (entries_by_territory (normalize_territory ref_keys) rev ''pid_provider'' sample_set
     zero_time zero_time)) = {''LV'', ''EE''}"
  using entries_partition_anchors [OF iteration_order_rev, of "normalize_territory ref_keys" "''pid_provider''" sample_set
      zero_time zero_time, THEN conjunct2, THEN conjunct1]
  by (simp add: sample_set_def sample_anchor_def insert_commute)

section \<open>A 200 materializes the anchor set\<close>

text \<open>What the configuration check and Go guarantee of a syncer on a Valkey store.\<close>

definition syncer_on :: "'s store \<Rightarrow> key_contract \<Rightarrow> codec \<Rightarrow> ('s, 'c) syncer \<Rightarrow> bool" where
  "syncer_on st K C S \<longleftrightarrow>
     sy_store S = valkey_iface st K C \<and> second \<le> sc_cache_ttl (sy_cfg S) \<and> (\<forall>c. iteration_order (sy_order S c))"

text \<open>The values of a swap survive the JSON round trip.\<close>

definition representable ::
  "(anchor_set_entry \<Rightarrow> bool) \<Rightarrow> (string list \<Rightarrow> bool) \<Rightarrow> (type_freshness \<Rightarrow> bool) \<Rightarrow> swap \<Rightarrow> bool" where
  "representable wf_entry wf_index wf_freshness sw \<longleftrightarrow>
     list_all wf_entry (sw_entries sw) \<and> wf_index (sort (map en_territory (sw_entries sw))) \<and>
     wf_freshness (sw_freshness sw)"

lemma poll_swap_simps [simp]:
  "sw_key_type (poll_swap S t k aset w) = k" "sw_etag (poll_swap S t k aset w) = as_snapshot aset"
  "sw_ttl (poll_swap S t k aset w) = sc_cache_ttl (sy_cfg S)"
  "sw_freshness (poll_swap S t k aset w) = poll_fresh S t (as_snapshot aset) (as_stale aset) w"
  by (simp_all add: poll_swap_def)

lemma poll_fresh_simps [simp]:
  "fr_snapshot_id (poll_fresh S t sn b w) = sn" "fr_fetched_at (poll_fresh S t sn b w) = poll_now S t w"
  "fr_valid_until (poll_fresh S t sn b w) = time_add (poll_now S t w) (sc_cache_ttl (sy_cfg S))"
  "fr_upstream_stale (poll_fresh S t sn b w) = b"
  by (simp_all add: poll_fresh_def)

text \<open>The syncer keeps its side of the store's contract.\<close>

lemma poll_swap_wf:
  assumes "syncer_on st K C S" "wire_type t = Inr k" "representable we wi wfr (poll_swap S t k aset w)"
  shows "swap_wf (set wire_names) we wi wfr (poll_swap S t k aset w)"
proof -
  have "iteration_order (sy_order S (poll_end S t w))" using assms(1) by (simp add: syncer_on_def)
  from entries_territories [OF this] have "distinct (map en_territory (sw_entries (poll_swap S t k aset w)))"
    by (simp add: poll_swap_def)
  with assms wire_type_in_names [OF assms(2)] show ?thesis
    by (auto simp: swap_wf_def representable_def syncer_on_def)
qed

lemma spec_poll_swap:
  assumes "syncer_on st K C S"
  shows "tc_entries (spec_swap (poll_swap S t k aset w)) x =
    (if x \<in> (\<lambda>a. sy_normalize S (ta_country a)) ` set (as_anchors aset)
     then Some (entry_of (sy_normalize S) k aset (poll_now S t w)
        (time_add (poll_now S t w) (sc_cache_ttl (sy_cfg S))) x)
     else None)"
proof -
  have "iteration_order (sy_order S (poll_end S t w))" using assms by (simp add: syncer_on_def)
  from entries_map_of [OF this] show ?thesis by (simp add: spec_swap_def poll_swap_def)
qed

lemma spec_swap_meta [simp]:
  "tc_etag (spec_swap sw) = Some (sw_etag sw)" "tc_freshness (spec_swap sw) = Some (sw_freshness sw)"
  by (simp_all add: spec_swap_def)

lemma spec_refresh_simps [simp]:
  "tc_etag (spec_refresh f tc) = tc_etag tc" "tc_freshness (spec_refresh f tc) = Some f"
  "tc_entries (spec_refresh f tc) x = map_option (\<lambda>e. e\<lparr>en_valid_until := fr_valid_until f\<rparr>) (tc_entries tc x)"
  by (simp_all add: spec_refresh_def)

text \<open>The poll of one type on a Valkey store: what becomes of the type's cache, and of the others.\<close>

context valkey_store
begin

lemma poll_200:
  assumes S: "syncer_on st K C S" and wire: "wire = set wire_names" "wire_type t = Inr k"
    and cov: "index_covers K C (st_prefix st) (view (wd_store w)) k"
    and reply: "fst (anchors_call S t w) = Inr (aset, True)"
    and rep: "representable wf_entry wf_index wf_freshness (poll_swap S t k aset w)"
    and run: "sync_type S t w = (r, w')"
  obtains (ok) "r = Inr ()"
      "abs_type K C (st_prefix st) (view (wd_store w')) k = spec_swap (poll_swap S t k aset w)"
      "wd_health w' = record_freshness k (as_snapshot aset) (poll_now S t w)
         (time_add (poll_now S t w) (sc_cache_ttl (sy_cfg S))) (as_stale aset) (wd_health w)"
      "wd_etags w' = (wd_etags w)(t \<mapsto> as_snapshot aset)"
      "index_covers K C (st_prefix st) (view (wd_store w')) k"
    | (failed) "\<not> is_ok r"
      "abs_type K C (st_prefix st) (view (wd_store w')) k
         \<in> {abs_type K C (st_prefix st) (view (wd_store w)) k, spec_swap (poll_swap S t k aset w)}"
      "wd_health w' = wd_health w" "wd_etags w' = wd_etags w"
      "index_covers K C (st_prefix st) (view (wd_store w')) k"
proof -
  have wf: "swap_wf wire wf_entry wf_index wf_freshness (poll_swap S t k aset w)"
    using poll_swap_wf [OF S wire(2) rep] by (simp add: wire(1))
  have I: "sy_store S = valkey_iface st K C" using S by (simp add: syncer_on_def)
  note law = anchors.swap_law [OF wf, unfolded poll_swap_simps, OF cov]
  show ?thesis
  proof (rule sync_type_cases [OF wire(2) run], goal_cases failed refresh_failed refreshed swap_failed swapped)
    case (swap_failed as2 e s')
    with reply have as2: "as2 = aset" by simp
    have "si_swap (valkey_iface st K C) (poll_swap S t k aset w) (wd_store w) = (Inl e, s')"
      using swap_failed(2) I by (simp add: as2)
    from law [OF this] show ?thesis using swap_failed by (intro failed) auto
  next
    case (swapped as2 s' fs)
    with reply have as2: "as2 = aset" by simp
    have "si_swap (valkey_iface st K C) (poll_swap S t k aset w) (wd_store w) = (Inr (), s')"
      using swapped(2) I by (simp add: as2)
    from law [OF this] show ?thesis using swapped by (intro ok) (auto simp: as2)
  qed (use reply in auto)
qed

lemma poll_304:
  assumes S: "syncer_on st K C S" and wire: "wire = set wire_names" "wire_type t = Inr k"
    and cov: "index_covers K C (st_prefix st) (view (wd_store w)) k"
    and reply: "fst (anchors_call S t w) = Inr (aset, False)"
    and rep: "wf_freshness (poll_fresh S t (etag t w) False w)"
    and run: "sync_type S t w = (r, w')"
  obtains (ok) "r = Inr ()"
      "abs_type K C (st_prefix st) (view (wd_store w')) k =
         spec_refresh (poll_fresh S t (etag t w) False w) (abs_type K C (st_prefix st) (view (wd_store w)) k)"
      "wd_health w' = record_freshness k (etag t w) (poll_now S t w)
         (time_add (poll_now S t w) (sc_cache_ttl (sy_cfg S))) False (wd_health w)"
      "wd_etags w' = wd_etags w"
      "index_covers K C (st_prefix st) (view (wd_store w')) k"
    | (failed) "\<not> is_ok r"
      "abs_type K C (st_prefix st) (view (wd_store w')) k
         \<in> {abs_type K C (st_prefix st) (view (wd_store w)) k,
            spec_refresh (poll_fresh S t (etag t w) False w) (abs_type K C (st_prefix st) (view (wd_store w)) k)}"
      "wd_health w' = wd_health w" "wd_etags w' = wd_etags w"
      "index_covers K C (st_prefix st) (view (wd_store w')) k"
proof -
  have k: "k \<in> wire" using wire_type_in_names [OF wire(2)] by (simp add: wire(1))
  have I: "sy_store S = valkey_iface st K C" "second \<le> sc_cache_ttl (sy_cfg S)"
    using S by (simp_all add: syncer_on_def)
  note law = anchors.refresh_law [OF k I(2) rep cov]
  show ?thesis
  proof (rule sync_type_cases [OF wire(2) run], goal_cases failed refresh_failed refreshed swap_failed swapped)
    case (refresh_failed as2 e s')
    with I have "si_refresh (valkey_iface st K C) k (poll_fresh S t (etag t w) False w) (sc_cache_ttl (sy_cfg S))
      (wd_store w) = (Inl e, s')" by simp
    from law [OF this] show ?thesis using refresh_failed by (intro failed) auto
  next
    case (refreshed as2 s')
    with I have "si_refresh (valkey_iface st K C) k (poll_fresh S t (etag t w) False w) (sc_cache_ttl (sy_cfg S))
      (wd_store w) = (Inr (), s')" by simp
    from law [OF this] show ?thesis using refreshed by (intro ok) auto
  qed (use reply in auto)
qed

end

text \<open>
  C2. A 200 materializes the anchor set. When the swap succeeds, a reader finds, for each territory
  that occurs in the set, an entry with exactly that territory's anchors and the poll's horizon, and
  nothing for any other territory; the etag and freshness are the snapshot's; and the readiness
  state and the in-memory etag say the same. When it fails, the reader sees the whole old or the
  whole new set and the worker's own state is unchanged.
\<close>

theorem poll_200_materializes:
  assumes "valkey_store st view ex_ms K (set wire_names) C wf_entry wf_index wf_freshness"
    and "syncer_on st K C S" "wire_type t = Inr k"
    and "index_covers K C (st_prefix st) (view (wd_store w)) k"
    and "fst (anchors_call S t w) = Inr (aset, True)"
    and "representable wf_entry wf_index wf_freshness (poll_swap S t k aset w)"
    and "sync_type S t w = (r, w')"
  defines "now \<equiv> poll_now S t w"
    and "horizon \<equiv> time_add (poll_now S t w) (sc_cache_ttl (sy_cfg S))"
    and "cache \<equiv> \<lambda>w. abs_type K C (st_prefix st) (view (wd_store w)) k"
  shows "if is_ok r
    then (\<forall>x. tc_entries (cache w') x =
           (if x \<in> (\<lambda>a. sy_normalize S (ta_country a)) ` set (as_anchors aset)
            then Some (entry_of (sy_normalize S) k aset now horizon x) else None)) \<and>
         tc_etag (cache w') = Some (as_snapshot aset) \<and>
         tc_freshness (cache w') = Some \<lparr>fr_snapshot_id = as_snapshot aset, fr_fetched_at = now,
           fr_valid_until = horizon, fr_upstream_stale = as_stale aset\<rparr> \<and>
         hs_fresh (wd_health w') k = Some \<lparr>snapshotID = as_snapshot aset, fetchedAt = now,
           validUntil = horizon, upstreamStale = as_stale aset\<rparr> \<and>
         etag t w' = as_snapshot aset
    else cache w' \<in> {cache w, spec_swap (poll_swap S t k aset w)} \<and>
         wd_health w' = wd_health w \<and> wd_etags w' = wd_etags w"
proof (cases rule: valkey_store.poll_200 [OF assms(1,2) refl assms(3-7)])
  case 1
  then show ?thesis
    by (simp add: cache_def now_def horizon_def spec_poll_swap [OF assms(2)] poll_fresh_def etag_def)
next
  case 2
  then show ?thesis by (simp add: cache_def)
qed

lemma ref_syncer_on: "syncer_on ref_store ref_keys ref_codec ref_syncer"
  by (simp add: syncer_on_def ref_syncer_def iteration_order_rev minute_def second_def)

lemma ref_poll_reply:
  "anchors_call ref_syncer PIDProvider (ref_world s (q # qs)) = (q, \<lparr>re_time = 1783166400, re_replies = qs\<rparr>)"
  by (simp add: anchors_call_def ref_syncer_def ref_client_def ref_world_def)

lemma ref_swap_ok:
  assumes "sw_key_type sw = ''pid_provider''" "sw_ttl sw = 45 * minute"
  shows "\<exists>s'. swap_anchor_type ref_store ref_keys ref_codec sw ref_srv = (Inr (), s')"
proof -
  have t: "territories ref_store ref_keys ref_codec ''pid_provider'' ref_srv = (Inr [], ref_srv)"
    by (simp add: territories_def ref_get_absent ref_srv_def empty_ks_def)
  have e: "\<exists>cs. entry_cmds ref_store ref_keys ref_codec k (45 * minute) es = Inr cs \<and> list_all cmd_writes cs" for k es
    by (induction es) (auto simp: ref_codec_def minute_def second_def)
  obtain cs where cs: "entry_cmds ref_store ref_keys ref_codec ''pid_provider'' (45 * minute) (sw_entries sw) = Inr cs"
    "list_all cmd_writes cs" using e by blast
  have "list_all cmd_writes (swap_cmds ref_store ref_keys sw [] cs idx fr)" for idx fr
    using cs(2) assms(2) by (simp add: swap_cmds_def vanished_cmds_def minute_def second_def)
  with t cs assms show ?thesis
    by (simp add: swap_anchor_type_def ref_codec_def ref_run_txn ref_srv_def)
qed

definition fresh_world :: "(refsrv, ref_env) world" where
  "fresh_world = ref_world ref_srv [Inr (sample_set, True)]"

lemma ref_poll_ok:
  assumes "wd_store w = ref_srv" "re_replies (wd_env w) = [Inr (sample_set, True)]"
  shows "\<exists>w'. sync_type ref_syncer PIDProvider w = (Inr (), w')"
proof -
  obtain s' where sw: "swap_anchor_type ref_store ref_keys ref_codec
      (poll_swap ref_syncer PIDProvider ''pid_provider'' sample_set w) ref_srv = (Inr (), s')"
    using ref_swap_ok [of "poll_swap ref_syncer PIDProvider ''pid_provider'' sample_set w"]
    by (auto simp: ref_syncer_def)
  obtain r w' where run: "sync_type ref_syncer PIDProvider w = (r, w')" by force
  have reply: "fst (anchors_call ref_syncer PIDProvider w) = Inr (sample_set, True)"
    using assms(2) by (simp add: anchors_call_def ref_syncer_def ref_client_def)
  have store: "sy_store ref_syncer = valkey_iface ref_store ref_keys ref_codec" by (simp add: ref_syncer_def)
  have "r = Inr ()"
    by (rule sync_type_cases [OF wire_pid run]) (use reply sw store assms(1) in \<open>auto simp: valkey_iface_def\<close>)
  with run show ?thesis by blast
qed

lemma fresh_world_poll:
  "fst (anchors_call ref_syncer PIDProvider fresh_world) = Inr (sample_set, True)"
  "\<exists>w'. sync_type ref_syncer PIDProvider fresh_world = (Inr (), w')"
  "index_covers ref_keys ref_codec (st_prefix ref_store) (rs_ks (wd_store fresh_world)) k"
  "representable (\<lambda>_. True) (\<lambda>_. True) (\<lambda>_. True) sw"
proof -
  show reply: "fst (anchors_call ref_syncer PIDProvider fresh_world) = Inr (sample_set, True)"
    by (simp add: fresh_world_def ref_poll_reply)
  show "\<exists>w'. sync_type ref_syncer PIDProvider fresh_world = (Inr (), w')"
    by (rule ref_poll_ok) (simp_all add: fresh_world_def ref_world_def)
  show "index_covers ref_keys ref_codec (st_prefix ref_store) (rs_ks (wd_store fresh_world)) k"
    by (simp add: ref_world_def ref_srv_covers fresh_world_def)
  show "representable (\<lambda>_. True) (\<lambda>_. True) (\<lambda>_. True) sw"
    by (simp add: representable_def list_all_iff)
qed

theorem poll_200_materializes_witness:
  "\<exists>w'. sync_type ref_syncer PIDProvider fresh_world = (Inr (), w') \<and>
     tc_etag (abs_type ref_keys ref_codec ''verifierdev:'' (rs_ks (wd_store w')) ''pid_provider'') = Some ''snap-1'' \<and>
     tc_entries (abs_type ref_keys ref_codec ''verifierdev:'' (rs_ks (wd_store w')) ''pid_provider'') ''FR'' = None \<and>
     etag PIDProvider w' = ''snap-1''"
proof -
  obtain w' where run: "sync_type ref_syncer PIDProvider fresh_world = (Inr (), w')"
    using fresh_world_poll(2) by blast
  have fr: "''FR'' \<notin> (\<lambda>a. sy_normalize ref_syncer (ta_country a)) ` set (as_anchors sample_set)"
    by (simp add: ref_syncer_def sample_set_def sample_anchor_def)
  have p: "st_prefix ref_store = ''verifierdev:''" by (simp add: ref_store_def)
  from poll_200_materializes [OF ref_store.valkey_store_axioms ref_syncer_on wire_pid fresh_world_poll(3,1,4) run] run fr
  show ?thesis by (simp add: p) (simp add: sample_set_def)
qed

section \<open>A 304 advances the horizon\<close>

text \<open>
  C10. A 304 advances every horizon and no content: when the refresh succeeds, each entry a reader
  finds is the previous one with \<open>ValidUntil\<close> moved to the poll's horizon (none appears or
  vanishes), the freshness record and the readiness state carry that same horizon and the etag
  the worker sent, and the in-memory etag is unchanged.
\<close>

theorem poll_304_advances:
  assumes "valkey_store st view ex_ms K (set wire_names) C wf_entry wf_index wf_freshness"
    and "syncer_on st K C S" "wire_type t = Inr k"
    and "index_covers K C (st_prefix st) (view (wd_store w)) k"
    and "fst (anchors_call S t w) = Inr (aset, False)"
    and "wf_freshness (poll_fresh S t (etag t w) False w)"
    and "sync_type S t w = (Inr (), w')"
  defines "horizon \<equiv> time_add (poll_now S t w) (sc_cache_ttl (sy_cfg S))"
    and "cache \<equiv> \<lambda>w. abs_type K C (st_prefix st) (view (wd_store w)) k"
  shows "(\<forall>x. tc_entries (cache w') x =
        (case tc_entries (cache w) x of None \<Rightarrow> None | Some e \<Rightarrow> Some (e\<lparr>en_valid_until := horizon\<rparr>))) \<and>
    tc_etag (cache w') = tc_etag (cache w) \<and>
    (\<exists>f. tc_freshness (cache w') = Some f \<and> fr_valid_until f = horizon \<and> fr_snapshot_id f = etag t w) \<and>
    (\<exists>fr. hs_fresh (wd_health w') k = Some fr \<and> validUntil fr = horizon \<and> snapshotID fr = etag t w) \<and>
    etag t w' = etag t w"
proof (cases rule: valkey_store.poll_304 [OF assms(1,2) refl assms(3-7)])
  case 1
  then show ?thesis by (simp add: cache_def horizon_def etag_def split: option.splits)
qed simp

lemma ref_refresh_ok:
  "\<exists>s'. refresh_anchor_type ref_store ref_keys ref_codec ''pid_provider'' f (45 * minute) ref_srv = (Inr (), s')"
proof -
  have t: "territories ref_store ref_keys ref_codec ''pid_provider'' ref_srv = (Inr [], ref_srv)"
    by (simp add: territories_def ref_get_absent ref_srv_def empty_ks_def)
  then show ?thesis
    by (simp add: refresh_anchor_type_def ref_codec_def refresh_cmds_def ref_run_txn ref_srv_def
        minute_def second_def go_div_def)
qed

text \<open>A worker that holds the etag of an earlier swap while the server's keyspace is empty.\<close>

definition lost_world :: "(refsrv, ref_env) world" where
  "lost_world = set_etag PIDProvider ''snap-1'' (ref_world ref_srv [Inr (sample_set, False)])"

lemma lost_world_poll:
  "fst (anchors_call ref_syncer PIDProvider lost_world) = Inr (sample_set, False)"
  "\<exists>w'. sync_type ref_syncer PIDProvider lost_world = (Inr (), w')"
  "index_covers ref_keys ref_codec (st_prefix ref_store) (rs_ks (wd_store lost_world)) ''pid_provider''"
  "etag PIDProvider lost_world = ''snap-1''"
proof -
  show reply: "fst (anchors_call ref_syncer PIDProvider lost_world) = Inr (sample_set, False)"
    by (simp add: anchors_call_def ref_syncer_def ref_client_def ref_world_def lost_world_def)
  have store: "sy_store ref_syncer = valkey_iface ref_store ref_keys ref_codec" "wd_store lost_world = ref_srv"
    "sc_cache_ttl (sy_cfg ref_syncer) = 45 * minute"
    by (simp_all add: ref_syncer_def ref_world_def lost_world_def)
  obtain r w' where run: "sync_type ref_syncer PIDProvider lost_world = (r, w')" by force
  obtain s' where rf: "refresh_anchor_type ref_store ref_keys ref_codec ''pid_provider''
      (poll_fresh ref_syncer PIDProvider (etag PIDProvider lost_world) False lost_world) (45 * minute) ref_srv
      = (Inr (), s')"
    using ref_refresh_ok by blast
  have "r = Inr ()"
    by (rule sync_type_cases [OF wire_pid run]) (use reply store rf in \<open>auto simp: valkey_iface_def\<close>)
  with run show "\<exists>w'. sync_type ref_syncer PIDProvider lost_world = (Inr (), w')" by blast
  show "index_covers ref_keys ref_codec (st_prefix ref_store) (rs_ks (wd_store lost_world)) ''pid_provider''"
    by (simp add: lost_world_def ref_world_def ref_srv_covers)
  show "etag PIDProvider lost_world = ''snap-1''" by (simp add: lost_world_def etag_def)
qed

theorem poll_304_advances_witness:
  "\<exists>w'. sync_type ref_syncer PIDProvider lost_world = (Inr (), w') \<and>
     (\<exists>fr. hs_fresh (wd_health w') ''pid_provider'' = Some fr \<and> snapshotID fr = ''snap-1'')"
proof -
  obtain w' where run: "sync_type ref_syncer PIDProvider lost_world = (Inr (), w')"
    using lost_world_poll(2) by blast
  from poll_304_advances [OF ref_store.valkey_store_axioms ref_syncer_on wire_pid lost_world_poll(3,1) TrueI run] run
  show ?thesis by (auto simp: lost_world_poll(4))
qed

section \<open>A lost cache\<close>

text \<open>
  C36. The worker trusts its in-memory etag over the cache: when the type's keys are gone from Valkey
  (an outage longer than the cache TTL, a flush, a failover) and the snapshot has not
  changed, the trust service answers 304, the refresh succeeds on nothing, and the type counts as
  live although a reader still finds no anchor for any territory. The in-memory etag stays, so the
  next poll or an operator's resync sends it again.
\<close>

theorem lost_cache_reported_live:
  assumes "valkey_store st view ex_ms K (set wire_names) C wf_entry wf_index wf_freshness"
    and "syncer_on st K C S" "wire_type t = Inr k"
    and "index_covers K C (st_prefix st) (view (wd_store w)) k"
    and "abs_type K C (st_prefix st) (view (wd_store w)) k = empty_cache"
    and "fst (anchors_call S t w) = Inr (aset, False)"
    and "wf_freshness (poll_fresh S t (etag t w) False w)"
    and "sync_type S t w = (Inr (), w')"
    and "time_before now (time_add (poll_now S t w) (sc_cache_ttl (sy_cfg S)))"
  shows "live (wd_health w') now k \<and>
    tc_entries (abs_type K C (st_prefix st) (view (wd_store w')) k) = Map.empty \<and> etag t w' = etag t w"
proof (cases rule: valkey_store.poll_304 [OF assms(1,2) refl assms(3,4,6-8)])
  case 1
  then show ?thesis
    using assms(5,9) by (simp add: live_record etag_def fun_eq_iff empty_cache_def)
qed simp

theorem lost_cache_reported_live_witness:
  "\<exists>w'. sync_type ref_syncer PIDProvider lost_world = (Inr (), w') \<and>
     ready (wd_health w') (time_unix 1783166460) = (True, []) \<and>
     tc_entries (abs_type ref_keys ref_codec (st_prefix ref_store) (rs_ks (wd_store w')) ''pid_provider'') = Map.empty"
proof -
  obtain w' where run: "sync_type ref_syncer PIDProvider lost_world = (Inr (), w')"
    using lost_world_poll(2) by blast
  have empty: "abs_type ref_keys ref_codec (st_prefix ref_store) (rs_ks (wd_store lost_world)) ''pid_provider'' = empty_cache"
    by (simp add: abs_type_def entry_at_def etag_at_def freshness_at_def lost_world_def ref_world_def ref_srv_def
        empty_ks_def empty_cache_def fun_eq_iff)
  have now: "time_before (time_unix 1783166460)
      (time_add (poll_now ref_syncer PIDProvider lost_world) (sc_cache_ttl (sy_cfg ref_syncer)))"
    by (simp add: poll_now_def poll_env_def anchors_call_def ref_syncer_def ref_client_def lost_world_def ref_world_def
        time_before_def time_unix_def time_add_def i64_def go_div_def go_rem_def minute_def second_def sat_sec_def Let_def)
  have req: "hs_required (wd_health w') = [''pid_provider'']"
    by (rule sync_type_cases [OF wire_pid run]) (simp_all add: lost_world_def ref_world_def new_state_def)
  from lost_cache_reported_live [OF ref_store.valkey_store_axioms ref_syncer_on wire_pid lost_world_poll(3) empty
      lost_world_poll(1) TrueI run now] run req
  show ?thesis by (auto simp: ready_filter)
qed

section \<open>One cycle\<close>

fun error_lines :: "log_entry list \<Rightarrow> nat" where
  "error_lines [] = 0"
| "error_lines (l # ls) = (if le_level l = LError then 1 else 0) + error_lines ls"

fun errors_in :: "(string \<times> string) list \<Rightarrow> nat" where
  "errors_in [] = 0"
| "errors_in ((k, v) # cs) = (if v = ''error'' then 1 else 0) + errors_in cs"

lemma error_lines_append [simp]: "error_lines (xs @ ys) = error_lines xs + error_lines ys"
  by (induction xs) auto

lemma errors_in_append [simp]: "errors_in (xs @ ys) = errors_in xs + errors_in ys"
  by (induction xs rule: errors_in.induct) auto

lemma no_errors_in: "errors_in cs = 0 \<longleftrightarrow> (\<forall>(k, v) \<in> set cs. v \<noteq> ''error'')"
  by (induction cs rule: errors_in.induct) auto

lemma sync_type_counts:
  assumes "wire_type t = Inr k" "sync_type S t w = (r, w')"
  shows "\<exists>v. sync_counts (ob_metrics (wd_obs w')) = sync_counts (ob_metrics (wd_obs w)) @ [(k, v)] \<and>
    (v = ''error'' \<longleftrightarrow> \<not> is_ok r) \<and> error_lines (ob_log (wd_obs w')) = error_lines (ob_log (wd_obs w)) \<and>
    hs_required (wd_health w') = hs_required (wd_health w)"
  by (rule sync_type_cases [OF assms]) (auto simp: sync_labels_def outcome_def)

text \<open>A poll leaves the records of the other types, and a failed one leaves its own.\<close>

lemma sync_type_record:
  assumes "wire_type t = Inr k" "sync_type S t w = (r, w')" "u \<noteq> k \<or> \<not> is_ok r"
  shows "hs_fresh (wd_health w') u = hs_fresh (wd_health w) u"
  by (rule sync_type_cases [OF assms(1,2)]) (use assms(3) in \<open>auto simp: is_ok_def\<close>)

end
