(* ===== verification/Sync_Liveness.thy ===== *)
theory Sync_Liveness
  imports Sync_Properties
begin

text \<open>
  The syncer against a clock that does not run backwards: what readiness promises about the cache
  over any sequence of polls, and that a cycle without errors makes the worker ready.
\<close>

section \<open>The clock\<close>

text \<open>\<open>clk\<close> is the instant (in nanoseconds) an environment has reached: readings are valid times,
  never before it, and move it on; so does a call to the trust service. Horizons stay
  representable.\<close>

locale worker_clock =
  fixes S :: "('s, 'c) syncer" and clk :: "'c \<Rightarrow> int"
  assumes now_law: "sy_now S c = (t, c') \<Longrightarrow>
      valid_time t \<and> add_in_range t (sc_cache_ttl (sy_cfg S)) \<and> clk c \<le> nanos t \<and> nanos t \<le> clk c'"
    and call_law: "tc_anchors (sy_client S) a x e c = (r, c') \<Longrightarrow> clk c \<le> clk c'"
begin

lemma now_bounds:
  "valid_time (fst (sy_now S c))" "add_in_range (fst (sy_now S c)) (sc_cache_ttl (sy_cfg S))"
  "clk c \<le> nanos (fst (sy_now S c))" "nanos (fst (sy_now S c)) \<le> clk (snd (sy_now S c))"
  "clk c \<le> clk (snd (sy_now S c))"
  using now_law [of c "fst (sy_now S c)" "snd (sy_now S c)"] by auto

lemma poll_clock:
  "clk (wd_env w) \<le> clk (poll_env S t w)" "clk (poll_env S t w) \<le> nanos (poll_now S t w)"
  "nanos (poll_now S t w) \<le> clk (poll_end S t w)" "valid_time (poll_now S t w)"
  "nanos (time_add (poll_now S t w) (sc_cache_ttl (sy_cfg S))) = nanos (poll_now S t w) + sc_cache_ttl (sy_cfg S)"
  "valid_time (time_add (poll_now S t w) (sc_cache_ttl (sy_cfg S)))"
proof -
  have "clk (snd (sy_now S (wd_env w))) \<le> clk (snd (anchors_call S t w))"
    unfolding anchors_call_def by (rule call_law) (rule prod.collapse [symmetric])
  then show "clk (wd_env w) \<le> clk (poll_env S t w)"
    using now_bounds(5) [of "wd_env w"] now_bounds(5) [of "snd (anchors_call S t w)"] by (simp add: poll_env_def)
  show "clk (poll_env S t w) \<le> nanos (poll_now S t w)" "nanos (poll_now S t w) \<le> clk (poll_end S t w)"
    "valid_time (poll_now S t w)"
    by (simp_all add: poll_now_def poll_end_def now_bounds)
  show "nanos (time_add (poll_now S t w) (sc_cache_ttl (sy_cfg S))) = nanos (poll_now S t w) + sc_cache_ttl (sy_cfg S)"
    "valid_time (time_add (poll_now S t w) (sc_cache_ttl (sy_cfg S)))"
    using time_add_nanos [of "poll_now S t w"] by (simp_all add: poll_now_def now_bounds)
qed

lemma sync_type_clock:
  assumes "sync_type S t w = (r, w')"
  shows "clk (wd_env w) \<le> clk (wd_env w')"
proof (cases "wire_type t")
  case (Inl e)
  with assms show ?thesis by (simp add: sync_type_def)
next
  case (Inr k)
  note c = poll_clock(1-3) [where w = w and t = t]
  show ?thesis by (rule sync_type_cases [OF Inr assms]) (use c in auto)
qed

text \<open>A poll that succeeds records a horizon one TTL after a moment of the poll.\<close>

definition fresh_since :: "int \<Rightarrow> ('s, 'c) world \<Rightarrow> string \<Rightarrow> bool" where
  "fresh_since n w k \<longleftrightarrow>
     (\<exists>fr. hs_fresh (wd_health w) k = Some fr \<and> valid_time (validUntil fr) \<and>
        n + sc_cache_ttl (sy_cfg S) \<le> nanos (validUntil fr))"

lemma fresh_since_live:
  assumes "fresh_since n w k" "valid_time now" "nanos now < n + sc_cache_ttl (sy_cfg S)"
  shows "live (wd_health w) now k"
  using assms by (auto simp: fresh_since_def live_def nanos_before)

lemma sync_type_fresh:
  assumes "wire_type t = Inr k" "sync_type S t w = (Inr (), w')"
  shows "fresh_since (clk (wd_env w)) w' k"
proof -
  note c = poll_clock [where w = w and t = t]
  show ?thesis
    by (rule sync_type_cases [OF assms]) (use c in \<open>auto simp: fresh_since_def\<close>)
qed

lemma sync_type_keeps_fresh:
  assumes "wire_type t = Inr k" "sync_type S t w = (r, w')" "fresh_since n w u" "n \<le> clk (wd_env w)"
  shows "fresh_since n w' u"
proof -
  note c = poll_clock [where w = w and t = t]
  show ?thesis
    by (rule sync_type_cases [OF assms(1,2)]) (use c assms(3,4) in \<open>auto simp: fresh_since_def\<close>)
qed

text \<open>A cycle whatever its outcomes: the counts, the errors, and the records of the types.\<close>

lemma sync_loop_outcomes:
  assumes "map wire_type ts = map Inr ks" "n \<le> clk (wd_env w)"
  shows "\<exists>vs. length vs = length ks \<and>
    sync_counts (ob_metrics (wd_obs (sync_loop S ts w))) = sync_counts (ob_metrics (wd_obs w)) @ zip ks vs \<and>
    error_lines (ob_log (wd_obs (sync_loop S ts w))) = error_lines (ob_log (wd_obs w)) + errors_in (zip ks vs) \<and>
    (\<forall>u. fresh_since n w u \<or> (\<exists>v. (u, v) \<in> set (zip ks vs) \<and> v \<noteq> ''error'') \<longrightarrow> fresh_since n (sync_loop S ts w) u) \<and>
    (\<forall>u. (\<forall>v. (u, v) \<in> set (zip ks vs) \<longrightarrow> v = ''error'') \<longrightarrow>
       hs_fresh (wd_health (sync_loop S ts w)) u = hs_fresh (wd_health w) u) \<and>
    hs_required (wd_health (sync_loop S ts w)) = hs_required (wd_health w)"
  using assms
proof (induction ts arbitrary: ks w)
  case Nil
  then show ?case by simp
next
  case (Cons t ts)
  then obtain k ks' where ks: "ks = k # ks'" "wire_type t = Inr k" "map wire_type ts = map Inr ks'"
    by (auto simp: map_eq_Cons_conv Cons_eq_map_conv)
  obtain r w1 where run: "sync_type S t w = (r, w1)" by force
  let ?w = "case r of Inr _ \<Rightarrow> w1 | Inl e \<Rightarrow> w_log LError ''anchor sync failed''
    [(''anchor_type'', LvStr (type_string t)), (''error'', LvErr e)] w1"
  obtain v where v: "sync_counts (ob_metrics (wd_obs w1)) = sync_counts (ob_metrics (wd_obs w)) @ [(k, v)]"
    "v = ''error'' \<longleftrightarrow> \<not> is_ok r" "error_lines (ob_log (wd_obs w1)) = error_lines (ob_log (wd_obs w))"
    "hs_required (wd_health w1) = hs_required (wd_health w)"
    using sync_type_counts [OF ks(2) run] by blast
  have w: "wd_env ?w = wd_env w1" "wd_health ?w = wd_health w1" by (cases r; simp)+
  have loop: "sync_loop S (t # ts) w = sync_loop S ts ?w" by (simp add: run split: sum.splits)
  have n: "n \<le> clk (wd_env ?w)" using sync_type_clock [OF run] Cons.prems(2) w by simp
  from Cons.IH [OF ks(3) n] obtain vs where vs: "length vs = length ks'"
    "sync_counts (ob_metrics (wd_obs (sync_loop S ts ?w))) = sync_counts (ob_metrics (wd_obs ?w)) @ zip ks' vs"
    "error_lines (ob_log (wd_obs (sync_loop S ts ?w))) = error_lines (ob_log (wd_obs ?w)) + errors_in (zip ks' vs)"
    "\<And>u. fresh_since n ?w u \<or> (\<exists>v. (u, v) \<in> set (zip ks' vs) \<and> v \<noteq> ''error'') \<Longrightarrow> fresh_since n (sync_loop S ts ?w) u"
    "\<And>u. (\<forall>v. (u, v) \<in> set (zip ks' vs) \<longrightarrow> v = ''error'') \<Longrightarrow>
       hs_fresh (wd_health (sync_loop S ts ?w)) u = hs_fresh (wd_health ?w) u"
    "hs_required (wd_health (sync_loop S ts ?w)) = hs_required (wd_health ?w)"
    by blast
  have keeps: "fresh_since n ?w u" if "fresh_since n w u" for u
    using sync_type_keeps_fresh [OF ks(2) run that Cons.prems(2)] w by (simp add: fresh_since_def)
  have new: "fresh_since n ?w k" if "v \<noteq> ''error''"
  proof -
    from that v(2) run have "sync_type S t w = (Inr (), w1)" by (cases r) (auto simp: is_ok_def)
    from sync_type_fresh [OF ks(2) this] Cons.prems(2) w show ?thesis by (auto simp: fresh_since_def)
  qed
  have old: "hs_fresh (wd_health ?w) u = hs_fresh (wd_health w) u" if "u = k \<longrightarrow> v = ''error''" for u
    using sync_type_record [OF ks(2) run, of u] that v(2) w by auto
  show ?case
    unfolding loop ks(1)
  proof (intro exI [of _ "v # vs"] conjI allI impI, goal_cases)
    case 1
    show ?case using vs(1) by simp
  next
    case 2
    show ?case using v vs(2) by (cases r) auto
  next
    case 3
    show ?case using v vs(3) by (cases r) (auto simp: is_ok_def)
  next
    case (4 u)
    then show ?case by (intro vs(4)) (auto intro: keeps new)
  next
    case (5 u)
    then show ?case using vs(5) [of u] old [of u] by auto
  next
    case 6
    show ?case using vs(6) v(4) w(2) by simp
  qed
qed

lemma sync_all_outcomes:
  assumes "set (sc_types (sy_cfg S)) \<subseteq> set wire_names"
  obtains vs where "length vs = length (sc_types (sy_cfg S))"
    "sync_counts (ob_metrics (wd_obs (sync_all S w))) = sync_counts (ob_metrics (wd_obs w)) @ zip (sc_types (sy_cfg S)) vs"
    "error_lines (ob_log (wd_obs (sync_all S w))) =
      error_lines (ob_log (wd_obs w)) + errors_in (zip (sc_types (sy_cfg S)) vs)"
    "\<And>u v. (u, v) \<in> set (zip (sc_types (sy_cfg S)) vs) \<Longrightarrow> v \<noteq> ''error'' \<Longrightarrow>
      fresh_since (clk (wd_env w)) (sync_all S w) u"
    "\<And>u. \<forall>v. (u, v) \<in> set (zip (sc_types (sy_cfg S)) vs) \<longrightarrow> v = ''error'' \<Longrightarrow>
       hs_fresh (wd_health (sync_all S w)) u = hs_fresh (wd_health w) u"
    "hs_required (wd_health (sync_all S w)) = hs_required (wd_health w)"
proof -
  obtain ts where ts: "parse_types (sc_types (sy_cfg S)) = Inr ts"
    using parse_types_total [OF assms] by blast
  then have "map wire_type ts = map Inr (sc_types (sy_cfg S))" by (simp add: parse_types_ok)
  moreover have "sync_all S w = sync_loop S ts w" using ts by (simp add: sync_all_def)
  ultimately show ?thesis using sync_loop_outcomes [of ts "sc_types (sy_cfg S)" "clk (wd_env w)" w] that by auto
qed

lemma clean_cycle:
  assumes "set (sc_types (sy_cfg S)) \<subseteq> set wire_names"
    and "error_lines (ob_log (wd_obs (sync_all S w))) = error_lines (ob_log (wd_obs w))"
  shows "list_all (fresh_since (clk (wd_env w)) (sync_all S w)) (sc_types (sy_cfg S)) \<and>
    hs_required (wd_health (sync_all S w)) = hs_required (wd_health w)"
proof (rule sync_all_outcomes [OF assms(1), of w], goal_cases outcomes)
  case (outcomes vs)
  from outcomes(3) assms(2) have ok: "\<forall>(k, v) \<in> set (zip (sc_types (sy_cfg S)) vs). v \<noteq> ''error''"
    by (simp add: no_errors_in)
  have "fresh_since (clk (wd_env w)) (sync_all S w) k" if k: "k \<in> set (sc_types (sy_cfg S))" for k
  proof -
    from k outcomes(1) obtain v where v: "(k, v) \<in> set (zip (sc_types (sy_cfg S)) vs)" by (metis in_set_impl_in_set_zip1)
    with ok outcomes(4) [OF v] show ?thesis by auto
  qed
  with outcomes(6) show ?case by (simp add: list_all_iff)
qed

end

text \<open>
  C11. A cycle without errors makes the worker ready: when a cycle over the configured types logs no
  error, every type is live until a whole cache TTL after the start of the cycle, so \<open>/readyz\<close> is 200
  at any time before that.
\<close>

theorem clean_cycle_ready:
  assumes "worker_clock S clk"
    and "set (sc_types (sy_cfg S)) \<subseteq> set wire_names" "sc_types (sy_cfg S) \<noteq> []"
    and "hs_required (wd_health w) = sc_types (sy_cfg S)"
    and "error_lines (ob_log (wd_obs (sync_all S w))) = error_lines (ob_log (wd_obs w))"
    and "valid_time now" "nanos now < clk (wd_env w) + sc_cache_ttl (sy_cfg S)"
  shows "ready (wd_health (sync_all S w)) now = (True, [])"
proof -
  note c = worker_clock.clean_cycle [OF assms(1,2,5)]
  have "filter (\<lambda>t. \<not> live (wd_health (sync_all S w)) now t) (sc_types (sy_cfg S)) = []"
    using c worker_clock.fresh_since_live [OF assms(1) _ assms(6,7)] by (simp add: list_all_iff)
  with c assms(3,4) show ?thesis by (simp add: ready_filter)
qed

text \<open>
  C12. One broken type does not starve the others: whatever the outcomes, a cycle polls every
  configured type exactly once, in configuration order (one \<open>trust_cache_sync_total\<close> count each), and
  logs one error line per failed type and no other. A type whose poll succeeds is live until a whole cache TTL
  after the start of the cycle however the others fared, and one whose polls all fail keeps its record as it was.
\<close>

theorem no_type_starves_another:
  assumes "worker_clock S clk" "set (sc_types (sy_cfg S)) \<subseteq> set wire_names"
  shows "\<exists>vs. length vs = length (sc_types (sy_cfg S)) \<and>
    sync_counts (ob_metrics (wd_obs (sync_all S w))) =
      sync_counts (ob_metrics (wd_obs w)) @ zip (sc_types (sy_cfg S)) vs \<and>
    error_lines (ob_log (wd_obs (sync_all S w))) =
      error_lines (ob_log (wd_obs w)) + errors_in (zip (sc_types (sy_cfg S)) vs) \<and>
    (\<forall>(k, v) \<in> set (zip (sc_types (sy_cfg S)) vs). v \<noteq> ''error'' \<longrightarrow>
       (\<forall>now. valid_time now \<and> nanos now < clk (wd_env w) + sc_cache_ttl (sy_cfg S) \<longrightarrow>
          live (wd_health (sync_all S w)) now k)) \<and>
    (\<forall>k. (\<forall>v. (k, v) \<in> set (zip (sc_types (sy_cfg S)) vs) \<longrightarrow> v = ''error'') \<longrightarrow>
       hs_fresh (wd_health (sync_all S w)) k = hs_fresh (wd_health w) k)"
proof (rule worker_clock.sync_all_outcomes [OF assms(1,2), of w], goal_cases outcomes)
  case (outcomes vs)
  have "live (wd_health (sync_all S w)) now k"
    if "(k, v) \<in> set (zip (sc_types (sy_cfg S)) vs)" "v \<noteq> ''error''" "valid_time now"
      "nanos now < clk (wd_env w) + sc_cache_ttl (sy_cfg S)" for k v now
    by (rule worker_clock.fresh_since_live [OF assms(1) outcomes(4) [OF that(1,2)] that(3,4)])
  with outcomes(1-3,5) show ?case by (intro exI [of _ vs]) auto
qed

interpretation ref_clock: worker_clock ref_syncer "\<lambda>c. nanos (time_unix (re_time c mod 4000000000))"
proof unfold_locales
  fix c t c'
  assume "sy_now ref_syncer c = (t, c')"
  moreover have "0 \<le> n mod 4000000000" "n mod 4000000000 < (4000000000 :: int)" for n by simp_all
  ultimately show "valid_time t \<and> add_in_range t (sc_cache_ttl (sy_cfg ref_syncer)) \<and>
      nanos (time_unix (re_time c mod 4000000000)) \<le> nanos t \<and> nanos t \<le> nanos (time_unix (re_time c' mod 4000000000))"
    by (auto simp: ref_syncer_def valid_time_def is_i64_def time_unix_def add_in_range_def nanos_def second_def minute_def
        i64_def)
next
  fix a x e c r c'
  assume "tc_anchors (sy_client ref_syncer) a x e c = (r, c')"
  then show "nanos (time_unix (re_time c mod 4000000000)) \<le> nanos (time_unix (re_time c' mod 4000000000))"
    by (auto simp: ref_syncer_def ref_client_def split: list.splits)
qed

theorem clean_cycle_ready_witness:
  "ready (wd_health (sync_all ref_syncer lost_world)) (time_unix 1783166460) = (True, [])"
proof -
  have types: "sc_types (sy_cfg ref_syncer) = [''pid_provider'']" by (simp add: ref_syncer_def)
  obtain w' where run: "sync_type ref_syncer PIDProvider lost_world = (Inr (), w')"
    using lost_world_poll(2) by blast
  have "parse_types [''pid_provider''] = Inr [PIDProvider]" by (simp add: parse_types_ok)
  with run types have "sync_all ref_syncer lost_world = w'" by (simp add: sync_all_def)
  moreover have "error_lines (ob_log (wd_obs w')) = error_lines (ob_log (wd_obs lost_world))"
    using sync_type_counts [OF wire_pid run] by blast
  ultimately have clean: "error_lines (ob_log (wd_obs (sync_all ref_syncer lost_world))) =
      error_lines (ob_log (wd_obs lost_world))" by simp
  have now: "valid_time (time_unix 1783166460)"
    "nanos (time_unix 1783166460) < nanos (time_unix (re_time (wd_env lost_world) mod 4000000000)) +
       sc_cache_ttl (sy_cfg ref_syncer)"
    by (simp_all add: valid_time_def is_i64_def time_unix_def i64_def nanos_def second_def minute_def ref_syncer_def
        lost_world_def ref_world_def)
  show ?thesis
    by (rule clean_cycle_ready [OF ref_clock.worker_clock_axioms _ _ _ clean now])
      (simp_all add: types lost_world_def ref_world_def new_state_def)
qed

theorem no_type_starves_another_witness:
  "sync_counts (ob_metrics (wd_obs (sync_all ref_syncer fresh_world))) = [(''pid_provider'', ''updated'')] \<and>
   live (wd_health (sync_all ref_syncer fresh_world)) (time_unix 1783166460) ''pid_provider''"
proof -
  have types: "sc_types (sy_cfg ref_syncer) = [''pid_provider'']" by (simp add: ref_syncer_def)
  obtain w' where run: "sync_type ref_syncer PIDProvider fresh_world = (Inr (), w')"
    using fresh_world_poll(2) by blast
  have "parse_types [''pid_provider''] = Inr [PIDProvider]" by (simp add: parse_types_ok)
  with run types have all: "sync_all ref_syncer fresh_world = w'" by (simp add: sync_all_def)
  have c: "sync_counts (ob_metrics (wd_obs w')) = [(''pid_provider'', ''updated'')]"
    by (rule sync_type_cases [OF wire_pid run])
      (use fresh_world_poll(1) in \<open>auto simp: sync_labels_def outcome_def fresh_world_def ref_world_def no_obs_def polled_def\<close>)
  have now: "valid_time (time_unix 1783166460)"
    "nanos (time_unix 1783166460) < nanos (time_unix (re_time (wd_env fresh_world) mod 4000000000)) +
       sc_cache_ttl (sy_cfg ref_syncer)"
    by (simp_all add: valid_time_def is_i64_def time_unix_def i64_def nanos_def second_def minute_def ref_syncer_def
        fresh_world_def ref_world_def)
  have none: "sync_counts (ob_metrics (wd_obs fresh_world)) = []" by (simp add: fresh_world_def ref_world_def no_obs_def)
  have known: "set (sc_types (sy_cfg ref_syncer)) \<subseteq> set wire_names" by (simp add: types)
  show ?thesis
    using no_type_starves_another [OF ref_clock.worker_clock_axioms known, of fresh_world] c now
    by (auto simp: all types none length_Suc_conv)
qed

section \<open>Readiness is backed by the cache\<close>

text \<open>Every entry carries the freshness record's horizon.\<close>

definition aligned :: "type_cache \<Rightarrow> bool" where
  "aligned tc \<longleftrightarrow>
     (\<forall>x e. tc_entries tc x = Some e \<longrightarrow>
        (\<exists>f. tc_freshness tc = Some f \<and> en_valid_until e = fr_valid_until f))"

text \<open>What holds of one type at instant \<open>n\<close>: its cache is aligned, its horizon is at most a TTL
  ahead, and a horizon the readiness state has recorded is covered by the cache's.\<close>

definition type_ok :: "int \<Rightarrow> duration \<Rightarrow> type_cache \<Rightarrow> fresh_record option \<Rightarrow> bool" where
  "type_ok n ttl tc hf \<longleftrightarrow>
     aligned tc \<and>
     (\<forall>f. tc_freshness tc = Some f \<longrightarrow> valid_time (fr_valid_until f) \<and> nanos (fr_valid_until f) \<le> n + ttl) \<and>
     (\<forall>fr. hf = Some fr \<longrightarrow> valid_time (validUntil fr) \<and>
        (\<exists>f. tc_freshness tc = Some f \<and> nanos (validUntil fr) \<le> nanos (fr_valid_until f)))"

lemma type_ok_mono: "type_ok n ttl tc hf \<Longrightarrow> n \<le> n' \<Longrightarrow> type_ok n' ttl tc hf"
  by (force simp: type_ok_def)

lemma type_ok_write:
  assumes "type_ok n ttl tc hf" "aligned tc'" "tc_freshness tc' = Some f" "valid_time (fr_valid_until f)"
    and "n + ttl \<le> nanos (fr_valid_until f)" "nanos (fr_valid_until f) \<le> n' + ttl"
  shows "type_ok n' ttl tc' hf" "validUntil fr = fr_valid_until f \<Longrightarrow> type_ok n' ttl tc' (Some fr)"
  using assms by (force simp: type_ok_def)+

lemma type_ok_backs:
  assumes "type_ok n ttl tc (Some fr)"
  shows "\<exists>f. tc_freshness tc = Some f \<and> nanos (validUntil fr) \<le> nanos (fr_valid_until f) \<and>
    (\<forall>x e. tc_entries tc x = Some e \<longrightarrow> en_valid_until e = fr_valid_until f) \<and>
    (\<forall>now. valid_time now \<longrightarrow> time_before now (validUntil fr) \<longrightarrow> time_before now (fr_valid_until f))"
proof -
  from assms obtain f where f: "tc_freshness tc = Some f" "nanos (validUntil fr) \<le> nanos (fr_valid_until f)"
    "valid_time (validUntil fr)" "valid_time (fr_valid_until f)" by (auto simp: type_ok_def)
  have "en_valid_until e = fr_valid_until f" if "tc_entries tc x = Some e" for x e
    using assms that f(1) by (auto simp: type_ok_def aligned_def)
  with f show ?thesis by (auto simp: nanos_before)
qed

lemma aligned_swap:
  assumes "\<forall>e \<in> set (sw_entries sw). en_valid_until e = fr_valid_until (sw_freshness sw)"
  shows "aligned (spec_swap sw)"
  using assms by (auto simp: aligned_def spec_swap_def dest!: map_of_SomeD)

lemma aligned_refresh: "aligned (spec_refresh f tc)"
  by (auto simp: aligned_def)

lemma aligned_poll_swap: "aligned (spec_swap (poll_swap S t k aset w))"
  by (rule aligned_swap) (auto simp: poll_swap_def entries_are entry_of_def)

text \<open>What a poll writes survives the JSON round trip.\<close>

definition poll_ok ::
  "(anchor_set_entry \<Rightarrow> bool) \<Rightarrow> (string list \<Rightarrow> bool) \<Rightarrow> (type_freshness \<Rightarrow> bool) \<Rightarrow> ('s, 'c) syncer \<Rightarrow> anchor_type
   \<Rightarrow> ('s, 'c) world \<Rightarrow> bool" where
  "poll_ok we wi wfr S t w \<longleftrightarrow>
     (\<forall>k aset. wire_type t = Inr k \<longrightarrow> fst (anchors_call S t w) = Inr (aset, True) \<longrightarrow>
        representable we wi wfr (poll_swap S t k aset w)) \<and>
     wfr (poll_fresh S t (etag t w) False w)"

context valkey_store
begin

lemma poll_others:
  assumes S: "syncer_on st K C S" and wire: "wire = set wire_names" "wire_type t = Inr k"
    and rep: "poll_ok wf_entry wf_index wf_freshness S t w" and run: "sync_type S t w = (r, w')"
    and u: "u \<in> wire" "u \<noteq> k"
  shows "abs_type K C (st_prefix st) (view (wd_store w')) u = abs_type K C (st_prefix st) (view (wd_store w)) u \<and>
    index_covers K C (st_prefix st) (view (wd_store w')) u = index_covers K C (st_prefix st) (view (wd_store w)) u \<and>
    hs_fresh (wd_health w') u = hs_fresh (wd_health w) u"
proof -
  have k: "k \<in> wire" using wire_type_in_names [OF wire(2)] by (simp add: wire(1))
  have I: "sy_store S = valkey_iface st K C" "second \<le> sc_cache_ttl (sy_cfg S)"
    using S by (simp_all add: syncer_on_def)
  have wf: "swap_wf wire wf_entry wf_index wf_freshness (poll_swap S t k aset w)"
    if "fst (anchors_call S t w) = Inr (aset, True)" for aset
    using poll_swap_wf [OF S wire(2)] rep wire that by (simp add: poll_ok_def)
  note frames = anchors.swap_others [OF wf _ u(1)] anchors.refresh_others [OF k I(2) _ u]
  show ?thesis
    by (rule sync_type_cases [OF wire(2) run]) (use frames u(2) I in auto)
qed

definition world_ok :: "('c \<Rightarrow> int) \<Rightarrow> ('s, 'c) syncer \<Rightarrow> ('s, 'c) world \<Rightarrow> bool" where
  "world_ok clk S w \<longleftrightarrow>
     (\<forall>k \<in> wire. index_covers K C (st_prefix st) (view (wd_store w)) k \<and>
        type_ok (clk (wd_env w)) (sc_cache_ttl (sy_cfg S)) (abs_type K C (st_prefix st) (view (wd_store w)) k)
          (hs_fresh (wd_health w) k))"

lemma poll_type_ok:
  assumes clock: "worker_clock S clk" and S: "syncer_on st K C S" and wire: "wire = set wire_names"
    and Inr: "wire_type t = Inr k" and rep: "poll_ok wf_entry wf_index wf_freshness S t w" and run: "sync_type S t w = (r, w')"
    and ok: "type_ok (clk (wd_env w)) (sc_cache_ttl (sy_cfg S)) (abs_type K C (st_prefix st) (view (wd_store w)) k)
      (hs_fresh (wd_health w) k)"
    and cov: "index_covers K C (st_prefix st) (view (wd_store w)) k"
  shows "type_ok (clk (wd_env w')) (sc_cache_ttl (sy_cfg S)) (abs_type K C (st_prefix st) (view (wd_store w')) k)
      (hs_fresh (wd_health w') k) \<and> index_covers K C (st_prefix st) (view (wd_store w')) k"
proof -
  let ?c = "\<lambda>w. abs_type K C (st_prefix st) (view (wd_store w)) k" and ?n = "\<lambda>w. clk (wd_env w)"
    and ?ttl = "sc_cache_ttl (sy_cfg S)" and ?h = "\<lambda>w. hs_fresh (wd_health w) k"
  note mono = worker_clock.sync_type_clock [OF clock run]
  note pc = worker_clock.poll_clock [OF clock, where t = t and w = w]
  have env: "?n w' = clk (poll_end S t w)" if "fst (anchors_call S t w) = Inr q" for q
    by (rule sync_type_cases [OF Inr run]) (use that in auto)
  have new: "type_ok (?n w') ?ttl tc (?h w) \<and> (\<forall>fr. validUntil fr = fr_valid_until f \<longrightarrow> type_ok (?n w') ?ttl tc (Some fr))"
    if "fst (anchors_call S t w) = Inr q" "aligned tc" "tc_freshness tc = Some f"
      "fr_valid_until f = time_add (poll_now S t w) ?ttl" for q tc f
    using that env [OF that(1)] pc by (intro conjI allI impI type_ok_write [OF ok that(2,3)]) simp_all
  show ?thesis
  proof (cases "fst (anchors_call S t w)")
    case (Inl e)
    have "wd_store w' = wd_store w \<and> wd_health w' = wd_health w"
      by (rule sync_type_cases [OF Inr run]) (use Inl in auto)
    with ok cov mono show ?thesis by (simp add: type_ok_mono)
  next
    case q: (Inr q)
    obtain aset m where am: "q = (aset, m)" by force
    show ?thesis
    proof (cases m)
      case True
      with q am have reply: "fst (anchors_call S t w) = Inr (aset, True)" by simp
      have rep': "representable wf_entry wf_index wf_freshness (poll_swap S t k aset w)"
        using rep reply Inr by (simp add: poll_ok_def)
      note n = new [of "(aset, True)" "spec_swap (poll_swap S t k aset w)"
          "poll_fresh S t (as_snapshot aset) (as_stale aset) w", OF reply aligned_poll_swap, simplified]
      show ?thesis
        by (rule poll_200 [OF S wire Inr cov reply rep' run])
          (use n type_ok_mono [OF ok mono] in auto)
    next
      case False
      with q am have reply: "fst (anchors_call S t w) = Inr (aset, False)" by simp
      have rep': "wf_freshness (poll_fresh S t (etag t w) False w)"
        using rep by (simp add: poll_ok_def)
      note n = new [of "(aset, False)" "spec_refresh (poll_fresh S t (etag t w) False w) (?c w)"
          "poll_fresh S t (etag t w) False w", OF reply aligned_refresh, simplified]
      show ?thesis
        by (rule poll_304 [OF S wire Inr cov reply rep' run])
          (use n type_ok_mono [OF ok mono] in auto)
    qed
  qed
qed

lemma world_ok_poll:
  assumes clock: "worker_clock S clk" and S: "syncer_on st K C S" and wire: "wire = set wire_names"
    and rep: "poll_ok wf_entry wf_index wf_freshness S t w" and run: "sync_type S t w = (r, w')"
    and inv: "world_ok clk S w"
  shows "world_ok clk S w'"
proof (cases "wire_type t")
  case (Inl e)
  with run inv show ?thesis by (simp add: sync_type_def)
next
  case (Inr k)
  note mono = worker_clock.sync_type_clock [OF clock run]
  have "k \<in> wire" using wire_type_in_names [OF Inr] by (simp add: wire)
  with inv have this_type: "type_ok (clk (wd_env w')) (sc_cache_ttl (sy_cfg S))
      (abs_type K C (st_prefix st) (view (wd_store w')) k) (hs_fresh (wd_health w') k) \<and>
      index_covers K C (st_prefix st) (view (wd_store w')) k"
    by (intro poll_type_ok [OF clock S wire Inr rep run]) (simp_all add: world_ok_def)
  have "type_ok (clk (wd_env w')) (sc_cache_ttl (sy_cfg S)) (abs_type K C (st_prefix st) (view (wd_store w')) u) (hs_fresh (wd_health w') u) \<and>
      index_covers K C (st_prefix st) (view (wd_store w')) u" if u: "u \<in> wire" "u \<noteq> k" for u
    using poll_others [OF S wire Inr rep run u] inv u(1) type_ok_mono [OF _ mono] by (simp add: world_ok_def)
  with this_type show ?thesis unfolding world_ok_def by metis
qed

end

lemma fresh_world_empty:
  "abs_type ref_keys ref_codec (st_prefix ref_store) (rs_ks (wd_store fresh_world)) k = empty_cache"
  by (simp add: abs_type_def entry_at_def etag_at_def freshness_at_def fresh_world_def ref_world_def ref_srv_def
      empty_ks_def empty_cache_def fun_eq_iff)

end
