(* ===== verification/Telemetry.thy ===== *)
theory Telemetry
  imports Syncer Store_Properties "HOL-Library.Multiset"
begin

text \<open>
  \<open>internal/telemetry/poller.go\<close>: one poll of \<open>/v1/snapshot\<close>, published to the cache, the readiness
  state and the gauges. The effects go through the same \<open>world\<close> as the syncer's.
\<close>

section \<open>The poller\<close>

text \<open>The Go interface \<open>SnapshotStore\<close>, at the one type the poller stores.\<close>

record 's snapshot_store =
  ss_set_json :: "string \<Rightarrow> snapshot_health \<Rightarrow> duration \<Rightarrow> 's \<Rightarrow> unit result \<times> 's"

definition valkey_snapshots :: "'s store \<Rightarrow> codec \<Rightarrow> 's snapshot_store" where
  "valkey_snapshots st C = \<lparr>ss_set_json = set_json st (enc_health C)\<rparr>"

record ('s, 'c) poller =
  po_client :: "'c trust_client"
  po_store :: "'s snapshot_store"
  po_fresh_for :: duration
  po_now :: "'c \<Rightarrow> gotime \<times> 'c"
  po_keys :: key_contract
  po_order :: "'c \<Rightarrow> string list \<Rightarrow> string list"

definition safe_uint64 :: "int \<Rightarrow> int" where
  "safe_uint64 v = (if v < 0 then 0 else u64 v)"

fun any_stale :: "territory_status list \<Rightarrow> bool" where
  "any_stale [] = False"
| "any_stale (t # ts) = (if ts_stale t then True else any_stale ts)"

text \<open>The map of territories, with its keys in the order of first insertion.\<close>

fun health_territories :: "(string \<Rightarrow> string) \<Rightarrow> territory_status list \<Rightarrow> (string \<Rightarrow> territory_health option)
    \<Rightarrow> (string \<Rightarrow> territory_health option)" where
  "health_territories nrm [] m = m"
| "health_territories nrm (t # ts) m =
     health_territories nrm ts (m(nrm (ts_code t) \<mapsto>
       \<lparr>th_tl_sequence = safe_uint64 (ts_tl_sequence t), th_stale = ts_stale t, th_next_update = ts_next_update t\<rparr>))"

definition territory_codes :: "(string \<Rightarrow> string) \<Rightarrow> territory_status list \<Rightarrow> string list" where
  "territory_codes nrm ts = remdups (map (\<lambda>t. nrm (ts_code t)) ts)"

definition snapshot_health_of :: "(string \<Rightarrow> string) \<Rightarrow> snapshot_meta \<Rightarrow> gotime \<Rightarrow> snapshot_health" where
  "snapshot_health_of nrm meta now =
     \<lparr>sh_snapshot_id = sm_id meta, sh_lotl_sequence = sm_lotl_sequence meta, sh_checked_at = now,
      sh_upstream_stale = any_stale (sm_territories meta), sh_pending_bootstrap = sm_pending_bootstrap meta,
      sh_territories = health_territories nrm (sm_territories meta) Map.empty\<rparr>"

definition count_poll :: "string \<Rightarrow> ('s, 'c) world \<Rightarrow> ('s, 'c) world" where
  "count_poll v = w_metric (IncCounter ''trust_cache_snapshot_poll_total'' [outcome v])"

definition w_set_snapshot :: "string list \<Rightarrow> snapshot_health \<Rightarrow> ('s, 'c) world \<Rightarrow> ('s, 'c) world" where
  "w_set_snapshot order sh w =
     (let (h, rg) = set_snapshot order sh (wd_health w, wd_reg w) in w\<lparr>wd_health := h, wd_reg := rg\<rparr>)"

definition poll :: "('s, 'c) poller \<Rightarrow> ('s, 'c) world \<Rightarrow> unit result \<times> ('s, 'c) world" where
  "poll P w =
     (let (resp, c) = tc_snapshot (po_client P) (wd_env w); w1 = w\<lparr>wd_env := c\<rparr>
      in case resp of
           Inl e \<Rightarrow> (Inl (ErrWrap ''telemetry: snapshot: '' e), count_poll ''error'' w1)
         | Inr meta \<Rightarrow>
             (let (now, c2) = po_now P c; w2 = w1\<lparr>wd_env := c2\<rparr>;
                  nrm = normalize_territory (po_keys P);
                  h = snapshot_health_of nrm meta now;
                  (r, s) = ss_set_json (po_store P) (snapshot_health_key (po_keys P)) h (po_fresh_for P) (wd_store w2);
                  w3 = w2\<lparr>wd_store := s\<rparr>
              in case r of
                   Inl e \<Rightarrow> (Inl (ErrWrap ''telemetry: publish snapshot health: '' e), count_poll ''error'' w3)
                 | Inr _ \<Rightarrow>
                     (let w4 = w_set_snapshot (po_order P c2 (territory_codes nrm (sm_territories meta))) h w3;
                          w5 = (if sh_pending_bootstrap h
                                then w_log LWarn ''upstream trust service has a pending LOTL bootstrap awaiting operator approval (trust.bootstrap_review_needed)''
                                       [(''snapshot'', LvStr (sm_id meta))] w4
                                else w4);
                          w6 = (if sh_upstream_stale h
                                then w_log LWarn ''trust service reports stale trust data (X-Trust-Stale)''
                                       [(''snapshot'', LvStr (sm_id meta))] w5
                                else w5)
                      in (Inr (), count_poll ''success'' w6))))"

section \<open>Lemmas\<close>

lemma any_stale_iff: "any_stale ts \<longleftrightarrow> (\<exists>t \<in> set ts. ts_stale t)"
  by (induction ts) auto

lemma health_territories_other:
  "x \<notin> (\<lambda>t. nrm (ts_code t)) ` set ts \<Longrightarrow> health_territories nrm ts m x = m x"
  by (induction ts arbitrary: m) auto

lemma health_territories_split:
  assumes "\<forall>u \<in> set us. nrm (ts_code u) \<noteq> nrm (ts_code t)"
  shows "health_territories nrm (ts @ t # us) m (nrm (ts_code t)) = Some
    \<lparr>th_tl_sequence = safe_uint64 (ts_tl_sequence t), th_stale = ts_stale t, th_next_update = ts_next_update t\<rparr>"
proof -
  have "health_territories nrm (ts @ rs) m = health_territories nrm rs (health_territories nrm ts m)" for rs
    by (induction ts arbitrary: m) auto
  moreover have "nrm (ts_code t) \<notin> (\<lambda>t. nrm (ts_code t)) ` set us" using assms by force
  ultimately show ?thesis by (simp add: health_territories_other)
qed

lemma health_territories_dom:
  "dom (health_territories nrm ts m) = dom m \<union> (\<lambda>t. nrm (ts_code t)) ` set ts"
  by (induction ts arbitrary: m) auto

lemma poll_world_simps [simp]:
  "wd_store (count_poll v w) = wd_store w" "wd_health (count_poll v w) = wd_health w"
  "wd_reg (count_poll v w) = wd_reg w" "wd_etags (count_poll v w) = wd_etags w"
  "wd_obs (count_poll v w) = add_metric (IncCounter ''trust_cache_snapshot_poll_total'' [outcome v]) (wd_obs w)"
  "wd_store (w_set_snapshot order sh w) = wd_store w" "wd_etags (w_set_snapshot order sh w) = wd_etags w"
  "wd_health (w_set_snapshot order sh w) = record_snapshot sh (wd_health w)"
  "wd_reg (w_set_snapshot order sh w) = fold register_territory_gauge order (wd_reg w)"
  "wd_obs (w_set_snapshot order sh w) = wd_obs w"
  by (simp_all add: count_poll_def w_set_snapshot_def set_snapshot_def)

lemma snapshot_health_of_simps [simp]:
  "sh_upstream_stale (snapshot_health_of nrm meta now) = any_stale (sm_territories meta)"
  "sh_pending_bootstrap (snapshot_health_of nrm meta now) = sm_pending_bootstrap meta"
  "sh_snapshot_id (snapshot_health_of nrm meta now) = sm_id meta"
  "sh_lotl_sequence (snapshot_health_of nrm meta now) = sm_lotl_sequence meta"
  "sh_checked_at (snapshot_health_of nrm meta now) = now"
  "sh_territories (snapshot_health_of nrm meta now) = health_territories nrm (sm_territories meta) Map.empty"
  by (simp_all add: snapshot_health_of_def)

text \<open>The phases of a poll.\<close>

definition snapshot_call :: "('s, 'c) poller \<Rightarrow> ('s, 'c) world \<Rightarrow> snapshot_meta result \<times> 'c" where
  "snapshot_call P w = tc_snapshot (po_client P) (wd_env w)"

definition polled_health :: "('s, 'c) poller \<Rightarrow> snapshot_meta \<Rightarrow> ('s, 'c) world \<Rightarrow> snapshot_health" where
  "polled_health P meta w =
     snapshot_health_of (normalize_territory (po_keys P)) meta (fst (po_now P (snd (snapshot_call P w))))"

text \<open>The warnings of a successful poll, pending bootstrap first.\<close>

definition poll_alerts :: "snapshot_meta \<Rightarrow> log_entry list" where
  "poll_alerts meta =
     (if sm_pending_bootstrap meta then [\<lparr>le_level = LWarn, le_msg =
        ''upstream trust service has a pending LOTL bootstrap awaiting operator approval (trust.bootstrap_review_needed)'',
        le_fields = [(''snapshot'', LvStr (sm_id meta))]\<rparr>] else []) @
     (if any_stale (sm_territories meta) then [\<lparr>le_level = LWarn, le_msg =
        ''trust service reports stale trust data (X-Trust-Stale)'',
        le_fields = [(''snapshot'', LvStr (sm_id meta))]\<rparr>] else [])"

lemma poll_cases:
  assumes "poll P w = (r, w')"
  obtains (upstream) e where "fst (snapshot_call P w) = Inl e" "r = Inl (ErrWrap ''telemetry: snapshot: '' e)"
      "w' = count_poll ''error'' (w\<lparr>wd_env := snd (snapshot_call P w)\<rparr>)"
    | (unpublished) meta e s c where "fst (snapshot_call P w) = Inr meta"
      "ss_set_json (po_store P) (snapshot_health_key (po_keys P)) (polled_health P meta w) (po_fresh_for P) (wd_store w) =
         (Inl e, s)"
      "r = Inl (ErrWrap ''telemetry: publish snapshot health: '' e)"
      "w' = count_poll ''error'' (w\<lparr>wd_env := c, wd_store := s\<rparr>)"
    | (published) meta s c ls where "fst (snapshot_call P w) = Inr meta"
      "ss_set_json (po_store P) (snapshot_health_key (po_keys P)) (polled_health P meta w) (po_fresh_for P) (wd_store w) =
         (Inr (), s)"
      "r = Inr ()" "wd_store w' = s" "wd_health w' = record_snapshot (polled_health P meta w) (wd_health w)"
      "wd_reg w' = fold register_territory_gauge
         (po_order P c (territory_codes (normalize_territory (po_keys P)) (sm_territories meta))) (wd_reg w)"
      "wd_etags w' = wd_etags w"
      "ob_metrics (wd_obs w') = ob_metrics (wd_obs w) @ [IncCounter ''trust_cache_snapshot_poll_total'' [outcome ''success'']]"
      "ob_log (wd_obs w') = ob_log (wd_obs w) @ ls"
      "length ls = (if sm_pending_bootstrap meta then 1 else 0) + (if any_stale (sm_territories meta) then 1 else 0)"
      "list_all (\<lambda>l. le_level l = LWarn) ls"
      "ls = poll_alerts meta"
proof (cases "fst (snapshot_call P w)")
  case (Inl e)
  with assms show ?thesis by (intro upstream) (auto simp: poll_def snapshot_call_def split: prod.splits)
next
  case (Inr meta)
  obtain c where c: "snapshot_call P w = (Inr meta, c)" using Inr by (cases "snapshot_call P w") auto
  obtain now c2 where n: "po_now P c = (now, c2)" by force
  obtain q s where q: "ss_set_json (po_store P) (snapshot_health_key (po_keys P)) (polled_health P meta w)
      (po_fresh_for P) (wd_store w) = (q, s)" by force
  have h: "polled_health P meta w = snapshot_health_of (normalize_territory (po_keys P)) meta now"
    by (simp add: polled_health_def c n)
  show ?thesis
  proof (cases q)
    case (Inl e)
    with assms q Inr h show ?thesis
      by (intro unpublished [of meta e s c2]) (auto simp: poll_def c [unfolded snapshot_call_def] n)
  next
    case ok: (Inr u)
    let ?ls = "poll_alerts meta"
    from assms q ok h have w': "r = Inr ()" "wd_store w' = s"
      "wd_health w' = record_snapshot (polled_health P meta w) (wd_health w)"
      "wd_reg w' = fold register_territory_gauge
         (po_order P c2 (territory_codes (normalize_territory (po_keys P)) (sm_territories meta))) (wd_reg w)"
      "wd_etags w' = wd_etags w"
      "ob_metrics (wd_obs w') = ob_metrics (wd_obs w) @ [IncCounter ''trust_cache_snapshot_poll_total'' [outcome ''success'']]"
      "ob_log (wd_obs w') = ob_log (wd_obs w) @ ?ls"
      by (auto simp: poll_def c [unfolded snapshot_call_def] n Let_def poll_alerts_def)
    from q ok Inr w' show ?thesis by (intro published [of meta s c2 ?ls]) (simp_all add: poll_alerts_def)
  qed
qed

section \<open>Properties\<close>

text \<open>
  The telemetry poll fails closed: when the trust service or the write fails, the error is
  returned and counted, and the readiness state, the gauges and the etags are unchanged; when the
  trust service fails, the store is not called either, so the published record ages toward its TTL.
\<close>

lemma poll_failure_publishes_nothing:
  assumes "poll P w = (r, w')" "\<not> is_ok r"
  shows "wd_health w' = wd_health w \<and> wd_reg w' = wd_reg w \<and> wd_etags w' = wd_etags w \<and>
    ob_log (wd_obs w') = ob_log (wd_obs w) \<and>
    ob_metrics (wd_obs w') =
      ob_metrics (wd_obs w) @ [IncCounter ''trust_cache_snapshot_poll_total'' [outcome ''error'']] \<and>
    (\<forall>e. fst (snapshot_call P w) = Inl e \<longrightarrow> wd_store w' = wd_store w)"
  by (rule poll_cases [OF assms(1)]) (use assms(2) in auto)

text \<open>A poller on the reference store whose trust service gives one fixed answer.\<close>

definition ref_poller :: "snapshot_meta result \<Rightarrow> (refsrv, unit) poller" where
  "ref_poller resp =
     \<lparr>po_client = \<lparr>tc_anchors = (\<lambda>t x e c. (Inl (ErrMsg ''unused''), c)), tc_snapshot = (\<lambda>c. (resp, c))\<rparr>,
      po_store = valkey_snapshots ref_store ref_codec, po_fresh_for = 15 * minute,
      po_now = (\<lambda>c. (time_unix 1783166400, c)), po_keys = ref_keys, po_order = (\<lambda>c. rev)\<rparr>"

definition poller_world :: "(refsrv, unit) world" where
  "poller_world =
     \<lparr>wd_store = ref_srv, wd_env = (), wd_health = new_state [], wd_reg = empty_registry,
      wd_etags = Map.empty, wd_obs = no_obs\<rparr>"

lemma poll_failure_publishes_nothing_instance:
  "\<exists>r w'. poll (ref_poller (Inl (ErrMsg ''503''))) poller_world = (r, w') \<and> \<not> is_ok r \<and> wd_store w' = ref_srv"
proof -
  obtain r w' where run: "poll (ref_poller (Inl (ErrMsg ''503''))) poller_world = (r, w')" by force
  then have "\<not> is_ok r" by (auto simp: poll_def ref_poller_def)
  from poll_failure_publishes_nothing [OF run this] run this show ?thesis
    by (auto simp: snapshot_call_def ref_poller_def poller_world_def)
qed

text \<open>\<open>safeUint64\<close> never wraps.\<close>

lemma safe_uint64_no_wrap:
  assumes "is_i64 v"
  shows "safe_uint64 v = max 0 v \<and> 0 \<le> safe_uint64 v \<and> safe_uint64 v < 2 ^ 63"
  using assms u64_of_nonneg_i64 [OF assms] by (auto simp: safe_uint64_def is_i64_def)

lemma safe_uint64_no_wrap_instance: "safe_uint64 (- 7) = 0"
  using safe_uint64_no_wrap [of "- 7"] by (simp add: is_i64_def)

text \<open>
  C24. A successful poll publishes the snapshot's health, bounded and conservative. The store's health key holds the
  encoded record with an expiry of at most \<open>freshFor\<close>, and the same record is the readiness state's. It has the
  snapshot's id, LOTL sequence and pending flag, the reading of the clock taken after the answer, and a stale flag that
  is the OR over all territories; each territory that occurs, and no other, has the flag and the next update of its
  last occurrence and its sequence number, with zero for a negative one. The log gets exactly the alerts that apply,
  each with the snapshot id, the pending bootstrap before the staleness, and one success is counted.
\<close>

theorem poll_publishes_health:
  assumes "valkey_store st view ex_ms K wire C wf_entry wf_index wf_freshness"
    and "po_store P = valkey_snapshots st C" "po_keys P = K" "poll P w = (Inr (), w')"
    and "fst (tc_snapshot (po_client P) (wd_env w)) = Inr meta"
    and "\<forall>t \<in> set (sm_territories meta). is_i64 (ts_tl_sequence t)"
  shows "\<exists>h b ms. hs_snap (wd_health w') = Some h \<and> enc_health C h = Inr b \<and>
    ks_val (view (wd_store w')) (st_prefix st @ snapshot_health_key K) = Some (b, Some ms) \<and>
    0 < ms \<and> ms * millisecond \<le> po_fresh_for P \<and>
    sh_snapshot_id h = sm_id meta \<and> sh_lotl_sequence h = sm_lotl_sequence meta \<and>
    sh_checked_at h = fst (po_now P (snd (tc_snapshot (po_client P) (wd_env w)))) \<and>
    sh_pending_bootstrap h = sm_pending_bootstrap meta \<and>
    (sh_upstream_stale h \<longleftrightarrow> (\<exists>t \<in> set (sm_territories meta). ts_stale t)) \<and>
    dom (sh_territories h) = (\<lambda>t. normalize_territory K (ts_code t)) ` set (sm_territories meta) \<and>
    (\<forall>ts t us. sm_territories meta = ts @ t # us \<longrightarrow>
       (\<forall>u \<in> set us. normalize_territory K (ts_code u) \<noteq> normalize_territory K (ts_code t)) \<longrightarrow>
       sh_territories h (normalize_territory K (ts_code t)) = Some
         \<lparr>th_tl_sequence = (if ts_tl_sequence t < 0 then 0 else ts_tl_sequence t), th_stale = ts_stale t,
          th_next_update = ts_next_update t\<rparr>) \<and>
    ob_log (wd_obs w') = ob_log (wd_obs w) @
      (if sm_pending_bootstrap meta then [\<lparr>le_level = LWarn, le_msg =
         ''upstream trust service has a pending LOTL bootstrap awaiting operator approval (trust.bootstrap_review_needed)'',
         le_fields = [(''snapshot'', LvStr (sm_id meta))]\<rparr>] else []) @
      (if \<exists>t \<in> set (sm_territories meta). ts_stale t then [\<lparr>le_level = LWarn, le_msg =
         ''trust service reports stale trust data (X-Trust-Stale)'',
         le_fields = [(''snapshot'', LvStr (sm_id meta))]\<rparr>] else []) \<and>
    ob_metrics (wd_obs w') =
      ob_metrics (wd_obs w) @ [IncCounter ''trust_cache_snapshot_poll_total'' [(''outcome'', ''success'')]]"
proof (rule poll_cases [OF assms(4)], goal_cases upstream unpublished published)
  case (published meta' s c ls)
  have meta: "meta' = meta" using published(1) assms(5) by (simp add: snapshot_call_def)
  let ?h = "polled_health P meta w"
  have "set_json st (enc_health C) (snapshot_health_key K) ?h (po_fresh_for P) (wd_store w) = (Inr (), s)"
    using published(2) assms(2,3) by (simp add: valkey_snapshots_def meta)
  then obtain b where b: "enc_health C ?h = Inr b"
    "set_bytes st (snapshot_health_key K) b (po_fresh_for P) (wd_store w) = (Inr (), s)"
    by (auto simp: set_json_def split: sum.splits)
  have w: "second \<le> po_fresh_for P"
    "view s = cmd_effect ex_ms (CSetEx (st_key st (snapshot_health_key K)) b (po_fresh_for P)) (view (wd_store w))"
    by (rule valkey_store.set_bytes_cases [OF assms(1) b(2)]; simp)+
  have ex: "0 < ex_ms (po_fresh_for P)" "ex_ms (po_fresh_for P) * millisecond \<le> po_fresh_for P"
    using assms(1) w(1) by (simp_all add: valkey_store_def valkey_def)
  have territory: "sh_territories ?h (normalize_territory K (ts_code t)) = Some
      \<lparr>th_tl_sequence = (if ts_tl_sequence t < 0 then 0 else ts_tl_sequence t), th_stale = ts_stale t,
       th_next_update = ts_next_update t\<rparr>"
    if "sm_territories meta = ts @ t # us"
      "\<forall>u \<in> set us. normalize_territory K (ts_code u) \<noteq> normalize_territory K (ts_code t)" for ts t us
    using health_territories_split [OF that(2), of ts Map.empty] safe_uint64_no_wrap [of "ts_tl_sequence t"] that(1) assms(3,6)
    by (simp add: polled_health_def max_def)
  have recorded: "hs_snap (wd_health w') = Some ?h" "sh_snapshot_id ?h = sm_id meta" "sh_lotl_sequence ?h = sm_lotl_sequence meta"
    "sh_checked_at ?h = fst (po_now P (snd (tc_snapshot (po_client P) (wd_env w))))"
    "sh_pending_bootstrap ?h = sm_pending_bootstrap meta"
    "sh_upstream_stale ?h \<longleftrightarrow> (\<exists>t \<in> set (sm_territories meta). ts_stale t)"
    "dom (sh_territories ?h) = (\<lambda>t. normalize_territory K (ts_code t)) ` set (sm_territories meta)"
    using published(5) assms(3)
    by (simp_all add: meta polled_health_def snapshot_call_def any_stale_iff health_territories_dom)
  have key: "ks_val (view (wd_store w')) (st_prefix st @ snapshot_health_key K) = Some (b, Some (ex_ms (po_fresh_for P)))"
    using published(4) w(2) by (simp add: st_key_def)
  have events: "ob_log (wd_obs w') = ob_log (wd_obs w) @ poll_alerts meta"
    "ob_metrics (wd_obs w') =
       ob_metrics (wd_obs w) @ [IncCounter ''trust_cache_snapshot_poll_total'' [(''outcome'', ''success'')]]"
    using published(8,9,12) by (simp_all add: meta outcome_def)
  show ?case
    by (intro exI [of _ ?h] exI [of _ b] exI [of _ "ex_ms (po_fresh_for P)"] conjI allI impI)
      (rule recorded b(1) key ex territory events(1) [unfolded poll_alerts_def any_stale_iff] events(2), (assumption+)?)+
qed simp_all

definition sample_meta :: snapshot_meta where
  "sample_meta =
     \<lparr>sm_id = ''snap-1'', sm_lotl_sequence = 388, sm_pending_bootstrap = True,
      sm_territories = [\<lparr>ts_code = ''LV'', ts_tl_sequence = - 7, ts_stale = True, ts_next_update = None\<rparr>]\<rparr>"

lemma ref_set_json_ok: "fst (set_json ref_store (enc_health ref_codec) k h (15 * minute) ref_srv) = Inr ()"
  by (simp add: set_json_def ref_codec_def set_bytes_def do1_def ref_store_def ref_drv_def ref_reply_def ref_srv_def
      minute_def second_def Let_def)

theorem poll_publishes_health_witness:
  "\<exists>w' h. poll (ref_poller (Inr sample_meta)) poller_world = (Inr (), w') \<and> hs_snap (wd_health w') = Some h \<and>
     sh_upstream_stale h \<and> sh_checked_at h = time_unix 1783166400 \<and> length (ob_log (wd_obs w')) = 2 \<and>
     map_option th_tl_sequence (sh_territories h (normalize_territory ref_keys ''LV'')) = Some 0"
proof -
  obtain r w' where run: "poll (ref_poller (Inr sample_meta)) poller_world = (r, w')" by force
  have ok: "r = Inr ()"
  proof (rule poll_cases [OF run], goal_cases upstream unpublished published)
    case (unpublished meta e s c)
    then have "\<exists>k h. set_json ref_store (enc_health ref_codec) k h (15 * minute) ref_srv = (Inl e, s)"
      by (auto simp: ref_poller_def valkey_snapshots_def poller_world_def)
    then show ?case using ref_set_json_ok by (metis fst_conv sum.distinct(1))
  qed (simp_all add: snapshot_call_def ref_poller_def)
  have s: "po_store (ref_poller (Inr sample_meta)) = valkey_snapshots ref_store ref_codec"
    "po_keys (ref_poller (Inr sample_meta)) = ref_keys"
    "fst (tc_snapshot (po_client (ref_poller (Inr sample_meta))) (wd_env poller_world)) = Inr sample_meta"
    "\<forall>t \<in> set (sm_territories sample_meta). is_i64 (ts_tl_sequence t)"
    by (simp_all add: ref_poller_def sample_meta_def is_i64_def)
  have t: "sm_territories sample_meta = [] @ hd (sm_territories sample_meta) # []" by (simp add: sample_meta_def)
  from run ok have poll: "poll (ref_poller (Inr sample_meta)) poller_world = (Inr (), w')" by simp
  from poll_publishes_health [OF ref_store.valkey_store_axioms s(1,2) poll s(3,4)] t poll show ?thesis
    by (fastforce simp: sample_meta_def poller_world_def no_obs_def ref_poller_def)
qed

end
