(* ===== verification/Go_Encoding.thy ===== *)
theory Go_Encoding
  imports Go_Std
begin

text \<open>
  The parts of \<open>encoding/base64\<close> and \<open>encoding/json\<close> that \<open>PeekTTL\<close> uses: \<open>RawURLEncoding.Decode\<close>, and
  \<open>json.Unmarshal\<close> into a struct of two \<open>*int64\<close> fields. The JSON reader is a recursive
  descent with fuel; \<open>parse_value_fuel\<close> shows that the length of the text is enough.
  Bytes above 127 inside strings are kept as they are (Go replaces invalid UTF-8): neither can
  make an object key match a field name.
\<close>

section \<open>Base64, URL alphabet, no padding\<close>

definition code :: "char \<Rightarrow> nat" where
  "code c = of_char c"

definition b64_value :: "char \<Rightarrow> nat option" where
  "b64_value c =
     (let n = code c
      in if 65 \<le> n \<and> n \<le> 90 then Some (n - 65)
         else if 97 \<le> n \<and> n \<le> 122 then Some (n - 71)
         else if 48 \<le> n \<and> n \<le> 57 then Some (n + 4)
         else if n = 45 then Some 62
         else if n = 95 then Some 63
         else None)"

fun b64_quanta :: "nat list \<Rightarrow> string option" where
  "b64_quanta [] = Some []"
| "b64_quanta [a] = None"
| "b64_quanta [a, b] = Some [char_of (a * 4 + b div 16)]"
| "b64_quanta [a, b, c] = Some [char_of (a * 4 + b div 16), char_of ((b mod 16) * 16 + c div 4)]"
| "b64_quanta (a # b # c # d # r) =
     map_option (\<lambda>bs. char_of (a * 4 + b div 16) # char_of ((b mod 16) * 16 + c div 4) # char_of ((c mod 4) * 64 + d) # bs)
       (b64_quanta r)"

fun all_values :: "string \<Rightarrow> nat list option" where
  "all_values [] = Some []"
| "all_values (c # cs) =
     (case b64_value c of None \<Rightarrow> None | Some v \<Rightarrow> map_option (\<lambda>vs. v # vs) (all_values cs))"

text \<open>Carriage returns and line feeds are skipped.\<close>

definition b64_decode :: "string \<Rightarrow> string option" where
  "b64_decode s =
     (case all_values (filter (\<lambda>c. c \<noteq> CHR 0x0D \<and> c \<noteq> CHR 0x0A) s) of
        None \<Rightarrow> None
      | Some vs \<Rightarrow> b64_quanta vs)"

text \<open>The encoder, for round trips.\<close>

definition b64_char :: "nat \<Rightarrow> char" where
  "b64_char v =
     char_of (if v < 26 then v + 65 else if v < 52 then v + 71 else if v < 62 then v - 4
              else if v = 62 then 45 else (95 :: nat))"

fun b64_encode :: "string \<Rightarrow> string" where
  "b64_encode [] = []"
| "b64_encode [x] = [b64_char (code x div 4), b64_char (code x mod 4 * 16)]"
| "b64_encode [x, y] =
     [b64_char (code x div 4), b64_char (code x mod 4 * 16 + code y div 16), b64_char (code y mod 16 * 4)]"
| "b64_encode (x # y # z # r) =
     b64_char (code x div 4) # b64_char (code x mod 4 * 16 + code y div 16) #
     b64_char (code y mod 16 * 4 + code z div 64) # b64_char (code z mod 64) # b64_encode r"

lemma code_less: "code c < 256"
  by (cases c) (simp add: code_def)

lemma code_char_of: "n < 256 \<Longrightarrow> code (char_of n) = n"
  by (simp add: code_def)

lemma char_of_code: "char_of (code c) = c"
  by (simp add: code_def)

lemma b64_value_char: "v < 64 \<Longrightarrow> b64_value (b64_char v) = Some v"
  by (auto simp: b64_value_def b64_char_def code_char_of Let_def)

lemma b64_char_plain: "v < 64 \<Longrightarrow> b64_char v \<noteq> CHR 0x0D \<and> b64_char v \<noteq> CHR 0x0A \<and> b64_char v \<noteq> CHR ''.''"
proof -
  assume v: "v < 64"
  have "code (b64_char v) \<in> {45, 95} \<union> {48..57} \<union> {65..90} \<union> {97..122}"
    using v by (auto simp: b64_char_def code_char_of)
  moreover have "code (CHR 0x0D) = 13" "code (CHR 0x0A) = 10" "code (CHR ''.'') = 46"
    by (simp_all add: code_def)
  ultimately show ?thesis by fastforce
qed

lemma b64_encode_plain: "c \<in> set (b64_encode s) \<Longrightarrow> c \<noteq> CHR 0x0D \<and> c \<noteq> CHR 0x0A \<and> c \<noteq> CHR ''.''"
proof (induction s rule: b64_encode.induct)
  case (2 x)
  then show ?case using code_less [of x] by (auto simp: b64_char_plain)
next
  case (3 x y)
  then show ?case using code_less [of x] code_less [of y] by (auto simp: b64_char_plain)
next
  case (4 x y z r)
  then show ?case using code_less [of x] code_less [of y] code_less [of z] by (auto simp: b64_char_plain)
qed simp

text \<open>Splitting a byte into its six-bit pieces and joining them again.\<close>

lemma join_high: "k < 16 \<Longrightarrow> a div 4 * 4 + (a mod 4 * 16 + k) div 16 = (a :: nat)"
  by (simp add: div_add1_eq)

lemma join_mid: "k < 4 \<Longrightarrow> b < 256 \<Longrightarrow> (m * 16 + b div 16) mod 16 * 16 + (b mod 16 * 4 + k) div 4 = (b :: nat)"
proof -
  assume "k < 4" "b < 256"
  then have "(m * 16 + b div 16) mod 16 = b div 16" "(b mod 16 * 4 + k) div 4 = b mod 16"
    by (simp_all add: div_add1_eq mod_less less_mult_imp_div_less)
  then show ?thesis by simp
qed

lemma join_low: "c < 256 \<Longrightarrow> (m * 4 + c div 64) mod 4 * 64 + c mod 64 = (c :: nat)"
proof -
  assume "c < 256"
  then have "(m * 4 + c div 64) mod 4 = c div 64" by (simp add: mod_less less_mult_imp_div_less)
  then show ?thesis by simp
qed

lemma nibble: "b < 256 \<Longrightarrow> b div 16 < (16 :: nat)" "c < 256 \<Longrightarrow> c div 64 < (4 :: nat)"
  by (simp_all add: less_mult_imp_div_less)

text \<open>Decoding what was encoded gives the bytes back.\<close>

lemma b64_round_trip: "b64_decode (b64_encode s) = Some s"
proof -
  have f: "filter (\<lambda>c. c \<noteq> CHR 0x0D \<and> c \<noteq> CHR 0x0A) (b64_encode s) = b64_encode s"
    by (rule filter_True) (simp add: b64_encode_plain)
  have "\<exists>vs. all_values (b64_encode s) = Some vs \<and> b64_quanta vs = Some s"
  proof (induction s rule: b64_encode.induct)
    case (2 x)
    then show ?case using code_less [of x] join_high [of 0 "code x"]
      by (simp add: b64_value_char char_of_code)
  next
    case (3 x y)
    then show ?case
      using code_less [of x] code_less [of y] join_high [of "code y div 16" "code x"]
        join_mid [of 0 "code y" "code x mod 4"] nibble [of "code y"]
      by (simp add: b64_value_char char_of_code)
  next
    case (4 x y z r)
    then obtain vs where "all_values (b64_encode r) = Some vs" "b64_quanta vs = Some r" by blast
    then show ?case
      using code_less [of x] code_less [of y] code_less [of z] join_high [of "code y div 16" "code x"]
        join_mid [of "code z div 64" "code y" "code x mod 4"] join_low [of "code z" "code y mod 16"]
        nibble(1) [of "code y"] nibble(2) [of "code z"]
      by (simp add: b64_value_char char_of_code)
  qed simp
  with f show ?thesis by (auto simp: b64_decode_def)
qed

declare b64_encode.simps [simp del]

section \<open>JSON texts\<close>

datatype json =
    JNull
  | JBool bool
  | JNum string
  | JStr string
  | JArr "json list"
  | JObj "(string \<times> json) list"

definition skip_ws :: "string \<Rightarrow> string" where
  "skip_ws = dropWhile (\<lambda>c. c = CHR '' '' \<or> c = CHR 0x09 \<or> c = CHR 0x0D \<or> c = CHR 0x0A)"

definition is_digit :: "char \<Rightarrow> bool" where
  "is_digit c \<longleftrightarrow> 48 \<le> code c \<and> code c \<le> 57"

text \<open>A string is a sequence of bytes and \<open>\u\<close> escapes.\<close>

datatype str_unit = UByte char | UCode nat

definition hex_value :: "char \<Rightarrow> nat option" where
  "hex_value c =
     (let n = code c
      in if 48 \<le> n \<and> n \<le> 57 then Some (n - 48)
         else if 97 \<le> n \<and> n \<le> 102 then Some (n - 87)
         else if 65 \<le> n \<and> n \<le> 70 then Some (n - 55)
         else None)"

definition hex4 :: "char \<Rightarrow> char \<Rightarrow> char \<Rightarrow> char \<Rightarrow> nat option" where
  "hex4 a b c d =
     (case (hex_value a, hex_value b, hex_value c, hex_value d) of
        (Some w, Some x, Some y, Some z) \<Rightarrow> Some (w * 4096 + x * 256 + y * 16 + z)
      | _ \<Rightarrow> None)"

definition escape :: "char \<Rightarrow> char option" where
  "escape c =
     (if c = CHR 0x22 \<or> c = CHR 0x5C \<or> c = CHR ''/'' then Some c
      else if c = CHR ''b'' then Some (CHR 0x08)
      else if c = CHR ''f'' then Some (CHR 0x0C)
      else if c = CHR ''n'' then Some (CHR 0x0A)
      else if c = CHR ''r'' then Some (CHR 0x0D)
      else if c = CHR ''t'' then Some (CHR 0x09)
      else None)"

text \<open>The units up to the closing quote, and the rest of the text.\<close>

fun str_units :: "string \<Rightarrow> (str_unit list \<times> string) option" where
  "str_units [] = None"
| "str_units (c # cs) =
     (if c = CHR 0x22 then Some ([], cs)
      else if c = CHR 0x5C
        then (case cs of
                [] \<Rightarrow> None
              | e # es \<Rightarrow>
                  (if e = CHR ''u''
                   then (case es of
                           h1 # h2 # h3 # h4 # r \<Rightarrow>
                             (case hex4 h1 h2 h3 h4 of
                                None \<Rightarrow> None
                              | Some n \<Rightarrow> map_option (\<lambda>(us, q). (UCode n # us, q)) (str_units r))
                         | _ \<Rightarrow> None)
                   else (case escape e of
                           None \<Rightarrow> None
                         | Some b \<Rightarrow> map_option (\<lambda>(us, q). (UByte b # us, q)) (str_units es))))
      else if code c < 32 then None
      else map_option (\<lambda>(us, q). (UByte c # us, q)) (str_units cs))"

definition utf8 :: "nat \<Rightarrow> string" where
  "utf8 n =
     map char_of
       (if n < 128 then [n]
        else if n < 2048 then [192 + n div 64, 128 + n mod 64]
        else if n < 65536 then [224 + n div 4096, 128 + n div 64 mod 64, 128 + n mod 64]
        else [240 + n div 262144, 128 + n div 4096 mod 64, 128 + n div 64 mod 64, 128 + n mod 64])"

definition is_high :: "nat \<Rightarrow> bool" where "is_high n \<longleftrightarrow> 0xD800 \<le> n \<and> n < 0xDC00"
definition is_low :: "nat \<Rightarrow> bool" where "is_low n \<longleftrightarrow> 0xDC00 \<le> n \<and> n < 0xE000"

text \<open>Surrogate pairs are combined, lone surrogates replaced by U+FFFD.\<close>

fun decode_units :: "str_unit list \<Rightarrow> string" where
  "decode_units [] = []"
| "decode_units (UByte c # us) = c # decode_units us"
| "decode_units (UCode a # UCode b # us) =
     (if is_high a \<and> is_low b then utf8 (65536 + (a - 0xD800) * 1024 + (b - 0xDC00)) @ decode_units us
      else (if is_high a \<or> is_low a then utf8 0xFFFD else utf8 a) @ decode_units (UCode b # us))"
| "decode_units (UCode a # us) = (if is_high a \<or> is_low a then utf8 0xFFFD else utf8 a) @ decode_units us"

text \<open>Numbers: the literal and the rest.\<close>

definition num_exp :: "string \<Rightarrow> string \<Rightarrow> (string \<times> string) option" where
  "num_exp lit s =
     (case s of
        [] \<Rightarrow> Some (lit, s)
      | c # r \<Rightarrow>
          if c = CHR ''e'' \<or> c = CHR ''E''
          then (let (sg, r1) = (case r of d # r' \<Rightarrow> if d = CHR ''+'' \<or> d = CHR ''-'' then ([d], r') else ([], r)
                                | [] \<Rightarrow> ([], r));
                    ds = takeWhile is_digit r1
                in if ds = [] then None else Some (lit @ c # sg @ ds, dropWhile is_digit r1))
          else Some (lit, s))"

definition num_frac :: "string \<Rightarrow> string \<Rightarrow> (string \<times> string) option" where
  "num_frac lit s =
     (case s of
        [] \<Rightarrow> Some (lit, s)
      | c # r \<Rightarrow>
          if c = CHR ''.''
          then (let ds = takeWhile is_digit r
                in if ds = [] then None else num_exp (lit @ c # ds) (dropWhile is_digit r))
          else num_exp lit s)"

definition num_int :: "string \<Rightarrow> string \<Rightarrow> (string \<times> string) option" where
  "num_int sg s =
     (case s of
        [] \<Rightarrow> None
      | c # r \<Rightarrow>
          if c = CHR ''0'' then num_frac (sg @ [c]) r
          else if is_digit c then num_frac (sg @ takeWhile is_digit s) (dropWhile is_digit s)
          else None)"

definition parse_number :: "string \<Rightarrow> (string \<times> string) option" where
  "parse_number s =
     (case s of c # r \<Rightarrow> if c = CHR ''-'' then num_int [c] r else num_int [] s | [] \<Rightarrow> None)"

definition parse_literal :: "string \<Rightarrow> (json \<times> string) option" where
  "parse_literal s =
     (if has_prefix ''null'' s then Some (JNull, drop 4 s)
      else if has_prefix ''true'' s then Some (JBool True, drop 4 s)
      else if has_prefix ''false'' s then Some (JBool False, drop 5 s)
      else None)"

text \<open>Values, with the number \<open>d\<close> of open containers: Go refuses to nest deeper than 10000.\<close>

definition max_depth :: nat where "max_depth = 10000"

fun parse_value :: "nat \<Rightarrow> nat \<Rightarrow> string \<Rightarrow> (json \<times> string) option"
  and parse_members :: "nat \<Rightarrow> nat \<Rightarrow> string \<Rightarrow> ((string \<times> json) list \<times> string) option"
  and parse_elems :: "nat \<Rightarrow> nat \<Rightarrow> string \<Rightarrow> (json list \<times> string) option" where
  "parse_value 0 d s = None"
| "parse_value (Suc n) d s =
     (case skip_ws s of
        [] \<Rightarrow> None
      | c # r \<Rightarrow>
          if c = CHR ''{'' then
            (if max_depth \<le> d then None
             else (case skip_ws r of
                     [] \<Rightarrow> None
                   | b # q \<Rightarrow> if b = CHR ''}'' then Some (JObj [], q)
                            else map_option (\<lambda>(ms, q). (JObj ms, q)) (parse_members n (Suc d) r)))
          else if c = CHR ''['' then
            (if max_depth \<le> d then None
             else (case skip_ws r of
                     [] \<Rightarrow> None
                   | b # q \<Rightarrow> if b = CHR '']'' then Some (JArr [], q)
                            else map_option (\<lambda>(vs, q). (JArr vs, q)) (parse_elems n (Suc d) r)))
          else if c = CHR 0x22 then map_option (\<lambda>(us, q). (JStr (decode_units us), q)) (str_units r)
          else if c = CHR ''-'' \<or> is_digit c then map_option (\<lambda>(l, q). (JNum l, q)) (parse_number (c # r))
          else parse_literal (c # r))"
| "parse_members 0 d s = None"
| "parse_members (Suc n) d s =
     (case skip_ws s of
        [] \<Rightarrow> None
      | c # r \<Rightarrow>
          if c \<noteq> CHR 0x22 then None
          else (case str_units r of
                  None \<Rightarrow> None
                | Some (us, r1) \<Rightarrow>
                    (case skip_ws r1 of
                       [] \<Rightarrow> None
                     | c2 # r2 \<Rightarrow>
                         if c2 \<noteq> CHR '':'' then None
                         else (case parse_value n d r2 of
                                 None \<Rightarrow> None
                               | Some (v, r3) \<Rightarrow>
                                   (case skip_ws r3 of
                                      [] \<Rightarrow> None
                                    | c4 # r4 \<Rightarrow>
                                        if c4 = CHR ''}'' then Some ([(decode_units us, v)], r4)
                                        else if c4 = CHR '',''
                                          then map_option (\<lambda>(ms, q). ((decode_units us, v) # ms, q)) (parse_members n d r4)
                                        else None)))))"
| "parse_elems 0 d s = None"
| "parse_elems (Suc n) d s =
     (case parse_value n d s of
        None \<Rightarrow> None
      | Some (v, r3) \<Rightarrow>
          (case skip_ws r3 of
             [] \<Rightarrow> None
           | c4 # r4 \<Rightarrow>
               if c4 = CHR '']'' then Some ([v], r4)
               else if c4 = CHR '','' then map_option (\<lambda>(vs, q). (v # vs, q)) (parse_elems n d r4)
               else None))"

definition parse_json :: "string \<Rightarrow> json option" where
  "parse_json s =
     (case parse_value (2 * length s + 2) 0 s of
        Some (v, r) \<Rightarrow> if skip_ws r = [] then Some v else None
      | None \<Rightarrow> None)"

text \<open>Every reader consumes text, so that twice the length is fuel enough.\<close>

lemma skip_ws_length: "length (skip_ws s) \<le> length s"
  by (simp add: skip_ws_def length_dropWhile_le)

lemma skip_ws_Cons: "skip_ws s = c # r \<Longrightarrow> length r < length s"
  using skip_ws_length [of s] by simp

lemma str_units_length: "str_units s = Some (us, r) \<Longrightarrow> length r < length s"
proof (induction s arbitrary: us r rule: str_units.induct)
  case 1
  then show ?case by simp
next
  case (2 c cs)
  show ?case
  proof (cases "c = CHR 0x22")
    case True
    with 2(4) show ?thesis by simp
  next
    case nq: False
    show ?thesis
    proof (cases "c = CHR 0x5C")
      case True
      then obtain e es where es: "cs = e # es" using 2(4) by (cases cs) auto
      show ?thesis
      proof (cases "e = CHR ''u''")
        case u: True
        then obtain h1 h2 h3 h4 q where q: "es = h1 # h2 # h3 # h4 # q"
          using 2(4) True es by (auto split: list.splits)
        with 2(4) True es u obtain n us' where n: "hex4 h1 h2 h3 h4 = Some n" "str_units q = Some (us', r)"
          by (auto split: option.splits)
        have "length r < length q" using 2(1) [OF nq True es u _ _ _ _ n(1) n(2)] q by simp
        then show ?thesis using es q by simp
      next
        case u: False
        with 2(4) True es obtain b us' where b: "escape e = Some b" "str_units es = Some (us', r)"
          by (auto split: option.splits)
        have "length r < length es" using 2(2) [OF nq True es u b] .
        then show ?thesis using es by simp
      qed
    next
      case False
      with 2(4) nq obtain us' where u: "\<not> code c < 32" "str_units cs = Some (us', r)"
        by (auto split: if_splits)
      from 2(3) [OF nq False u] show ?thesis by simp
    qed
  qed
qed

lemma num_exp_length: "num_exp lit s = Some (l, r) \<Longrightarrow> length r \<le> length s"
proof -
  assume "num_exp lit s = Some (l, r)"
  moreover have "length (dropWhile is_digit q) \<le> length q" for q by (rule length_dropWhile_le)
  ultimately show ?thesis
    by (auto simp: num_exp_def Let_def split: list.splits if_splits)
      (metis le_Suc_eq le_trans length_Cons)+
qed

lemma num_frac_length: "num_frac lit s = Some (l, r) \<Longrightarrow> length r \<le> length s"
proof -
  assume h: "num_frac lit s = Some (l, r)"
  show ?thesis
  proof (cases s)
    case Nil
    with h show ?thesis by (simp add: num_frac_def)
  next
    case (Cons c q)
    have "length (dropWhile is_digit q) \<le> length q" by (rule length_dropWhile_le)
    then show ?thesis using h Cons num_exp_length by (fastforce simp: num_frac_def Let_def split: if_splits)
  qed
qed

lemma num_int_length: "num_int sg s = Some (l, r) \<Longrightarrow> length r < length s"
proof -
  assume h: "num_int sg s = Some (l, r)"
  then obtain c q where s: "s = c # q" by (cases s) (auto simp: num_int_def)
  have "length (dropWhile is_digit q) \<le> length q" by (rule length_dropWhile_le)
  then show ?thesis using h s num_frac_length by (fastforce simp: num_int_def split: if_splits)
qed

lemma parse_number_length: "parse_number s = Some (l, r) \<Longrightarrow> length r < length s"
  using num_int_length by (fastforce simp: parse_number_def split: list.splits if_splits)

lemma parse_literal_length: "parse_literal s = Some (v, r) \<Longrightarrow> length r < length s"
proof -
  have "has_prefix p s \<Longrightarrow> length p \<le> length s" for p s by (induction p s rule: has_prefix.induct) auto
  from this [of "''null''" s] this [of "''true''" s] this [of "''false''" s]
  show "parse_literal s = Some (v, r) \<Longrightarrow> length r < length s"
    by (auto simp: parse_literal_def split: if_splits)
qed

lemma parse_length:
  "parse_value n d s = Some (v, r) \<Longrightarrow> length r < length s"
  "parse_members n d s = Some (ms, r) \<Longrightarrow> length r < length s"
  "parse_elems n d s = Some (vs, r) \<Longrightarrow> length r < length s"
proof (induction n d s and n d s and n d s arbitrary: v r and ms r and vs r
    rule: parse_value_parse_members_parse_elems.induct)
  case (2 n d s)
  from 2(3) obtain c q where c: "skip_ws s = c # q" by (auto split: list.splits)
  note q = skip_ws_Cons [OF c]
  from 2 c have "length r < length (c # q)"
    using skip_ws_Cons [of q] str_units_length [of q] parse_number_length [of "c # q"] parse_literal_length [of "c # q"]
    by (fastforce split: if_splits list.splits)
  with q show ?case by simp
next
  case (4 n d s)
  from 4(3) obtain r1 where 1: "skip_ws s = CHR 0x22 # r1" by (auto split: list.splits if_splits)
  with 4(3) obtain us r2 where 2: "str_units r1 = Some (us, r2)" by (cases "str_units r1") auto
  with 4(3) 1 obtain r3 where 3: "skip_ws r2 = CHR '':'' # r3" by (auto split: list.splits if_splits)
  with 4(3) 1 2 obtain w r4 where v: "parse_value n d r3 = Some (w, r4)"
    by (cases "parse_value n d r3") auto
  with 4(3) 1 2 3 obtain c r5 where 5: "skip_ws r4 = c # r5" by (auto split: list.splits)
  have l: "length r5 < length s"
    using skip_ws_Cons [OF 1] str_units_length [OF 2] skip_ws_Cons [OF 3] skip_ws_Cons [OF 5]
      4(1) v 1 2 3 by fastforce
  show ?case
  proof (cases "c = CHR ''}''")
    case True
    with 4(3) 1 2 3 v 5 l show ?thesis by auto
  next
    case False
    with 4(3) 1 2 3 v 5 obtain ms' where "c = CHR '',''" "parse_members n d r5 = Some (ms', r)"
      by (auto split: if_splits)
    with 4(2) 1 2 3 v 5 l show ?thesis by fastforce
  qed
next
  case (6 n d s)
  from 6(3) obtain w r1 where v: "parse_value n d s = Some (w, r1)" by (auto split: option.splits)
  with 6(3) obtain c r2 where 2: "skip_ws r1 = c # r2" by (auto split: list.splits)
  have l: "length r2 < length s" using 6(1) [OF v] skip_ws_Cons [OF 2] by simp
  show ?case
  proof (cases "c = CHR '']''")
    case True
    with 6(3) v 2 l show ?thesis by auto
  next
    case False
    with 6(3) v 2 obtain vs' where "c = CHR '',''" "parse_elems n d r2 = Some (vs', r)"
      by (auto split: if_splits)
    with 6(2) v 2 l show ?thesis by fastforce
  qed
qed simp_all

text \<open>One more unit of fuel changes nothing, for each reader given that it changes nothing below.\<close>

lemma value_fuel_step:
  assumes M: "\<And>e q. 2 * length q + 1 < n \<Longrightarrow> parse_members (Suc n) e q = parse_members n e q"
    and E: "\<And>e q. 2 * length q + 1 < n \<Longrightarrow> parse_elems (Suc n) e q = parse_elems n e q"
    and l: "2 * length s < Suc n"
  shows "parse_value (Suc (Suc n)) d s = parse_value (Suc n) d s"
proof (cases "skip_ws s")
  case (Cons c r)
  then have "2 * length r + 1 < n" using l skip_ws_Cons [OF Cons] by linarith
  then show ?thesis
    by (subst parse_value.simps(2), subst parse_value.simps(2)) (simp only: Cons M E list.case)
qed simp

lemma elems_fuel_step:
  assumes V: "\<And>e q. 2 * length q < n \<Longrightarrow> parse_value (Suc n) e q = parse_value n e q"
    and E: "\<And>e q. 2 * length q + 1 < n \<Longrightarrow> parse_elems (Suc n) e q = parse_elems n e q"
    and l: "2 * length s + 1 < Suc n"
  shows "parse_elems (Suc (Suc n)) d s = parse_elems (Suc n) d s"
proof (cases "parse_value n d s")
  case None
  then show ?thesis using l by (simp only: parse_elems.simps V) simp
next
  case (Some vr)
  obtain v r where v: "vr = (v, r)" by force
  with Some have r: "length r < length s" using parse_length(1) by blast
  show ?thesis
  proof (cases "skip_ws r")
    case Nil
    then show ?thesis using l Some v by (simp only: parse_elems.simps V) simp
  next
    case (Cons c q)
    then have "2 * length q + 1 < n" using l r skip_ws_Cons [OF Cons] by linarith
    moreover have "parse_value (Suc n) d s = Some (v, r)" "parse_value n d s = Some (v, r)"
      using l Some v V [of s d] by simp_all
    ultimately show ?thesis
      by (subst parse_elems.simps(2), subst parse_elems.simps(2))
        (simp only: Cons E option.case prod.case list.case)
  qed
qed

text \<open>A member after its name and colon.\<close>

lemma member_fuel_step:
  assumes V: "\<And>e q. 2 * length q < n \<Longrightarrow> parse_value (Suc n) e q = parse_value n e q"
    and M: "\<And>e q. 2 * length q + 1 < n \<Longrightarrow> parse_members (Suc n) e q = parse_members n e q"
    and pre: "skip_ws s = c # r" "str_units r = Some (us, r1)" "skip_ws r1 = c2 # r2"
    and r2: "2 * length r2 + 5 < Suc n"
  shows "parse_members (Suc (Suc n)) d s = parse_members (Suc n) d s"
proof (cases "parse_value n d r2")
  case None
  then have "parse_value (Suc n) d r2 = None" using V r2 by simp
  with None pre show ?thesis
    by (subst parse_members.simps(2), subst parse_members.simps(2)) (simp only: option.case prod.case list.case)
next
  case (Some vr)
  obtain w r3 where w: "vr = (w, r3)" by force
  have r3: "length r3 < length r2" using parse_length(1) Some w by blast
  have v: "parse_value (Suc n) d r2 = Some (w, r3)" "parse_value n d r2 = Some (w, r3)"
    using V r2 Some w by simp_all
  show ?thesis
  proof (cases "skip_ws r3")
    case Nil
    with v pre show ?thesis
      by (subst parse_members.simps(2), subst parse_members.simps(2)) (simp only: option.case prod.case list.case)
  next
    case (Cons c4 r4)
    have "2 * length r4 + 1 < n" using r2 r3 skip_ws_Cons [OF Cons] by linarith
    with v pre Cons show ?thesis
      by (subst parse_members.simps(2), subst parse_members.simps(2)) (simp only: M option.case prod.case list.case)
  qed
qed

lemma members_fuel_step:
  assumes V: "\<And>e q. 2 * length q < n \<Longrightarrow> parse_value (Suc n) e q = parse_value n e q"
    and M: "\<And>e q. 2 * length q + 1 < n \<Longrightarrow> parse_members (Suc n) e q = parse_members n e q"
    and l: "2 * length s + 1 < Suc n"
  shows "parse_members (Suc (Suc n)) d s = parse_members (Suc n) d s"
proof (cases "skip_ws s")
  case s: (Cons c r)
  show ?thesis
  proof (cases "str_units r")
    case u: (Some ur)
    obtain us r1 where ur: "ur = (us, r1)" by force
    show ?thesis
    proof (cases "skip_ws r1")
      case c2: (Cons c2 r2)
      have "2 * length r2 + 5 < Suc n"
        using l skip_ws_Cons [OF s] str_units_length [OF u [unfolded ur]] skip_ws_Cons [OF c2] by linarith
      then show ?thesis by (rule member_fuel_step [rotated 5]) (rule V M s u [unfolded ur] c2, assumption?)+
    qed (use s u ur in simp)
  qed (use s in simp)
qed simp

lemma parse_fuel_step:
  "(2 * length s < n \<longrightarrow> parse_value (Suc n) d s = parse_value n d s) \<and>
   (2 * length s + 1 < n \<longrightarrow> parse_members (Suc n) d s = parse_members n d s) \<and>
   (2 * length s + 1 < n \<longrightarrow> parse_elems (Suc n) d s = parse_elems n d s)"
proof (induction n arbitrary: d s)
  case 0
  then show ?case by simp
next
  case (Suc n)
  have V: "2 * length q < n \<Longrightarrow> parse_value (Suc n) e q = parse_value n e q"
    and M: "2 * length q + 1 < n \<Longrightarrow> parse_members (Suc n) e q = parse_members n e q"
    and E: "2 * length q + 1 < n \<Longrightarrow> parse_elems (Suc n) e q = parse_elems n e q" for e q
    using Suc.IH [of q e] by blast+
  show ?case
    by (intro conjI impI value_fuel_step [OF M E] members_fuel_step [OF V M] elems_fuel_step [OF V E])
qed

text \<open>Any larger fuel gives the same result: the reader never stops for lack of it.\<close>

lemma parse_value_fuel:
  assumes "2 * length s < n" shows "parse_value (n + k) d s = parse_value n d s"
proof (induction k)
  case (Suc k)
  then show ?case using parse_fuel_step [of s "n + k" d] assms by simp
qed simp

lemma parse_json_fuel:
  assumes "2 * length s + 2 \<le> n"
  shows "parse_json s =
    (case parse_value n 0 s of Some (v, r) \<Rightarrow> if skip_ws r = [] then Some v else None | None \<Rightarrow> None)"
proof -
  let ?m = "2 * length s + 2"
  obtain k where k: "n = ?m + k" using assms le_Suc_ex by blast
  have "2 * length s < ?m" by simp
  then have "parse_value (?m + k) 0 s = parse_value ?m 0 s" by (rule parse_value_fuel)
  then show ?thesis by (simp only: parse_json_def k)
qed

section \<open>Decoding into two optional integers\<close>

text \<open>\<open>strconv.ParseInt(s, 10, 64)\<close> on a JSON number literal.\<close>

definition digits_value :: "string \<Rightarrow> int" where
  "digits_value ds = foldl (\<lambda>a c. 10 * a + (int (code c) - 48)) 0 ds"

definition parse_int64 :: "string \<Rightarrow> int option" where
  "parse_int64 lit =
     (let (neg, ds) = (case lit of c # r \<Rightarrow> if c = CHR ''-'' then (True, r) else (False, lit) | [] \<Rightarrow> (False, lit))
      in if ds = [] \<or> \<not> list_all is_digit ds then None
         else (let n = (if neg then - digits_value ds else digits_value ds) in if is_i64 n then Some n else None))"

text \<open>Field names match exactly or up to ASCII case.\<close>

definition lower :: "char \<Rightarrow> char" where
  "lower c = (if 65 \<le> code c \<and> code c \<le> 90 then char_of (code c + 32) else c)"

text \<open>One value into a \<open>*int64\<close>: \<open>None\<close> is a decoding error.\<close>

fun int_field :: "json \<Rightarrow> int option option" where
  "int_field JNull = Some None"
| "int_field (JNum lit) = map_option Some (parse_int64 lit)"
| "int_field _ = None"

text \<open>The last member of a name wins; an error anywhere fails the whole call, after the rest was read.\<close>

fun claim_members :: "(string \<times> json) list \<Rightarrow> int option \<times> int option \<Rightarrow> (int option \<times> int option) option" where
  "claim_members [] te = Some te"
| "claim_members ((k, v) # ms) (t, e) =
     (if map lower k = ''ttl'' then (case int_field v of None \<Rightarrow> None | Some x \<Rightarrow> claim_members ms (x, e))
      else if map lower k = ''exp'' then (case int_field v of None \<Rightarrow> None | Some x \<Rightarrow> claim_members ms (t, x))
      else claim_members ms (t, e))"

definition unmarshal_claims :: "string \<Rightarrow> (int option \<times> int option) option" where
  "unmarshal_claims s =
     (case parse_json s of
        Some (JObj ms) \<Rightarrow> claim_members ms (None, None)
      | Some JNull \<Rightarrow> Some (None, None)
      | _ \<Rightarrow> None)"

lemma int_field_i64: "int_field v = Some (Some n) \<Longrightarrow> is_i64 n"
  by (cases v) (auto simp: parse_int64_def Let_def split: prod.splits if_splits list.splits)

lemma int_field_pred: "int_field v = Some x \<Longrightarrow> pred_option is_i64 x"
  by (cases x) (simp_all add: int_field_i64)

lemma claim_members_i64:
  "claim_members ms te = Some te' \<Longrightarrow> pred_option is_i64 (fst te) \<Longrightarrow> pred_option is_i64 (snd te) \<Longrightarrow>
     pred_option is_i64 (fst te') \<and> pred_option is_i64 (snd te')"
proof (induction ms te rule: claim_members.induct)
  case (2 k v ms t e)
  then show ?case
    by (simp split: if_splits option.splits add: int_field_pred)
qed simp

lemma claims_i64:
  assumes "unmarshal_claims s = Some (t, e)"
  shows "pred_option is_i64 t \<and> pred_option is_i64 e"
  using assms claim_members_i64 [of _ "(None, None)" "(t, e)"]
  by (auto simp: unmarshal_claims_def split: option.splits json.splits)

end
