(* ===== verification/Peek_TTL.thy ===== *)
theory Peek_TTL
  imports Go_Encoding
begin

text \<open>
  \<open>internal/prefetch/ttlpeek.go\<close>: the unverified peek at a status-list token's \<open>ttl\<close> and \<open>exp\<close> claims,
  on the token's bytes.
\<close>

text \<open>\<open>bytes.Split\<close> of the standard library, for a one-byte separator.\<close>

fun split_on :: "char \<Rightarrow> string \<Rightarrow> string list" where
  "split_on c [] = [[]]"
| "split_on c (x # xs) =
     (if x = c then [] # split_on c xs
      else (case split_on c xs of p # ps \<Rightarrow> (x # p) # ps | [] \<Rightarrow> [[x]]))"

text \<open>\<open>untilExp\<close>, and the choice between \<open>ttl\<close> and \<open>exp\<close>. \<open>time.Duration(ttl) * time.Second\<close> is an
  \<open>int64\<close> product.\<close>

definition until_exp :: "int \<Rightarrow> gotime \<Rightarrow> duration" where
  "until_exp exp now = time_sub (time_unix exp) now"

definition claims_ttl :: "int option \<Rightarrow> int option \<Rightarrow> duration \<Rightarrow> gotime \<Rightarrow> duration" where
  "claims_ttl ttl exp dflt now =
     (if ttl = None \<and> exp = None then dflt
      else
        (let has_ttl = (case ttl of Some n \<Rightarrow> 0 < n | None \<Rightarrow> False);
             out = (if has_ttl then (case ttl of Some n \<Rightarrow> i64 (n * second) | None \<Rightarrow> dflt) else dflt);
             out = (case exp of
                      None \<Rightarrow> out
                    | Some e \<Rightarrow>
                        if has_ttl \<and> until_exp e now < out then until_exp e now
                        else if \<not> has_ttl then until_exp e now
                        else out)
         in if out < 0 then 0 else out))"

definition peek_ttl :: "string \<Rightarrow> duration \<Rightarrow> gotime \<Rightarrow> duration" where
  "peek_ttl token dflt now =
     (case split_on (CHR ''.'') token of
        [h, p, sg] \<Rightarrow>
          (case b64_decode p of
             None \<Rightarrow> dflt
           | Some payload \<Rightarrow>
               (case unmarshal_claims payload of
                  None \<Rightarrow> dflt
                | Some (ttl, exp) \<Rightarrow> claims_ttl ttl exp dflt now))
      | _ \<Rightarrow> dflt)"

section \<open>Lemmas\<close>

text \<open>The claims a token shows, if it can be read at all.\<close>

definition token_claims :: "string \<Rightarrow> (int option \<times> int option) option" where
  "token_claims token =
     (case split_on (CHR ''.'') token of
        [h, p, sg] \<Rightarrow> Option.bind (b64_decode p) unmarshal_claims
      | _ \<Rightarrow> None)"

lemma peek_ttl_claims:
  "peek_ttl token dflt now =
     (case token_claims token of None \<Rightarrow> dflt | Some (ttl, exp) \<Rightarrow> claims_ttl ttl exp dflt now)"
  by (auto simp: peek_ttl_def token_claims_def split: list.splits option.splits)

lemma split_on_plain: "c \<notin> set s \<Longrightarrow> split_on c s = [s]"
  by (induction s) auto

lemma split_on_append: "c \<notin> set s \<Longrightarrow> split_on c (s @ c # r) = s # split_on c r"
  by (induction s) auto

lemma token_claims_encode:
  assumes "CHR ''.'' \<notin> set h" "CHR ''.'' \<notin> set sg"
  shows "token_claims (h @ CHR ''.'' # b64_encode payload @ CHR ''.'' # sg) = unmarshal_claims payload"
proof -
  have "CHR ''.'' \<notin> set (b64_encode payload)" using b64_encode_plain by blast
  then show ?thesis using assms by (simp add: token_claims_def split_on_append split_on_plain b64_round_trip)
qed

lemma token_claims_i64:
  "token_claims token = Some (t, e) \<Longrightarrow> pred_option is_i64 t \<and> pred_option is_i64 e"
  by (auto simp: token_claims_def claims_i64 split: list.splits bind_splits)

lemma until_exp_range: "is_i64 (until_exp e now)"
  by (simp add: until_exp_def time_sub_range)

text \<open>
  The claims reader reads back what is written: a token with dot-free header and signature whose payload is the base64
  text of any bytes shows exactly the claims of those bytes, and the JSON reader's fuel never decides (any larger
  fuel gives the same value).
\<close>

lemma token_claims_round_trip:
  assumes "CHR ''.'' \<notin> set h" "CHR ''.'' \<notin> set sg" "2 * length payload + 2 \<le> n"
  shows "token_claims (h @ CHR ''.'' # b64_encode payload @ CHR ''.'' # sg) =
    (case parse_value n 0 payload of
       Some (JObj ms, r) \<Rightarrow> if skip_ws r = [] then claim_members ms (None, None) else None
     | Some (JNull, r) \<Rightarrow> if skip_ws r = [] then Some (None, None) else None
     | _ \<Rightarrow> None)"
  using token_claims_encode [OF assms(1,2), of payload] parse_json_fuel [OF assms(3)]
  by (simp add: unmarshal_claims_def split: option.splits prod.splits json.splits)

section \<open>Properties\<close>

text \<open>
  C29. \<open>PeekTTL\<close> is total and never negative: for every byte sequence (any token, readable or not) and a
  default that is a duration of zero or more, the result is a duration of zero or more.
\<close>

theorem peek_never_negative:
  assumes "is_i64 dflt" "0 \<le> dflt"
  shows "0 \<le> peek_ttl token dflt now \<and> is_i64 (peek_ttl token dflt now)"
  using assms until_exp_range [unfolded is_i64_def] i64_range [unfolded is_i64_def]
  by (auto simp: peek_ttl_claims claims_ttl_def Let_def is_i64_def split: option.splits)

theorem peek_never_negative_witness:
  "0 \<le> peek_ttl ''a.b.c'' (5 * minute) (time_unix 1800000000)"
  using peek_never_negative [of "5 * minute"] by (simp add: is_i64_def minute_def second_def)

text \<open>
  C28. \<open>exp\<close> caps and never extends: a token that shows an \<open>exp\<close> is never cached past it (a token
  already expired gets zero), and a positive \<open>ttl\<close> whose product with a second fits an \<open>int64\<close>
  is honoured up to that cap.
\<close>

theorem peek_honours_claims:
  assumes "token_claims token = Some (Some ttl, Some exp)"
    and "0 < ttl" "is_i64 (ttl * second)"
  shows "peek_ttl token dflt now = max 0 (min (ttl * second) (until_exp exp now))"
  using assms by (auto simp: peek_ttl_claims claims_ttl_def Let_def)

text \<open>A token with both claims, as text: \<open>ttl\<close> 3600, \<open>exp\<close> 1783167000.\<close>

definition sample_token :: string where
  "sample_token = ''eyJhbGciOiJFUzI1NiJ9.'' @ b64_encode ''{\"ttl\":3600,\"exp\":1783167000}'' @ ''.c2ln''"

lemma sample_token_claims: "token_claims sample_token = Some (Some 3600, Some 1783167000)"
proof -
  have "token_claims sample_token = unmarshal_claims ''{\"ttl\":3600,\"exp\":1783167000}''"
    using token_claims_encode [of "''eyJhbGciOiJFUzI1NiJ9''" "''c2ln''"] by (simp add: sample_token_def)
  also have "\<dots> = Some (Some 3600, Some 1783167000)" by code_simp
  finally show ?thesis .
qed

theorem peek_honours_claims_witness: "peek_ttl sample_token (5 * minute) (time_unix 1783166400) = 10 * minute"
  using peek_honours_claims [OF sample_token_claims, of "5 * minute" "time_unix 1783166400"]
  by (simp add: is_i64_def second_def minute_def until_exp_def time_sub_def time_unix_def i64_def
      min_duration_def max_duration_def)

text \<open>
  C39. A huge \<open>ttl\<close> is neither honoured nor capped: the product with a second is taken in \<open>int64\<close>, so a claim of
  2^63 nanoseconds or more gives the product's remainder as a signed 64-bit number, or zero where that is negative:
  always less than was claimed, and zero for every claim up to 2^64 nanoseconds.
\<close>

theorem huge_ttl_wraps:
  assumes "token_claims token = Some (Some ttl, None)" "2 ^ 63 \<le> ttl * 1000000000"
  shows "peek_ttl token dflt now = max 0 ((ttl * 1000000000 + 2 ^ 63) mod 2 ^ 64 - 2 ^ 63) \<and>
    peek_ttl token dflt now < ttl * 1000000000 \<and>
    (ttl * 1000000000 < 2 ^ 64 \<longrightarrow> peek_ttl token dflt now = 0)"
proof -
  have "0 < ttl" using assms(2) by simp
  with assms(1) have peek: "peek_ttl token dflt now = max 0 (i64 (ttl * second))"
    by (auto simp: peek_ttl_claims claims_ttl_def Let_def)
  have "(ttl * second + 2 ^ 63) mod 2 ^ 64 = ttl * second - 2 ^ 63" if "ttl * second < 2 ^ 64"
  proof -
    have "(ttl * second + 2 ^ 63) mod 2 ^ 64 = (ttl * second + 2 ^ 63 - 2 ^ 64) mod 2 ^ 64"
      using mod_diff_right_eq [of "ttl * second + 2 ^ 63" "2 ^ 64" "2 ^ 64"] by simp
    also have "\<dots> = ttl * second + 2 ^ 63 - 2 ^ 64"
      by (rule mod_pos_pos_trivial) (use that assms(2) in \<open>simp_all add: second_def\<close>)
    finally show ?thesis by simp
  qed
  then have zero: "i64 (ttl * second) \<le> 0" if "ttl * second < 2 ^ 64"
    using that by (simp add: i64_def)
  moreover have "i64 (ttl * second) < 2 ^ 63"
    using i64_range [of "ttl * second"] by (simp add: is_i64_def)
  ultimately show ?thesis using assms(2) peek by (auto simp: i64_def second_def max_def)
qed

definition huge_token :: string where
  "huge_token = ''e30.'' @ b64_encode ''{\"ttl\":9223372037}'' @ ''.c2ln''"

definition wrapped_token :: string where
  "wrapped_token = ''e30.'' @ b64_encode ''{\"ttl\":18446744074}'' @ ''.c2ln''"

theorem huge_ttl_wraps_witness:
  "peek_ttl huge_token (5 * minute) (time_unix 1783166400) = 0 \<and>
   peek_ttl wrapped_token (5 * minute) (time_unix 1783166400) = 290448384"
proof -
  have "token_claims huge_token = unmarshal_claims ''{\"ttl\":9223372037}''"
    "token_claims wrapped_token = unmarshal_claims ''{\"ttl\":18446744074}''"
    using token_claims_encode [of "''e30''" "''c2ln''"] by (simp_all add: huge_token_def wrapped_token_def)
  moreover have "unmarshal_claims ''{\"ttl\":9223372037}'' = Some (Some 9223372037, None)"
    "unmarshal_claims ''{\"ttl\":18446744074}'' = Some (Some 18446744074, None)" by code_simp+
  ultimately have "token_claims huge_token = Some (Some 9223372037, None)"
    "token_claims wrapped_token = Some (Some 18446744074, None)" by simp_all
  from this [THEN huge_ttl_wraps, of "5 * minute" "time_unix 1783166400"] show ?thesis by simp
qed

end
