(* ===== verification/Fetcher.thy ===== *)
theory Fetcher
  imports Go_Std
begin

text \<open>
  \<open>internal/prefetch/fetcher.go\<close>: the size-capped HTTP fetcher. \<open>http.NewRequestWithContext\<close> and
  the client's \<open>Do\<close> are parameters; a response is its status, the bytes its body delivers and the error
  the body ends with, if any.
\<close>

record request =
  rq_url :: string
  rq_accept :: string

record response =
  rs_status :: int
  rs_body :: string
  rs_body_err :: "gerr option"

record 'n http =
  ht_new_request :: "string \<Rightarrow> request result"
  ht_do :: "request \<Rightarrow> 'n \<Rightarrow> response result \<times> 'n"

record 'n http_fetcher =
  hf_client :: "'n http"
  hf_max_bytes :: int

text \<open>\<open>NewHTTPFetcher\<close>: \<open>instrument\<close> builds the instrumented client with a timeout.\<close>

definition new_http_fetcher :: "(int \<Rightarrow> 'n http) \<Rightarrow> int \<Rightarrow> int \<Rightarrow> 'n http_fetcher" where
  "new_http_fetcher instrument max_bytes timeout = \<lparr>hf_client = instrument timeout, hf_max_bytes = max_bytes\<rparr>"

text \<open>\<open>io.ReadAll(io.LimitReader(body, n))\<close>: an error after the limit is not seen.\<close>

definition read_limited :: "int \<Rightarrow> response \<Rightarrow> string result" where
  "read_limited n resp =
     (if n \<le> 0 then Inr []
      else if n \<le> int (length (rs_body resp)) then Inr (take (nat n) (rs_body resp))
      else (case rs_body_err resp of Some e \<Rightarrow> Inl e | None \<Rightarrow> Inr (rs_body resp)))"

definition fetch_get :: "'n http_fetcher \<Rightarrow> string \<Rightarrow> 'n \<Rightarrow> string result \<times> 'n" where
  "fetch_get f list_url c =
     (case ht_new_request (hf_client f) list_url of
        Inl e \<Rightarrow> (Inl (ErrWrap ''prefetch: build request: '' e), c)
      | Inr req \<Rightarrow>
          (let (r, c1) = ht_do (hf_client f) (req\<lparr>rq_accept := ''application/statuslist+jwt''\<rparr>) c
           in case r of
                Inl e \<Rightarrow>
                  (case as_url_error e of
                     Some (op, u, inner) \<Rightarrow> (Inl (ErrWrap ''prefetch: fetch status list: '' inner), c1)
                   | None \<Rightarrow> (Inl (ErrWrap ''prefetch: fetch status list: '' e), c1))
              | Inr resp \<Rightarrow>
                  if rs_status resp \<noteq> 200
                  then (Inl (ErrMsg (''prefetch: fetch status list: unexpected status '' @ show_int (rs_status resp))), c1)
                  else
                    (case read_limited (i64 (hf_max_bytes f + 1)) resp of
                       Inl e \<Rightarrow> (Inl (ErrWrap ''prefetch: read status list: '' e), c1)
                     | Inr body \<Rightarrow>
                         if hf_max_bytes f < int (length body)
                         then (Inl (ErrMsg (''prefetch: status list exceeds '' @ show_int (hf_max_bytes f) @ '' bytes cap'')), c1)
                         else (Inr body, c1))))"

section \<open>What the documentation of net/http promises of errors\<close>

text \<open>
  \<open>NewRequest\<close> fails on a URL that does not parse, with the \<open>*url.Error\<close> of \<open>url.Parse\<close>, which carries
  the raw URL. \<open>Client.Do\<close> fails with a \<open>*url.Error\<close> around an error that is not one.
\<close>

locale http_client =
  fixes h :: "'n http"
  assumes parse_error: "ht_new_request h u = Inl e \<Longrightarrow> \<exists>x. e = UrlError ''parse'' u x"
    and do_error: "ht_do h r c = (Inl e, c') \<Longrightarrow> \<exists>op u x. e = UrlError op u x \<and> err_urls x = []"
    and body_error: "ht_do h r c = (Inr resp, c') \<Longrightarrow> rs_body_err resp = Some e \<Longrightarrow> err_urls e = []"
begin

end

text \<open>For the log it matters that the errors of the transport and of a body print no URL once the \<open>*url.Error\<close>
  around them is gone.\<close>

locale quiet_http = http_client +
  assumes do_text: "ht_do h r c = (Inl (UrlError op u x), c') \<Longrightarrow> url_free (err_text x)"
    and body_text: "ht_do h r c = (Inr resp, c') \<Longrightarrow> rs_body_err resp = Some e \<Longrightarrow> url_free (err_text e)"
begin

lemma fetch_errors:
  assumes "hf_client f = h" "fetch_get f u c = (Inl e, c')" "is_ok (ht_new_request h u)"
  shows "url_free (err_text e)"
proof -
  obtain req where req: "ht_new_request h u = Inr req" using assms(3) by (auto simp: is_ok_def)
  obtain r c1 where d: "ht_do h (req\<lparr>rq_accept := ''application/statuslist+jwt''\<rparr>) c = (r, c1)" by force
  show ?thesis
  proof (cases r)
    case (Inl x)
    from do_error [OF d [unfolded Inl]] obtain op v y where x: "x = UrlError op v y" by blast
    have "fetch_get f u c = (Inl (ErrWrap ''prefetch: fetch status list: '' y), c1)"
      using assms(1) req d Inl x by (simp add: fetch_get_def)
    with assms(2) do_text [OF d [unfolded Inl x]] show ?thesis by auto
  next
    case r: (Inr resp)
    show ?thesis
    proof (cases "read_limited (i64 (hf_max_bytes f + 1)) resp")
      case (Inl y)
      then have "rs_body_err resp = Some y" by (auto simp: read_limited_def split: if_splits option.splits)
      from body_text [OF d [unfolded r] this] have "url_free (err_text y)" .
      with assms req d r Inl show ?thesis
        using url_free_int [of _ "[]"] by (auto simp: fetch_get_def split: if_splits)
    next
      case (Inr body)
      with assms req d r show ?thesis
        using url_free_int [of _ "[]"] by (auto simp: fetch_get_def url_free_int split: if_splits)
    qed
  qed
qed

end

text \<open>A client that satisfies it: URLs with a space do not parse, one host answers.\<close>

definition ref_http :: "unit http" where
  "ref_http =
     \<lparr>ht_new_request = (\<lambda>u. if CHR '' '' \<in> set u then Inl (UrlError ''parse'' u (ErrMsg ''invalid character in host name''))
        else Inr \<lparr>rq_url = u, rq_accept = []\<rparr>),
      ht_do = (\<lambda>r c. if has_prefix ''https://issuer.example/'' (rq_url r)
        then (Inr \<lparr>rs_status = 200, rs_body = ''e30.e30.c2ln'', rs_body_err = None\<rparr>, c)
        else (Inl (UrlError ''Get'' (rq_url r) (ErrMsg ''no such host'')), c))\<rparr>"

interpretation ref_http: quiet_http ref_http
  by unfold_locales (auto simp: ref_http_def split: if_splits)

section \<open>Properties\<close>


definition ref_fetcher :: "unit http_fetcher" where
  "ref_fetcher = \<lparr>hf_client = ref_http, hf_max_bytes = 1048576\<rparr>"

lemma ref_fetch_ok: "fetch_get ref_fetcher ''https://issuer.example/1'' () = (Inr ''e30.e30.c2ln'', ())"
proof -
  have "is_i64 1048577" by (simp add: is_i64_def)
  then show ?thesis by (simp add: fetch_get_def ref_fetcher_def ref_http_def read_limited_def)
qed


end
