(* ===== verification/Prefetch.thy ===== *)
theory Prefetch
  imports Peek_TTL Fetcher Syncer Store_Properties
begin

text \<open>
  \<open>internal/prefetch/prefetch.go\<close>: one pass over the most recently referenced status lists. Effects go
  through the same \<open>world\<close> as the syncer's.
\<close>

section \<open>Configuration and interfaces\<close>

record prefetch_config =
  pc_top_n :: int
  pc_interval :: duration
  pc_default_ttl :: duration
  pc_min_ttl :: duration
  pc_max_ttl :: duration
  pc_max_bytes :: int

text \<open>The Go interfaces \<open>StatusRefSource\<close> and \<open>StatusStore\<close>, and the Valkey store as both.\<close>

record 's ref_source =
  rf_top :: "int \<Rightarrow> 's \<Rightarrow> string list result \<times> 's"

record 's status_store =
  su_get_ttl :: "string \<Rightarrow> 's \<Rightarrow> (duration \<times> bool) result \<times> 's"
  su_set_bytes :: "string \<Rightarrow> string \<Rightarrow> duration \<Rightarrow> 's \<Rightarrow> unit result \<times> 's"
  su_trim :: "int \<Rightarrow> 's \<Rightarrow> unit result \<times> 's"

definition valkey_refs :: "'s store \<Rightarrow> key_contract \<Rightarrow> 's ref_source" where
  "valkey_refs st K = \<lparr>rf_top = top_status_refs st K\<rparr>"

definition valkey_status :: "'s store \<Rightarrow> key_contract \<Rightarrow> 's status_store" where
  "valkey_status st K =
     \<lparr>su_get_ttl = get_ttl st, su_set_bytes = set_bytes st, su_trim = trim_status_refs st K\<rparr>"

text \<open>\<open>pf_fetch\<close> is the interface \<open>Fetcher\<close>; \<open>pf_list_key\<close> is the library's \<open>StatusListKey\<close>.\<close>

record ('s, 'c) prefetcher =
  pf_refs :: "'s ref_source"
  pf_fetch :: "string \<Rightarrow> 'c \<Rightarrow> string result \<times> 'c"
  pf_store :: "'s status_store"
  pf_cfg :: prefetch_config
  pf_now :: "'c \<Rightarrow> gotime \<times> 'c"
  pf_list_key :: "string \<Rightarrow> string"

definition refs_keep_bound :: int where
  "refs_keep_bound = 1000"

definition clamp_ttl :: "duration \<Rightarrow> duration \<Rightarrow> duration \<Rightarrow> duration" where
  "clamp_ttl ttl lo hi = (if ttl < lo then lo else if hi < ttl then hi else ttl)"

section \<open>One pass\<close>

definition count_prefetch :: "string \<Rightarrow> ('s, 'c) world \<Rightarrow> ('s, 'c) world" where
  "count_prefetch v = w_metric (IncCounter ''trust_cache_statuslist_prefetch_total'' [outcome v])"

definition warn_list :: "string \<Rightarrow> string \<Rightarrow> gerr \<Rightarrow> ('s, 'c) world \<Rightarrow> ('s, 'c) world" where
  "warn_list msg key e = w_log LWarn msg [(''list_key'', LvStr key), (''error'', LvErr e)]"

definition prefetch_one :: "('s, 'c) prefetcher \<Rightarrow> string \<Rightarrow> ('s, 'c) world \<Rightarrow> ('s, 'c) world" where
  "prefetch_one P uri w =
     (let key = pf_list_key P uri;
          (r, s) = su_get_ttl (pf_store P) key (wd_store w);
          w1 = w\<lparr>wd_store := s\<rparr>
      in case r of
           Inl e \<Rightarrow> warn_list ''status list ttl check failed'' key e (count_prefetch ''error'' w1)
         | Inr (ttl, exists) \<Rightarrow>
             if exists \<and> pc_interval (pf_cfg P) < ttl then count_prefetch ''hit'' w1
             else
               (let (b, c) = pf_fetch P uri (wd_env w1); w2 = w1\<lparr>wd_env := c\<rparr>
                in case b of
                     Inl e \<Rightarrow> warn_list ''status list prefetch failed'' key e (count_prefetch ''error'' w2)
                   | Inr body \<Rightarrow>
                       (let (now, c2) = pf_now P c; w3 = w2\<lparr>wd_env := c2\<rparr>;
                            cache_ttl = clamp_ttl (peek_ttl body (pc_default_ttl (pf_cfg P)) now)
                              (pc_min_ttl (pf_cfg P)) (pc_max_ttl (pf_cfg P));
                            (q, s2) = su_set_bytes (pf_store P) key body cache_ttl (wd_store w3);
                            w4 = w3\<lparr>wd_store := s2\<rparr>
                        in case q of
                             Inl e \<Rightarrow> warn_list ''status list cache write failed'' key e (count_prefetch ''error'' w4)
                           | Inr _ \<Rightarrow> count_prefetch ''refreshed'' w4)))"

fun prefetch_loop :: "('s, 'c) prefetcher \<Rightarrow> string list \<Rightarrow> ('s, 'c) world \<Rightarrow> ('s, 'c) world" where
  "prefetch_loop P [] w = w"
| "prefetch_loop P (u # us) w = prefetch_loop P us (prefetch_one P u w)"

definition trim_refs :: "('s, 'c) prefetcher \<Rightarrow> ('s, 'c) world \<Rightarrow> ('s, 'c) world" where
  "trim_refs P w =
     (let (r, s) = su_trim (pf_store P) refs_keep_bound (wd_store w); w1 = w\<lparr>wd_store := s\<rparr>
      in case r of Inl e \<Rightarrow> w_log LWarn ''status refs trim failed'' [(''error'', LvErr e)] w1 | Inr _ \<Rightarrow> w1)"

definition prefetch_run :: "('s, 'c) prefetcher \<Rightarrow> ('s, 'c) world \<Rightarrow> unit result \<times> ('s, 'c) world" where
  "prefetch_run P w =
     (if pc_top_n (pf_cfg P) \<le> 0 then (Inr (), w)
      else
        (let (r, s) = rf_top (pf_refs P) (pc_top_n (pf_cfg P)) (wd_store w); w1 = w\<lparr>wd_store := s\<rparr>
         in case r of
              Inl e \<Rightarrow> (Inl (ErrWrap ''prefetch: list refs: '' e), w1)
            | Inr uris \<Rightarrow> (Inr (), trim_refs P (prefetch_loop P uris w1))))"

section \<open>The outcomes of one list\<close>

lemma prefetch_world_simps [simp]:
  "wd_store (count_prefetch v w) = wd_store w" "wd_env (count_prefetch v w) = wd_env w"
  "wd_obs (count_prefetch v w) =
     add_metric (IncCounter ''trust_cache_statuslist_prefetch_total'' [outcome v]) (wd_obs w)"
  "wd_store (warn_list m k e w) = wd_store w" "wd_env (warn_list m k e w) = wd_env w"
  "wd_obs (warn_list m k e w) = add_log LWarn m [(''list_key'', LvStr k), (''error'', LvErr e)] (wd_obs w)"
  by (simp_all add: count_prefetch_def warn_list_def)

text \<open>What one list does to the store, and what it reports: \<open>el\<close> is the error logged, if any.\<close>

lemma prefetch_one_cases:
  fixes P :: "('s, 'c) prefetcher" and w :: "('s, 'c) world"
  obtains (ttl_error) e s where "su_get_ttl (pf_store P) (pf_list_key P uri) (wd_store w) = (Inl e, s)"
      "wd_store (prefetch_one P uri w) = s" "wd_env (prefetch_one P uri w) = wd_env w"
      "wd_obs (prefetch_one P uri w) = add_log LWarn ''status list ttl check failed''
         [(''list_key'', LvStr (pf_list_key P uri)), (''error'', LvErr e)]
         (add_metric (IncCounter ''trust_cache_statuslist_prefetch_total'' [outcome ''error'']) (wd_obs w))"
    | (hit) ttl s where "su_get_ttl (pf_store P) (pf_list_key P uri) (wd_store w) = (Inr (ttl, True), s)"
      "pc_interval (pf_cfg P) < ttl"
      "wd_store (prefetch_one P uri w) = s" "wd_env (prefetch_one P uri w) = wd_env w"
      "wd_obs (prefetch_one P uri w) =
         add_metric (IncCounter ''trust_cache_statuslist_prefetch_total'' [outcome ''hit'']) (wd_obs w)"
    | (fetch_error) x s e c where "su_get_ttl (pf_store P) (pf_list_key P uri) (wd_store w) = (Inr x, s)"
      "\<not> (snd x \<and> pc_interval (pf_cfg P) < fst x)" "pf_fetch P uri (wd_env w) = (Inl e, c)"
      "wd_store (prefetch_one P uri w) = s"
      "wd_obs (prefetch_one P uri w) = add_log LWarn ''status list prefetch failed''
         [(''list_key'', LvStr (pf_list_key P uri)), (''error'', LvErr e)]
         (add_metric (IncCounter ''trust_cache_statuslist_prefetch_total'' [outcome ''error'']) (wd_obs w))"
    | (written) x s body c now c2 q s2 where "su_get_ttl (pf_store P) (pf_list_key P uri) (wd_store w) = (Inr x, s)"
      "\<not> (snd x \<and> pc_interval (pf_cfg P) < fst x)" "pf_fetch P uri (wd_env w) = (Inr body, c)"
      "pf_now P c = (now, c2)"
      "su_set_bytes (pf_store P) (pf_list_key P uri) body
         (clamp_ttl (peek_ttl body (pc_default_ttl (pf_cfg P)) now) (pc_min_ttl (pf_cfg P)) (pc_max_ttl (pf_cfg P))) s
         = (q, s2)"
      "wd_store (prefetch_one P uri w) = s2"
      "wd_obs (prefetch_one P uri w) =
         (case q of
            Inl e \<Rightarrow> add_log LWarn ''status list cache write failed''
              [(''list_key'', LvStr (pf_list_key P uri)), (''error'', LvErr e)]
              (add_metric (IncCounter ''trust_cache_statuslist_prefetch_total'' [outcome ''error'']) (wd_obs w))
          | Inr _ \<Rightarrow> add_metric (IncCounter ''trust_cache_statuslist_prefetch_total'' [outcome ''refreshed'']) (wd_obs w))"
proof -
  obtain r s where g: "su_get_ttl (pf_store P) (pf_list_key P uri) (wd_store w) = (r, s)" by force
  show ?thesis
  proof (cases r)
    case (Inl e)
    with g show ?thesis by (intro ttl_error [of e s]) (simp_all add: prefetch_one_def Let_def)
  next
    case (Inr x)
    obtain ttl ex where x: "x = (ttl, ex)" by force
    show ?thesis
    proof (cases "ex \<and> pc_interval (pf_cfg P) < ttl")
      case True
      with g Inr x show ?thesis by (intro hit [of ttl s]) (simp_all add: prefetch_one_def Let_def)
    next
      case stale: False
      obtain b c where f: "pf_fetch P uri (wd_env w) = (b, c)" by force
      show ?thesis
      proof (cases b)
        case (Inl e)
        with g Inr x stale f show ?thesis
          by (intro fetch_error [of x s e c]) (auto simp: prefetch_one_def)
      next
        case body: (Inr body)
        obtain now c2 where n: "pf_now P c = (now, c2)" by force
        obtain q s2 where q: "su_set_bytes (pf_store P) (pf_list_key P uri) body
         (clamp_ttl (peek_ttl body (pc_default_ttl (pf_cfg P)) now) (pc_min_ttl (pf_cfg P)) (pc_max_ttl (pf_cfg P))) s
         = (q, s2)" by force
        from g Inr x stale f body n q show ?thesis
          by (intro written [of x s body c now c2 q s2]) (auto simp: prefetch_one_def Let_def split: sum.splits)
      qed
    qed
  qed
qed

lemma clamp_ttl_bounds: "lo \<le> hi \<Longrightarrow> lo \<le> clamp_ttl t lo hi \<and> clamp_ttl t lo hi \<le> hi"
  by (simp add: clamp_ttl_def)

lemma clamp_ttl_le: "lo \<le> hi \<Longrightarrow> clamp_ttl t lo hi \<le> hi"
  by (simp add: clamp_ttl_def)

section \<open>The writes of a pass\<close>

text \<open>A key a pass has written holds a value with a life within the clamp.\<close>

definition bounded_change :: "string set \<Rightarrow> duration \<Rightarrow> keyspace \<Rightarrow> keyspace \<Rightarrow> bool" where
  "bounded_change keys T ks ks' \<longleftrightarrow>
     (\<forall>k. ks_val ks' k = ks_val ks k \<or>
        (k \<in> keys \<and> (\<exists>v ms. ks_val ks' k = Some (v, Some ms) \<and> 0 < ms \<and> ms * millisecond \<le> T)))"

lemma bounded_change_refl: "bounded_change keys T ks ks"
  by (simp add: bounded_change_def)

lemma bounded_change_trans:
  "bounded_change keys T ks ks1 \<Longrightarrow> bounded_change keys T ks1 ks2 \<Longrightarrow> bounded_change keys T ks ks2"
  unfolding bounded_change_def by metis

context valkey_store
begin

lemma get_ttl_view:
  assumes "get_ttl st k s = (r, s')" shows "view s' = view s"
proof -
  obtain resp s1 where d: "do1 (st_client st) (CPttl (st_key st k)) s = (resp, s1)" by force
  with assms have "s' = s1" by (auto simp: get_ttl_def split: sum.splits if_splits)
  with read_law [OF _ d] show ?thesis by simp
qed

lemma set_bytes_bounded:
  assumes "set_bytes st key v ttl s = (r, s')" "ttl \<le> T"
  shows "bounded_change {st_key st key} T (view s) (view s')"
proof (rule set_bytes_cases [OF assms(1)], goal_cases rejected written failed)
  case rejected
  then show ?case by (simp add: bounded_change_refl)
next
  case written
  with short_ex [OF written(1) assms(2)] show ?case by (simp add: bounded_change_def)
next
  case failed
  with short_ex [OF failed(1) assms(2)] show ?case by (auto simp: bounded_change_def split: if_splits)
qed

lemma prefetch_one_bounded:
  assumes P: "pf_store P = valkey_status st K" and T: "pc_min_ttl (pf_cfg P) \<le> pc_max_ttl (pf_cfg P)"
  shows "bounded_change {st_key st (pf_list_key P uri)} (pc_max_ttl (pf_cfg P)) (view (wd_store w))
    (view (wd_store (prefetch_one P uri w)))"
proof (rule prefetch_one_cases [of P uri w], goal_cases ttl_error hit fetch_error written)
  case (written x s body c now c2 q s2)
  have "view s = view (wd_store w)" using written(1) P get_ttl_view by (simp add: valkey_status_def)
  with written(5,6) set_bytes_bounded [of "pf_list_key P uri" body _ s q s2, OF _ clamp_ttl_le [OF T]] P
  show ?case by (simp add: valkey_status_def)
qed (use P get_ttl_view bounded_change_refl in \<open>fastforce simp: valkey_status_def\<close>)+

lemma prefetch_loop_bounded:
  assumes P: "pf_store P = valkey_status st K" and T: "pc_min_ttl (pf_cfg P) \<le> pc_max_ttl (pf_cfg P)"
    and keys: "st_key st ` pf_list_key P ` set us \<subseteq> keys"
  shows "bounded_change keys (pc_max_ttl (pf_cfg P)) (view (wd_store w)) (view (wd_store (prefetch_loop P us w)))"
  using keys
proof (induction us arbitrary: w)
  case Nil
  then show ?case by (simp add: bounded_change_refl)
next
  case (Cons u us)
  have "bounded_change keys (pc_max_ttl (pf_cfg P)) (view (wd_store w)) (view (wd_store (prefetch_one P u w)))"
    using prefetch_one_bounded [OF P T, of u w] Cons.prems unfolding bounded_change_def by auto
  with Cons.IH [of "prefetch_one P u w"] Cons.prems show ?case by (auto intro: bounded_change_trans)
qed

end

text \<open>A write replaces whatever its key held; no other sorted set changes.\<close>

definition zsets_cleared :: "string set \<Rightarrow> keyspace \<Rightarrow> keyspace \<Rightarrow> bool" where
  "zsets_cleared keys ks ks' \<longleftrightarrow> (\<forall>k. ks_zset ks' k = ks_zset ks k \<or> k \<in> keys \<and> ks_zset ks' k = [])"

lemma zsets_cleared_trans:
  "zsets_cleared keys ks ks1 \<Longrightarrow> zsets_cleared keys ks1 ks2 \<Longrightarrow> zsets_cleared keys ks ks2"
  unfolding zsets_cleared_def by metis

context valkey_store
begin

lemma set_bytes_zsets:
  assumes "set_bytes st key v ttl s = (r, s')"
  shows "zsets_cleared {st_key st key} (view s) (view s')"
  by (rule set_bytes_cases [OF assms]) (auto simp: zsets_cleared_def split: if_splits)

lemma prefetch_one_zsets:
  assumes P: "pf_store P = valkey_status st K"
  shows "zsets_cleared {st_key st (pf_list_key P uri)} (view (wd_store w)) (view (wd_store (prefetch_one P uri w)))"
proof (rule prefetch_one_cases [of P uri w], goal_cases ttl_error hit fetch_error written)
  case (written x s body c now c2 q s2)
  have "view s = view (wd_store w)" using written(1) P get_ttl_view by (simp add: valkey_status_def)
  with written(5,6) set_bytes_zsets [of "pf_list_key P uri" body _ s q s2] P
  show ?case by (simp add: valkey_status_def)
qed (use P get_ttl_view in \<open>fastforce simp: valkey_status_def zsets_cleared_def\<close>)+

lemma prefetch_loop_zsets:
  assumes P: "pf_store P = valkey_status st K" and keys: "st_key st ` pf_list_key P ` set us \<subseteq> keys"
  shows "zsets_cleared keys (view (wd_store w)) (view (wd_store (prefetch_loop P us w)))"
  using keys
proof (induction us arbitrary: w)
  case Nil
  then show ?case by (simp add: zsets_cleared_def)
next
  case (Cons u us)
  have "zsets_cleared keys (view (wd_store w)) (view (wd_store (prefetch_one P u w)))"
    using prefetch_one_zsets [OF P, of u w] Cons.prems unfolding zsets_cleared_def by auto
  with Cons.IH [of "prefetch_one P u w"] Cons.prems show ?case by (auto intro: zsets_cleared_trans)
qed

text \<open>The trim leaves the newest \<open>refs_keep_bound\<close> references, or leaves them all and says so.\<close>

lemma trim_refs_zsets:
  assumes P: "pf_store P = valkey_status st K"
  defines "refs \<equiv> st_key st (status_refs_key K)"
  shows "(\<forall>k. k \<noteq> refs \<longrightarrow> ks_zset (view (wd_store (trim_refs P w))) k = ks_zset (view (wd_store w)) k) \<and>
    (ks_zset (view (wd_store (trim_refs P w))) refs =
       drop (length (ks_zset (view (wd_store w)) refs) - 1000) (ks_zset (view (wd_store w)) refs) \<or>
     ks_zset (view (wd_store (trim_refs P w))) refs = ks_zset (view (wd_store w)) refs \<and>
       (\<exists>e. last (ob_log (wd_obs (trim_refs P w))) =
          \<lparr>le_level = LWarn, le_msg = ''status refs trim failed'', le_fields = [(''error'', LvErr e)]\<rparr>))"
proof -
  obtain r s where t: "trim_status_refs st K refs_keep_bound (wd_store w) = (r, s)" by force
  then have w': "wd_store (trim_refs P w) = s"
    "\<not> is_ok r \<Longrightarrow> \<exists>e. last (ob_log (wd_obs (trim_refs P w))) =
       \<lparr>le_level = LWarn, le_msg = ''status refs trim failed'', le_fields = [(''error'', LvErr e)]\<rparr>"
    using P by (cases r; simp add: trim_refs_def valkey_status_def Let_def)+
  have keep: "out_of_range 0 (i64 (- refs_keep_bound - 1)) xs = drop (length xs - 1000) xs" for xs :: "string list"
    using out_of_range_keep [of 1000 xs] by (simp add: refs_keep_bound_def i64_def)
  show ?thesis
    unfolding w'(1) refs_def
    by (rule trim_cases [OF t]) (use keep w'(2) in auto)
qed

lemma trim_refs_val:
  assumes "pf_store P = valkey_status st K"
  shows "ks_val (view (wd_store (trim_refs P w))) = ks_val (view (wd_store w))"
proof -
  obtain r s where t: "trim_status_refs st K refs_keep_bound (wd_store w) = (r, s)" by force
  have "ks_val (view s) = ks_val (view (wd_store w))"
    by (rule trim_cases [OF t]) auto
  then show ?thesis using t assms by (simp add: trim_refs_def valkey_status_def Let_def split: sum.splits)
qed

end

text \<open>
  C13. An attacker's claims cannot pin garbage: whatever the token bytes say, a pass changes no value but those of the
  status-list keys of at most \<open>TopN\<close> referenced URIs, the most recent ones, and each value it changed expires within the
  configured maximum. Besides, a pass that has listed the references cuts the set of references to exactly its
  newest 1000 members, or leaves it as it was and logs that the trim failed; no other sorted set changes (but one that
  was held at a listed key, which the write replaces). With \<open>TopN\<close> at most 0, or when the listing fails, nothing changes.
\<close>

theorem prefetch_writes_bounded:
  assumes "valkey_store st view ex_ms K wire C wf_entry wf_index wf_freshness"
    and "pf_refs P = valkey_refs st K" "pf_store P = valkey_status st K"
    and "pc_min_ttl (pf_cfg P) \<le> pc_max_ttl (pf_cfg P)"
    and "prefetch_run P w = (r, w')" "old = view (wd_store w)" "new = view (wd_store w')" "refs = st_key st (status_refs_key K)"
    and "listed = (\<lambda>u. st_key st (pf_list_key P u)) ` set (take (nat (pc_top_n (pf_cfg P))) (rev (ks_zset old refs)))" "refs \<notin> listed"
  shows "(\<not> is_ok r \<or> pc_top_n (pf_cfg P) \<le> 0 \<longrightarrow> new = old) \<and>
    (\<forall>k. ks_val new k \<noteq> ks_val old k \<longrightarrow> k \<in> listed \<and>
       (\<exists>v ms. ks_val new k = Some (v, Some ms) \<and> 0 < ms \<and> ms * millisecond \<le> pc_max_ttl (pf_cfg P))) \<and>
    (is_ok r \<and> 0 < pc_top_n (pf_cfg P) \<longrightarrow>
       ks_zset new refs = drop (length (ks_zset old refs) - 1000) (ks_zset old refs) \<or>
       ks_zset new refs = ks_zset old refs \<and>
         (\<exists>e. last (ob_log (wd_obs w')) =
            \<lparr>le_level = LWarn, le_msg = ''status refs trim failed'', le_fields = [(''error'', LvErr e)]\<rparr>)) \<and>
    (\<forall>k. k \<noteq> refs \<longrightarrow> ks_zset new k = ks_zset old k \<or> k \<in> listed \<and> ks_zset new k = [])"
proof -
  note vs = assms(1)
  obtain q s where q: "top_status_refs st K (pc_top_n (pf_cfg P)) (wd_store w) = (q, s)" by force
  have vq: "view s = old" using valkey_store.top_view [OF vs q] assms(6) by simp
  consider (off) "pc_top_n (pf_cfg P) \<le> 0" "is_ok r" "new = old"
    | (unlisted) "0 < pc_top_n (pf_cfg P)" "\<not> is_ok r" "new = old"
    | (pass) uris where "0 < pc_top_n (pf_cfg P)" "is_ok r" "q = Inr uris"
        "w' = trim_refs P (prefetch_loop P uris (w\<lparr>wd_store := s\<rparr>))"
    using assms(2,5-7) q vq by (cases q) (auto simp: prefetch_run_def valkey_refs_def split: if_splits)
  then show ?thesis
  proof cases
    case pass
    let ?v = "prefetch_loop P uris (w\<lparr>wd_store := s\<rparr>)"
    have "uris = take (nat (pc_top_n (pf_cfg P))) (rev (ks_zset old refs))"
      using valkey_store.top_spec [OF vs q [unfolded pass(3)]] assms(6,8) by simp
    then have keys: "st_key st ` pf_list_key P ` set uris \<subseteq> listed" using assms(9) by auto
    have val: "bounded_change listed (pc_max_ttl (pf_cfg P)) old (view (wd_store ?v))"
      using valkey_store.prefetch_loop_bounded [OF vs assms(3,4) keys, of "w\<lparr>wd_store := s\<rparr>"] vq by simp
    have zs: "zsets_cleared listed old (view (wd_store ?v))"
      using valkey_store.prefetch_loop_zsets [OF vs assms(3) keys, of "w\<lparr>wd_store := s\<rparr>"] vq by simp
    have kept: "ks_zset (view (wd_store ?v)) refs = ks_zset old refs" using zs assms(10) by (auto simp: zsets_cleared_def)
    note tr = valkey_store.trim_refs_zsets [OF vs assms(3), of ?v, folded pass(4) assms(7,8), unfolded kept]
    have "ks_val new = ks_val (view (wd_store ?v))"
      using valkey_store.trim_refs_val [OF vs assms(3), of ?v] pass(4) assms(7) by simp
    with val have "\<forall>k. ks_val new k \<noteq> ks_val old k \<longrightarrow> k \<in> listed \<and>
        (\<exists>v ms. ks_val new k = Some (v, Some ms) \<and> 0 < ms \<and> ms * millisecond \<le> pc_max_ttl (pf_cfg P))"
      by (simp add: bounded_change_def) metis
    moreover have "\<forall>k. k \<noteq> refs \<longrightarrow> ks_zset new k = ks_zset old k \<or> k \<in> listed \<and> ks_zset new k = []"
      using tr zs by (simp add: zsets_cleared_def)
    ultimately show ?thesis using tr pass(1,2) by simp
  qed simp_all
qed

text \<open>A pass on the reference store over one referenced URI.\<close>

definition ref_prefetcher :: "(refsrv, unit) prefetcher" where
  "ref_prefetcher =
     \<lparr>pf_refs = valkey_refs ref_store ref_keys, pf_fetch = fetch_get ref_fetcher,
      pf_store = valkey_status ref_store ref_keys,
      pf_cfg = \<lparr>pc_top_n = 50, pc_interval = minute, pc_default_ttl = 5 * minute, pc_min_ttl = 30 * second,
        pc_max_ttl = 24 * hour, pc_max_bytes = 1048576\<rparr>,
      pf_now = (\<lambda>c. (time_unix 1783166400, c)), pf_list_key = status_list_key ref_keys\<rparr>"

definition prefetch_world :: "string list \<Rightarrow> (refsrv, unit) world" where
  "prefetch_world uris =
     \<lparr>wd_store = \<lparr>rs_ks = empty_ks\<lparr>ks_zset := (\<lambda>k. if k = ''verifierdev:trust:statuslist:refs'' then uris else [])\<rparr>,
                rs_faults = []\<rparr>,
      wd_env = (), wd_health = new_state [], wd_reg = empty_registry, wd_etags = Map.empty, wd_obs = no_obs\<rparr>"

lemma ref_peek: "peek_ttl ''e30.e30.c2ln'' (5 * minute) now = 5 * minute"
proof -
  have "token_claims ''e30.e30.c2ln'' = Some (None, None)" by code_simp
  then show ?thesis by (simp add: peek_ttl_claims claims_ttl_def)
qed

lemma ref_top: "top_status_refs ref_store ref_keys 50 (wd_store (prefetch_world [u])) = (Inr [u], wd_store (prefetch_world [u]))"
  by (simp add: top_status_refs_def ref_run_simps prefetch_world_def in_range_def rank_lo_def rank_hi_def Let_def)

lemma ref_miss: "get_ttl ref_store k (wd_store (prefetch_world us)) = (Inr (0, False), wd_store (prefetch_world us))"
  by (simp add: get_ttl_def do1_def ref_store_def ref_drv_def ref_reply_def ref_apply_def prefetch_world_def empty_ks_def
      Let_def)

lemma ref_refs_top:
  "0 < pc_top_n (pf_cfg ref_prefetcher)"
  "rf_top (pf_refs ref_prefetcher) (pc_top_n (pf_cfg ref_prefetcher)) (wd_store (prefetch_world [u])) =
     (Inr [u], wd_store (prefetch_world [u]))"
  using ref_top [of u] by (simp_all add: ref_prefetcher_def valkey_refs_def)

lemma ref_prefetch_changes:
  "ks_val (rs_ks (wd_store (snd (prefetch_run ref_prefetcher (prefetch_world [''https://issuer.example/1''])))))
     (st_key ref_store (status_list_key ref_keys ''https://issuer.example/1'')) \<noteq> None"
proof -
  let ?u = "''https://issuer.example/1''"
  let ?w = "prefetch_world [?u]" and ?k = "status_list_key ref_keys ?u"
  note top = ref_top [of ?u]
  note ttl = ref_miss [of ?k "[?u]"]
  obtain s2 where put: "set_bytes ref_store ?k ''e30.e30.c2ln'' (5 * minute) (wd_store ?w) = (Inr (), s2)"
    "ks_val (rs_ks s2) (st_key ref_store ?k) \<noteq> None"
    by (simp add: set_bytes_def do1_def ref_store_def ref_drv_def ref_reply_def ref_apply_def prefetch_world_def empty_ks_def
        Let_def minute_def second_def)
  have cl: "clamp_ttl (5 * minute) (30 * second) (24 * hour) = 5 * minute"
    by (simp add: clamp_ttl_def minute_def second_def hour_def)
  have env: "wd_env ?w = ()" "prefetch_world [?u]\<lparr>wd_store := wd_store ?w\<rparr> = ?w" by (simp_all add: prefetch_world_def)
  have one: "wd_store (prefetch_one ref_prefetcher ?u ?w) = s2"
    using ttl put cl ref_fetch_ok ref_peek [of "time_unix 1783166400"] env
    by (simp add: prefetch_one_def ref_prefetcher_def valkey_status_def Let_def)
  have "wd_store (snd (prefetch_run ref_prefetcher ?w)) = wd_store (trim_refs ref_prefetcher (prefetch_one ref_prefetcher ?u ?w))"
    using top env by (simp add: prefetch_run_def ref_prefetcher_def valkey_refs_def)
  moreover have "ks_val (rs_ks (wd_store (trim_refs ref_prefetcher w))) = ks_val (rs_ks (wd_store w))" for w
    by (rule ref_store.trim_refs_val) (simp add: ref_prefetcher_def)
  ultimately show ?thesis using one put(2) by simp
qed

theorem prefetch_writes_bounded_witness:
  "\<exists>v ms w'. prefetch_run ref_prefetcher (prefetch_world [''https://issuer.example/1'']) = (Inr (), w') \<and>
     ks_val (rs_ks (wd_store w')) (st_key ref_store (status_list_key ref_keys ''https://issuer.example/1'')) = Some (v, Some ms) \<and>
     0 < ms \<and> ms * millisecond \<le> 24 * hour \<and>
     ks_zset (rs_ks (wd_store w')) ''verifierdev:trust:statuslist:refs'' = [''https://issuer.example/1'']"
proof -
  let ?w = "prefetch_world [''https://issuer.example/1'']"
  let ?k = "st_key ref_store (status_list_key ref_keys ''https://issuer.example/1'')"
  have P: "pf_refs ref_prefetcher = valkey_refs ref_store ref_keys"
    "pf_store ref_prefetcher = valkey_status ref_store ref_keys"
    "pc_min_ttl (pf_cfg ref_prefetcher) \<le> pc_max_ttl (pf_cfg ref_prefetcher)"
    "pc_max_ttl (pf_cfg ref_prefetcher) = 24 * hour" "pc_top_n (pf_cfg ref_prefetcher) = 50"
    "pf_list_key ref_prefetcher = status_list_key ref_keys"
    by (simp_all add: ref_prefetcher_def hour_def minute_def second_def)
  have refs: "st_key ref_store (status_refs_key ref_keys) = ''verifierdev:trust:statuslist:refs''"
    by (simp add: st_key_def ref_store_def ref_keys_def readme_keys_def)
  obtain r w' where run: "prefetch_run ref_prefetcher ?w = (r, w')" by force
  have ok: "r = Inr ()" using run ref_refs_top by (auto simp: prefetch_run_def)
  have "ks_val (rs_ks (wd_store ?w)) ?k = None" by (simp add: prefetch_world_def empty_ks_def)
  with ref_prefetch_changes run have ch: "ks_val (rs_ks (wd_store w')) ?k \<noteq> ks_val (rs_ks (wd_store ?w)) ?k" by simp
  have zs: "ks_zset (rs_ks (wd_store ?w)) ''verifierdev:trust:statuslist:refs'' = [''https://issuer.example/1'']"
    by (simp add: prefetch_world_def)
  have "?k \<noteq> ''verifierdev:trust:statuslist:refs''"
    by (simp add: st_key_def ref_store_def ref_keys_def readme_keys_def)
  then have fresh: "''verifierdev:trust:statuslist:refs'' \<notin> (\<lambda>u. st_key ref_store (pf_list_key ref_prefetcher u)) `
      set (take (nat (pc_top_n (pf_cfg ref_prefetcher))) (rev (ks_zset (rs_ks (wd_store ?w)) ''verifierdev:trust:statuslist:refs'')))"
    using P(5,6) zs by simp
  note pass = prefetch_writes_bounded [OF ref_store.valkey_store_axioms P(1-3) run refl refl refl refl, unfolded refs, OF fresh]
  from pass [THEN conjunct2, THEN conjunct1, rule_format, OF ch] P(4)
  obtain v ms where v: "ks_val (rs_ks (wd_store w')) ?k = Some (v, Some ms)" "0 < ms" "ms * millisecond \<le> 24 * hour" by auto
  have "ks_zset (rs_ks (wd_store w')) ''verifierdev:trust:statuslist:refs'' = [''https://issuer.example/1'']"
    using pass [THEN conjunct2, THEN conjunct2, THEN conjunct1] ok P(5) zs by simp blast
  with v run ok show ?thesis by blast
qed

section \<open>One failing list does not abort the pass\<close>

text \<open>The outcomes counted, and the warnings of a pass.\<close>

fun prefetch_counts :: "metric_event list \<Rightarrow> string list" where
  "prefetch_counts [] = []"
| "prefetch_counts (IncCounter n [(l, v)] # ms) =
     (if n = ''trust_cache_statuslist_prefetch_total'' then v # prefetch_counts ms else prefetch_counts ms)"
| "prefetch_counts (m # ms) = prefetch_counts ms"

lemma prefetch_counts_append [simp]: "prefetch_counts (xs @ ys) = prefetch_counts xs @ prefetch_counts ys"
  by (induction xs rule: prefetch_counts.induct) auto

lemma prefetch_one_counts:
  "\<exists>v ls. prefetch_counts (ob_metrics (wd_obs (prefetch_one P u w))) = prefetch_counts (ob_metrics (wd_obs w)) @ [v] \<and>
     v \<in> {''hit'', ''refreshed'', ''error''} \<and> ob_log (wd_obs (prefetch_one P u w)) = ob_log (wd_obs w) @ ls \<and>
     length ls = (if v = ''error'' then 1 else 0)"
proof (rule prefetch_one_cases [of P u w], goal_cases ttl_error hit fetch_error written)
  case (written x s body c now c2 q s2)
  then show ?case by (cases q) (simp_all add: outcome_def)
qed (simp_all add: outcome_def)

lemma prefetch_loop_counts:
  "\<exists>vs ls. prefetch_counts (ob_metrics (wd_obs (prefetch_loop P us w))) = prefetch_counts (ob_metrics (wd_obs w)) @ vs \<and>
     length vs = length us \<and> set vs \<subseteq> {''hit'', ''refreshed'', ''error''} \<and>
     ob_log (wd_obs (prefetch_loop P us w)) = ob_log (wd_obs w) @ ls \<and>
     length ls = length (filter (\<lambda>v. v = ''error'') vs)"
proof (induction us arbitrary: w)
  case Nil
  then show ?case by simp
next
  case (Cons u us)
  obtain v l1 where v: "prefetch_counts (ob_metrics (wd_obs (prefetch_one P u w))) = prefetch_counts (ob_metrics (wd_obs w)) @ [v]"
    "v \<in> {''hit'', ''refreshed'', ''error''}" "ob_log (wd_obs (prefetch_one P u w)) = ob_log (wd_obs w) @ l1"
    "length l1 = (if v = ''error'' then 1 else 0)"
    using prefetch_one_counts [of P u w] by blast
  obtain vs ls where vs: "prefetch_counts (ob_metrics (wd_obs (prefetch_loop P us (prefetch_one P u w)))) =
      prefetch_counts (ob_metrics (wd_obs (prefetch_one P u w))) @ vs"
    "length vs = length us" "set vs \<subseteq> {''hit'', ''refreshed'', ''error''}"
    "ob_log (wd_obs (prefetch_loop P us (prefetch_one P u w))) = ob_log (wd_obs (prefetch_one P u w)) @ ls"
    "length ls = length (filter (\<lambda>v. v = ''error'') vs)"
    using Cons.IH [of "prefetch_one P u w"] by blast
  show ?case
    by (rule exI [of _ "v # vs"], rule exI [of _ "l1 @ ls"]) (use v vs in simp)
qed



end
