(* ===== verification/Worker_Loops.thy ===== *)
theory Worker_Loops
  imports Sync_Liveness Telemetry Prefetch
begin

text \<open>
  The three background loops of \<open>app.go\<close> on the one store and the one readiness state they share: the
  syncer, the snapshot poller and the status-list prefetcher. A step is one poll of one anchor type, one
  snapshot poll, the listing of references, the refresh of one list, the trim, a log line a job adds,
  or a route's look at the clock; they come in any order. The properties of the syncer alone hold for the whole worker because the loops write
  different keys and no clock runs backwards. These are the steps of the worker; what the server does between them, letting
  keys expire and even losing them, is a step of its own beside them: \<open>ages\<close> for the bound on lifetimes, \<open>timed_step\<close> in
  \<open>Served_Anchors\<close> for readiness, and \<open>life_step\<close> in \<open>Outage\<close>.
\<close>

section \<open>The loops\<close>

record ('s, 'c) worker =
  wk_syncer :: "('s, 'c) syncer"
  wk_poller :: "('s, 'c) poller"
  wk_prefetcher :: "('s, 'c) prefetcher"

inductive app_step ::
  "(anchor_set_entry \<Rightarrow> bool) \<Rightarrow> (string list \<Rightarrow> bool) \<Rightarrow> (type_freshness \<Rightarrow> bool) \<Rightarrow> ('s, 'c) worker
   \<Rightarrow> ('s, 'c) world \<Rightarrow> ('s, 'c) world \<Rightarrow> bool"
  for we wi wfr and W :: "('s, 'c) worker" where
  sync: "sync_type (wk_syncer W) t w = (r, w') \<Longrightarrow> poll_ok we wi wfr (wk_syncer W) t w \<Longrightarrow> app_step we wi wfr W w w'"
| snapshot: "poll (wk_poller W) w = (r, w') \<Longrightarrow> app_step we wi wfr W w w'"
| list_refs: "rf_top (pf_refs (wk_prefetcher W)) n (wd_store w) = (q, s) \<Longrightarrow>
    app_step we wi wfr W w (w\<lparr>wd_store := s\<rparr>)"
| one_list: "app_step we wi wfr W w (prefetch_one (wk_prefetcher W) uri w)"
| trim: "app_step we wi wfr W w (trim_refs (wk_prefetcher W) w)"
| report: "app_step we wi wfr W w (w_log lvl msg fs w)"
| look: "app_step we wi wfr W w (w\<lparr>wd_env := snd (sy_now (wk_syncer W) (wd_env w))\<rparr>)"

text \<open>The wiring of \<open>App.init\<close>: all three over one Valkey store.\<close>

definition worker_on :: "'s store \<Rightarrow> key_contract \<Rightarrow> codec \<Rightarrow> ('s, 'c) worker \<Rightarrow> bool" where
  "worker_on st K C W \<longleftrightarrow>
     syncer_on st K C (wk_syncer W) \<and>
     po_store (wk_poller W) = valkey_snapshots st C \<and> po_keys (wk_poller W) = K \<and>
     pf_refs (wk_prefetcher W) = valkey_refs st K \<and> pf_store (wk_prefetcher W) = valkey_status st K \<and>
     pf_list_key (wk_prefetcher W) = status_list_key K \<and>
     pc_min_ttl (pf_cfg (wk_prefetcher W)) \<le> pc_max_ttl (pf_cfg (wk_prefetcher W))"

section \<open>Keys and clocks of the whole worker\<close>

definition foreign_key :: "key_contract \<Rightarrow> string set \<Rightarrow> string \<Rightarrow> bool" where
  "foreign_key K wire k \<longleftrightarrow>
     (\<forall>t \<in> wire. (\<forall>x. k \<noteq> anchor_set_key K t x) \<and> k \<noteq> territory_index_key K t \<and> k \<noteq> etag_key K t \<and> k \<noteq> freshness_key K t)"

locale worker_keys = trust_keys +
  assumes list_foreign: "foreign_key K wire (status_list_key K u)"
    and health_foreign: "foreign_key K wire (snapshot_health_key K)"

interpretation readme_worker: worker_keys "readme_keys hash" "set wire_names"
proof unfold_locales
  fix u
  show "foreign_key (readme_keys hash) (set wire_names) (status_list_key (readme_keys hash) u)"
    by (simp add: foreign_key_def readme_keys_def)
  have "''snapshot'' \<notin> set wire_names" by (simp add: wire_names_def type_table_def)
  then show "foreign_key (readme_keys hash) (set wire_names) (snapshot_health_key (readme_keys hash))"
    by (auto simp: foreign_key_def readme_keys_def)
qed

locale app_clock = worker_clock "wk_syncer W" clk for W :: "('s, 'c) worker" and clk :: "'c \<Rightarrow> int" +
  assumes snapshot_clock: "clk c \<le> clk (snd (tc_snapshot (po_client (wk_poller W)) c))"
    and poller_now: "clk c \<le> clk (snd (po_now (wk_poller W) c))"
    and fetch_clock: "clk c \<le> clk (snd (pf_fetch (wk_prefetcher W) u c))"
    and prefetcher_now: "clk c \<le> clk (snd (pf_now (wk_prefetcher W) c))"
begin

lemma poll_clock_mono: "poll (wk_poller W) w = (r, w') \<Longrightarrow> clk (wd_env w) \<le> clk (wd_env w')"
proof -
  assume run: "poll (wk_poller W) w = (r, w')"
  obtain q c where q: "tc_snapshot (po_client (wk_poller W)) (wd_env w) = (q, c)" by force
  obtain now c2 where n: "po_now (wk_poller W) c = (now, c2)" by force
  have "clk (wd_env w) \<le> clk c" "clk c \<le> clk c2"
    using snapshot_clock [of "wd_env w"] poller_now [of c] q n by simp_all
  then show ?thesis
    using run q n by (auto simp: poll_def Let_def count_poll_def w_set_snapshot_def split: sum.splits prod.splits)
qed

lemma prefetch_clock_mono: "clk (wd_env w) \<le> clk (wd_env (prefetch_one (wk_prefetcher W) u w))"
proof -
  let ?c = "snd (pf_fetch (wk_prefetcher W) u (wd_env w))"
  have "clk (wd_env w) \<le> clk ?c" "clk ?c \<le> clk (snd (pf_now (wk_prefetcher W) ?c))"
    by (rule fetch_clock prefetcher_now)+
  then show ?thesis
    by (auto simp: prefetch_one_def Let_def split: sum.splits prod.splits)
qed

end

section \<open>What the other loops leave alone\<close>

text \<open>A change of foreign keys only is not seen in any type's cache.\<close>

definition foreign_change :: "key_contract \<Rightarrow> string set \<Rightarrow> string \<Rightarrow> keyspace \<Rightarrow> keyspace \<Rightarrow> bool" where
  "foreign_change K wire p ks ks' \<longleftrightarrow>
     (\<forall>k. ks_val ks' k = ks_val ks k \<or> (\<exists>j. foreign_key K wire j \<and> k = p @ j))"

lemma foreign_change_type:
  assumes "foreign_change K wire p ks ks'" "t \<in> wire"
  shows "abs_type K C p ks' t = abs_type K C p ks t \<and> index_covers K C p ks' t = index_covers K C p ks t"
proof -
  have "ks_val ks' (p @ k) = ks_val ks (p @ k)"
    if "k \<in> range (anchor_set_key K t) \<union> {territory_index_key K t, etag_key K t, freshness_key K t}" for k
  proof (rule ccontr)
    assume "ks_val ks' (p @ k) \<noteq> ks_val ks (p @ k)"
    with assms(1) have "foreign_key K wire k" by (auto simp: foreign_change_def)
    with that assms(2) show False by (auto simp: foreign_key_def)
  qed
  then show ?thesis
    by (simp add: abs_type_def entry_at_def [abs_def] etag_at_def freshness_at_def index_covers_def index_at_def)
qed

lemma bounded_is_foreign:
  assumes "bounded_change {p @ k} T ks ks'" "foreign_key K wire k"
  shows "foreign_change K wire p ks ks'"
  using assms by (auto simp: bounded_change_def foreign_change_def)

lemma same_is_foreign: "ks_val ks' = ks_val ks \<Longrightarrow> foreign_change K wire p ks ks'"
  by (simp add: foreign_change_def)

lemma prefetch_one_health [simp]: "wd_health (prefetch_one P u w) = wd_health w"
  by (simp add: prefetch_one_def Let_def count_prefetch_def warn_list_def split: sum.splits prod.splits)

lemma trim_refs_frame [simp]: "wd_health (trim_refs P w) = wd_health w" "wd_env (trim_refs P w) = wd_env w"
  by (simp_all add: trim_refs_def Let_def split: sum.splits prod.splits)

context valkey_store
begin

lemma set_json_bounded:
  assumes "set_json st enc key v ttl s = (r, s')"
  shows "bounded_change {st_key st key} ttl (view s) (view s')"
  using assms set_bytes_bounded [OF _ order_refl]
  by (auto simp: set_json_def bounded_change_refl split: sum.splits)

lemma poll_effect:
  assumes P: "po_store P = valkey_snapshots st C" "po_keys P = K" and run: "poll P w = (r, w')"
  shows "bounded_change {st_key st (snapshot_health_key K)} (po_fresh_for P) (view (wd_store w)) (view (wd_store w')) \<and>
    hs_fresh (wd_health w') = hs_fresh (wd_health w)"
proof (rule poll_cases [OF run], goal_cases upstream unpublished published)
  case (upstream e)
  then show ?case by (simp add: bounded_change_refl)
next
  case (unpublished meta e s c)
  with P have "set_json st (enc_health C) (snapshot_health_key K) (polled_health P meta w) (po_fresh_for P) (wd_store w) =
      (Inl e, s)" by (simp add: valkey_snapshots_def)
  from set_json_bounded [OF this] unpublished show ?case by simp
next
  case (published meta s c ls)
  with P have "set_json st (enc_health C) (snapshot_health_key K) (polled_health P meta w) (po_fresh_for P) (wd_store w) =
      (Inr (), s)" by (simp add: valkey_snapshots_def)
  from set_json_bounded [OF this] published show ?case by simp
qed

lemma world_ok_frame:
  assumes "world_ok clk S w" "foreign_change K wire (st_prefix st) (view (wd_store w)) (view (wd_store w'))"
    and "hs_fresh (wd_health w') = hs_fresh (wd_health w)" "clk (wd_env w) \<le> clk (wd_env w')"
  shows "world_ok clk S w'"
  using assms(1,3,4) foreign_change_type [OF assms(2)] by (auto simp: world_ok_def intro: type_ok_mono)

lemma world_ok_step:
  assumes clock: "app_clock W clk" and W: "worker_on st K C W" and wire: "wire = set wire_names" and keys: "worker_keys K wire"
    and step: "app_step wf_entry wf_index wf_freshness W w w'" and inv: "world_ok clk (wk_syncer W) w"
  shows "world_ok clk (wk_syncer W) w'"
proof -
  have wc: "worker_clock (wk_syncer W) clk" using clock by (simp add: app_clock_def)
  note foreign = worker_keys.list_foreign [OF keys] worker_keys.health_foreign [OF keys]
  note on = W [unfolded worker_on_def]
  from step show ?thesis
  proof cases
    case (sync t r)
    with world_ok_poll [OF wc _ wire] inv on show ?thesis by blast
  next
    case (snapshot r)
    then have e: "bounded_change {st_key st (snapshot_health_key K)} (po_fresh_for (wk_poller W)) (view (wd_store w))
        (view (wd_store w'))" "hs_fresh (wd_health w') = hs_fresh (wd_health w)"
      using poll_effect on by blast+
    from world_ok_frame [OF inv bounded_is_foreign [OF e(1) [unfolded st_key_def] foreign(2)] e(2)]
      app_clock.poll_clock_mono [OF clock snapshot] show ?thesis by blast
  next
    case (list_refs n q s)
    then have "view (wd_store w') = view (wd_store w)" using top_view on by (auto simp: valkey_refs_def)
    with list_refs show ?thesis by (intro world_ok_frame [OF inv]) (auto intro: same_is_foreign)
  next
    case (one_list u)
    have "bounded_change {st_key st (status_list_key K u)} (pc_max_ttl (pf_cfg (wk_prefetcher W))) (view (wd_store w))
        (view (wd_store w'))"
      using prefetch_one_bounded [of "wk_prefetcher W" u w] on one_list by simp
    from world_ok_frame [OF inv bounded_is_foreign [OF this [unfolded st_key_def] foreign(1)]] one_list
      app_clock.prefetch_clock_mono [OF clock] show ?thesis by simp
  next
    case trim
    with trim_refs_val on show ?thesis by (intro world_ok_frame [OF inv]) (auto intro: same_is_foreign)
  next
    case (report lvl msg fs)
    then show ?thesis by (intro world_ok_frame [OF inv]) (auto intro: same_is_foreign)
  next
    case look
    with worker_clock.now_bounds(5) [OF wc, of "wd_env w"] show ?thesis
      by (intro world_ok_frame [OF inv]) (auto intro: same_is_foreign)
  qed
qed

text \<open>Every step is a sequence of store operations with short enough lives.\<close>

lemma sync_store_steps:
  assumes S: "syncer_on st K C S" and T: "sc_cache_ttl (sy_cfg S) \<le> T" and run: "sync_type S t w = (r, w')"
  shows "(store_step st K C view T)\<^sup>*\<^sup>* (wd_store w) (wd_store w')"
proof (cases "wire_type t")
  case (Inl e)
  with run show ?thesis by (simp add: sync_type_def)
next
  case (Inr k)
  have I: "sy_store S = valkey_iface st K C" "second \<le> sc_cache_ttl (sy_cfg S)"
    using S by (simp_all add: syncer_on_def)
  note steps = store_step.swap [of "poll_swap S t k _ w" T st K C "wd_store w"]
    store_step.refresh [of "sc_cache_ttl (sy_cfg S)" T st K C k _ "wd_store w"]
  show ?thesis
    by (rule sync_type_cases [OF Inr run])
      (use I T steps in \<open>auto simp: valkey_iface_def poll_swap_def intro!: r_into_rtranclp\<close>)
qed

lemma poll_store_steps:
  assumes P: "po_store P = valkey_snapshots st C" "po_fresh_for P \<le> T" and run: "poll P w = (r, w')"
  shows "(store_step st K C view T)\<^sup>*\<^sup>* (wd_store w) (wd_store w')"
proof -
  have step: "(store_step st K C view T)\<^sup>*\<^sup>* (wd_store w) s"
    if "ss_set_json (po_store P) k h (po_fresh_for P) (wd_store w) = (q, s)" for k h q s
    using that P(1)
    by (auto simp: valkey_snapshots_def set_json_def split: sum.splits intro!: r_into_rtranclp
        intro: store_step.set_bytes [OF P(2)])
  show ?thesis
    by (rule poll_cases [OF run]) (use step in auto)
qed

lemma prefetch_store_steps:
  assumes P: "pf_store P = valkey_status st K" "pc_min_ttl (pf_cfg P) \<le> pc_max_ttl (pf_cfg P)" "pc_max_ttl (pf_cfg P) \<le> T"
  shows "(store_step st K C view T)\<^sup>*\<^sup>* (wd_store w) (wd_store (prefetch_one P u w))"
proof -
  have g: "store_step st K C view T s s'" if "su_get_ttl (pf_store P) k s = (q, s')" for k s q s'
    using that P(1) by (auto simp: valkey_status_def intro: store_step.get_ttl)
  show ?thesis
  proof (rule prefetch_one_cases [of P u w], goal_cases ttl_error hit fetch_error written)
    case (written x s body c now c2 q s2)
    have "store_step st K C view T s s2"
      using written(5) P(1) order_trans [OF clamp_ttl_le [OF P(2)] P(3)]
      by (auto simp: valkey_status_def intro: store_step.set_bytes)
    with g [OF written(1)] written(6) show ?case by (simp add: converse_rtranclp_into_rtranclp)
  qed (use g in auto)
qed

lemma app_store_steps:
  assumes W: "worker_on st K C W" and step: "app_step we wi wfr W w w'"
    and T: "sc_cache_ttl (sy_cfg (wk_syncer W)) \<le> T" "po_fresh_for (wk_poller W) \<le> T"
      "pc_max_ttl (pf_cfg (wk_prefetcher W)) \<le> T"
  shows "(store_step st K C view T)\<^sup>*\<^sup>* (wd_store w) (wd_store w')"
  using step
proof cases
  case (sync t r)
  with sync_store_steps [OF _ T(1) sync(1)] W show ?thesis by (simp add: worker_on_def)
next
  case (snapshot r)
  with poll_store_steps [OF _ T(2) snapshot] W show ?thesis by (simp add: worker_on_def)
next
  case (list_refs n q s)
  with W show ?thesis by (auto simp: worker_on_def valkey_refs_def intro: store_step.top)
next
  case (one_list u)
  with prefetch_store_steps [OF _ _ T(3)] W show ?thesis by (simp add: worker_on_def)
next
  case trim
  obtain q s where t: "trim_status_refs st K refs_keep_bound (wd_store w) = (q, s)" by force
  then have "wd_store w' = s"
    using trim W by (auto simp: trim_refs_def worker_on_def valkey_status_def Let_def split: sum.splits)
  with t show ?thesis by (auto intro: store_step.trim)
next
  case (report lvl msg fs)
  then show ?thesis by simp
next
  case look
  then show ?thesis by simp
qed

end

section \<open>Properties\<close>

text \<open>Readiness is backed by the cache in the whole worker: from an empty cache, in whatever order the
  steps come and whatever answers and failures they meet, as long as no key is lost, a horizon the
  readiness state holds for a type is covered by the cache's freshness record and by every cached
  entry of the type. The poller and the prefetcher cannot break it.\<close>

lemma worker_backed:
  assumes "valkey_store st view ex_ms K (set wire_names) C wf_entry wf_index wf_freshness"
    and "worker_keys K (set wire_names)" "app_clock W clk" "worker_on st K C W"
    and "\<forall>k \<in> set wire_names. index_covers K C (st_prefix st) (view (wd_store w0)) k \<and>
      abs_type K C (st_prefix st) (view (wd_store w0)) k = empty_cache"
    and "hs_fresh (wd_health w0) = Map.empty"
    and "(app_step wf_entry wf_index wf_freshness W)\<^sup>*\<^sup>* w0 w"
    and "k \<in> set wire_names" "hs_fresh (wd_health w) k = Some fr"
  shows "\<exists>f. tc_freshness (abs_type K C (st_prefix st) (view (wd_store w)) k) = Some f \<and>
    nanos (validUntil fr) \<le> nanos (fr_valid_until f) \<and>
    (\<forall>x e. tc_entries (abs_type K C (st_prefix st) (view (wd_store w)) k) x = Some e \<longrightarrow>
       en_valid_until e = fr_valid_until f) \<and>
    (\<forall>now. valid_time now \<longrightarrow> time_before now (validUntil fr) \<longrightarrow> time_before now (fr_valid_until f))"
proof -
  note vs = assms(1)
  have "valkey_store.world_ok st view K (set wire_names) C clk (wk_syncer W) w0"
    using assms(5,6) by (simp add: valkey_store.world_ok_def [OF vs] type_ok_def aligned_def empty_cache_def)
  with assms(7) have "valkey_store.world_ok st view K (set wire_names) C clk (wk_syncer W) w"
    by (induction rule: rtranclp_induct)
      (auto intro: valkey_store.world_ok_step [OF vs assms(3,4) refl assms(2)])
  then have "type_ok (clk (wd_env w)) (sc_cache_ttl (sy_cfg (wk_syncer W)))
      (abs_type K C (st_prefix st) (view (wd_store w)) k) (Some fr)"
    using assms(8,9) by (auto simp: valkey_store.world_ok_def [OF vs])
  from type_ok_backs [OF this] show ?thesis .
qed

lemma app_steps_required:
  "(app_step we wi wfr W)\<^sup>*\<^sup>* w w' \<Longrightarrow> hs_required (wd_health w') = hs_required (wd_health w)"
proof (induction rule: rtranclp_induct)
  case (step w1 w2)
  from step(2) have "hs_required (wd_health w2) = hs_required (wd_health w1)"
  proof cases
    case (sync t r)
    show ?thesis
    proof (cases "wire_type t")
      case (Inr k)
      then show ?thesis by (rule sync_type_cases [OF _ sync(1)]) auto
    qed (use sync in \<open>simp add: sync_type_def\<close>)
  next
    case (snapshot r)
    then show ?thesis by (rule poll_cases) auto
  qed auto
  with step.IH show ?case by simp
qed simp

text \<open>
  C7. A dead worker's cache empties itself: under every interleaving of the three loops, with time
  passing in between, every key under the worker's prefix has an expiry within the largest of the
  three lifetimes (the anchors' cache TTL, the snapshot record's life, the prefetch maximum).
\<close>

theorem worker_keys_expire:
  assumes "valkey_store st view ex_ms K wire C wf_entry wf_index wf_freshness" "worker_on st K C W"
    and "T = max (sc_cache_ttl (sy_cfg (wk_syncer W))) (max (po_fresh_for (wk_poller W)) (pc_max_ttl (pf_cfg (wk_prefetcher W))))"
    and "(\<lambda>w w'. app_step we wi wfr W w w' \<or> (ages (st_prefix st) (view (wd_store w)) (view (wd_store w'))))\<^sup>*\<^sup>* w0 w"
    and "expiring (st_prefix st) T (view (wd_store w0))"
  shows "expiring (st_prefix st) T (view (wd_store w))"
proof -
  note vs = assms(1)
  have T: "sc_cache_ttl (sy_cfg (wk_syncer W)) \<le> T" "po_fresh_for (wk_poller W) \<le> T"
    "pc_max_ttl (pf_cfg (wk_prefetcher W)) \<le> T"
    by (simp_all add: assms(3))
  have "(store_step st K C view T)\<^sup>*\<^sup>* (wd_store w0) (wd_store w)"
    using assms(4)
  proof (induction rule: rtranclp_induct)
    case (step w1 w2)
    from step(2) have "(store_step st K C view T)\<^sup>*\<^sup>* (wd_store w1) (wd_store w2)"
      using valkey_store.app_store_steps [OF vs assms(2) _ T] store_step.time by (metis r_into_rtranclp)
    with step.IH show ?case by simp
  qed simp
  from store_steps_expiring [OF vs this assms(5)] show ?thesis .
qed

section \<open>A worker on the reference store\<close>

definition ref_worker :: "(refsrv, ref_env) worker" where
  "ref_worker =
     \<lparr>wk_syncer = ref_syncer,
      wk_poller = \<lparr>po_client = ref_client, po_store = valkey_snapshots ref_store ref_codec, po_fresh_for = 15 * minute,
        po_now = sy_now ref_syncer, po_keys = ref_keys, po_order = (\<lambda>c. rev)\<rparr>,
      wk_prefetcher = \<lparr>pf_refs = valkey_refs ref_store ref_keys,
        pf_fetch = (\<lambda>u c. (fst (fetch_get ref_fetcher u ()), c)), pf_store = valkey_status ref_store ref_keys,
        pf_cfg = pf_cfg ref_prefetcher, pf_now = sy_now ref_syncer, pf_list_key = status_list_key ref_keys\<rparr>\<rparr>"

lemma ref_worker_on: "worker_on ref_store ref_keys ref_codec ref_worker"
  using ref_syncer_on by (simp add: worker_on_def ref_worker_def ref_prefetcher_def hour_def minute_def second_def)

interpretation ref_app_clock: app_clock ref_worker "\<lambda>c. nanos (time_unix (re_time c mod 4000000000))"
proof -
  have "sy_now ref_syncer c = (time_unix (re_time c mod 4000000000), c)" for c by (simp add: ref_syncer_def)
  then show "app_clock ref_worker (\<lambda>c. nanos (time_unix (re_time c mod 4000000000)))"
    using ref_clock.worker_clock_axioms
    by (simp add: app_clock_def app_clock_axioms_def ref_worker_def ref_client_def)
qed

theorem worker_keys_expire_witness:
  "\<exists>w. app_step (\<lambda>_. True) (\<lambda>_. True) (\<lambda>_. True) ref_worker fresh_world w \<and>
     expiring (st_prefix ref_store) (24 * hour) (rs_ks (wd_store w))"
proof -
  let ?w = "prefetch_one (wk_prefetcher ref_worker) ''https://issuer.example/1'' fresh_world"
  have step: "app_step (\<lambda>_. True) (\<lambda>_. True) (\<lambda>_. True) ref_worker fresh_world ?w" by (rule one_list)
  have T: "24 * hour = max (sc_cache_ttl (sy_cfg (wk_syncer ref_worker)))
      (max (po_fresh_for (wk_poller ref_worker)) (pc_max_ttl (pf_cfg (wk_prefetcher ref_worker))))"
    by (simp add: ref_worker_def ref_syncer_def ref_prefetcher_def hour_def minute_def second_def)
  have "expiring (st_prefix ref_store) (24 * hour) (rs_ks (wd_store fresh_world))"
    by (simp add: expiring_def fresh_world_def ref_world_def ref_srv_def empty_ks_def)
  moreover have "(\<lambda>w w'. app_step (\<lambda>_. True) (\<lambda>_. True) (\<lambda>_. True) ref_worker w w' \<or>
      ages (st_prefix ref_store) (rs_ks (wd_store w)) (rs_ks (wd_store w')))\<^sup>*\<^sup>* fresh_world ?w"
    by (rule r_into_rtranclp) (simp add: step)
  ultimately show ?thesis
    using worker_keys_expire [OF ref_store.valkey_store_axioms ref_worker_on T] step by blast
qed

end
