(* ===== verification/Auth_Doer.thy ===== *)
theory Auth_Doer
  imports Go_Std
begin

text \<open>
  \<open>internal/authdoer\<close>: the outbound HTTP doer toward the trust service. \<open>net/http\<close>'s client, the
  platform kit (the instrumented client, the correlation header's name) and go-authbyte's
  \<open>authclient\<close> are parameters over an environment \<open>'n\<close>. A doer gets a request by pointer and changes
  it, so the request as the call leaves it is part of the result.
\<close>

section \<open>Requests, clients, configuration\<close>

text \<open>A header is a map from canonical names; a body is what is left to read and the error it ends
  with, if any; \<open>oq_cid\<close> is the correlation id of the request's context.\<close>

record out_request =
  oq_method :: string
  oq_url :: string
  oq_header :: "string \<rightharpoonup> string"
  oq_body :: "(string \<times> gerr option) option"
  oq_cid :: string

record out_response =
  os_status :: int
  os_header :: "string \<rightharpoonup> string"
  os_body :: string

type_synonym 'n http_do = "out_request \<Rightarrow> 'n \<Rightarrow> out_response result \<times> 'n"

text \<open>\<open>RequestSigner\<close>: an error, or nil, and the request it changed.\<close>

type_synonym 'n signer = "out_request \<Rightarrow> 'n \<Rightarrow> (gerr option \<times> out_request) \<times> 'n"

record auth_config =
  ac_mode :: string
  ac_issuer_url :: string
  ac_audience :: string
  ac_scope :: string
  ac_client_id :: string
  ac_client_secret :: string
  ac_timeout :: duration

text \<open>The fields of \<open>authclient.Configuration\<close> the worker sets, and \<open>Client.DoService\<close>.\<close>

record authclient_config =
  au_issuer_url :: string
  au_service_audience :: string
  au_client_id :: string
  au_client_secret :: string
  au_jwks_cache_ttl :: duration
  au_token_early_refresh :: duration
  au_dpop_proof_max_age :: duration
  au_replay_memory :: bool
  au_dpop_nonce_ttl :: duration

type_synonym 'n authclient =
  "string \<Rightarrow> string \<Rightarrow> string \<Rightarrow> string \<Rightarrow> (string \<rightharpoonup> string) \<Rightarrow> string \<Rightarrow> 'n \<Rightarrow> out_response result \<times> 'n"

record 'n kit =
  kt_instrument :: "duration \<Rightarrow> 'n http_do"
  kt_header_correlation :: string
  kt_authclient :: "authclient_config \<Rightarrow> 'n authclient result"

definition mode_dpop :: string where "mode_dpop = ''dpop''"
definition mode_internal :: string where "mode_internal = ''internal''"

section \<open>The two doers\<close>

datatype 'n doer =
    SigningDoer "'n http_do" "'n signer option"
  | AuthbyteDoer "'n authclient" string string

definition new_doer :: "'n kit \<Rightarrow> auth_config \<Rightarrow> 'n signer option \<Rightarrow> 'n doer result" where
  "new_doer K cfg signer =
     (if ac_mode cfg = mode_dpop \<and> signer = None
      then Inl (ErrMsg ''authdoer: mode dpop requires a request signer'')
      else if ac_mode cfg = mode_internal \<and> signer \<noteq> None
      then Inl (ErrMsg ''authdoer: mode internal must not carry a signer'')
      else if ac_mode cfg \<notin> {mode_dpop, mode_internal}
      then Inl (ErrQuoted ''authdoer: unknown TRUST_AUTH_MODE '' (ac_mode cfg) [])
      else Inr (SigningDoer (kt_instrument K (ac_timeout cfg)) signer))"

definition authbyte_config :: "auth_config \<Rightarrow> authclient_config" where
  "authbyte_config cfg =
     \<lparr>au_issuer_url = ac_issuer_url cfg, au_service_audience = ac_audience cfg, au_client_id = ac_client_id cfg,
      au_client_secret = ac_client_secret cfg, au_jwks_cache_ttl = 5 * minute, au_token_early_refresh = 30 * second,
      au_dpop_proof_max_age = 5 * minute, au_replay_memory = True, au_dpop_nonce_ttl = 5 * minute\<rparr>"

definition new_authbyte_doer :: "'n kit \<Rightarrow> auth_config \<Rightarrow> 'n doer result" where
  "new_authbyte_doer K cfg =
     (case kt_authclient K (authbyte_config cfg) of
        Inl e \<Rightarrow> Inl (ErrWrap ''authdoer: go-authbyte client: '' e)
      | Inr client \<Rightarrow> Inr (AuthbyteDoer client (ac_audience cfg) (ac_scope cfg)))"

definition stamp :: "'n kit \<Rightarrow> out_request \<Rightarrow> out_request" where
  "stamp K req =
     (if oq_cid req = [] then req
      else req\<lparr>oq_header := (oq_header req)(kt_header_correlation K \<mapsto> oq_cid req)\<rparr>)"

definition signing_do ::
  "'n kit \<Rightarrow> 'n http_do \<Rightarrow> 'n signer option \<Rightarrow> out_request \<Rightarrow> 'n \<Rightarrow> out_response result \<times> out_request \<times> 'n" where
  "signing_do K base signer req c =
     (let req1 = stamp K req
      in case signer of
           None \<Rightarrow> (let (r, c1) = base req1 c in (r, req1, c1))
         | Some sign \<Rightarrow>
             (let ((err, req2), c1) = sign req1 c
              in case err of
                   Some e \<Rightarrow> (Inl (ErrWrap ''authdoer: sign request: '' e), req2, c1)
                 | None \<Rightarrow> (let (r, c2) = base req2 c1 in (r, req2, c2))))"

text \<open>\<open>io.ReadAll(req.Body)\<close>: the bytes or the error, and the body drained.\<close>

definition read_body :: "out_request \<Rightarrow> string result \<times> out_request" where
  "read_body req =
     (case oq_body req of
        None \<Rightarrow> (Inr [], req)
      | Some (bytes, Some e) \<Rightarrow> (Inl e, req\<lparr>oq_body := Some ([], Some e)\<rparr>)
      | Some (bytes, None) \<Rightarrow> (Inr bytes, req\<lparr>oq_body := Some ([], None)\<rparr>))"

definition authbyte_do ::
  "'n kit \<Rightarrow> 'n authclient \<Rightarrow> string \<Rightarrow> string \<Rightarrow> out_request \<Rightarrow> 'n \<Rightarrow> out_response result \<times> out_request \<times> 'n" where
  "authbyte_do K client audience scope req c =
     (case read_body (stamp K req) of
        (Inl e, req2) \<Rightarrow> (Inl (ErrWrap ''authdoer: read request body: '' e), req2, c)
      | (Inr body, req2) \<Rightarrow>
          (let (r, c1) = client audience scope (oq_method req2) (oq_url req2) (oq_header req2) body c
           in case r of
                Inl e \<Rightarrow> (Inl (ErrWrap ''authdoer: authbyte DoService: '' e), req2, c1)
              | Inr resp \<Rightarrow> (Inr resp, req2, c1)))"

fun doer_do :: "'n kit \<Rightarrow> 'n doer \<Rightarrow> out_request \<Rightarrow> 'n \<Rightarrow> out_response result \<times> out_request \<times> 'n" where
  "doer_do K (SigningDoer base signer) req c = signing_do K base signer req c"
| "doer_do K (AuthbyteDoer client audience scope) req c = authbyte_do K client audience scope req c"

text \<open>The choice \<open>App.init\<close> makes.\<close>

definition select_doer :: "'n kit \<Rightarrow> auth_config \<Rightarrow> 'n doer result" where
  "select_doer K cfg = (if ac_mode cfg = mode_dpop then new_authbyte_doer K cfg else new_doer K cfg None)"

section \<open>Lemmas\<close>

lemma modes_differ [simp]: "mode_dpop \<noteq> mode_internal" "mode_internal \<noteq> mode_dpop"
  by (simp_all add: mode_dpop_def mode_internal_def)

lemma stamp_other [simp]:
  "oq_method (stamp K req) = oq_method req" "oq_url (stamp K req) = oq_url req" "oq_body (stamp K req) = oq_body req"
  "oq_cid (stamp K req) = oq_cid req"
  by (simp_all add: stamp_def)

lemma stamp_header:
  "oq_header (stamp K req) n =
     (if n = kt_header_correlation K \<and> oq_cid req \<noteq> [] then Some (oq_cid req) else oq_header req n)"
  by (simp add: stamp_def)

text \<open>The outcomes of \<open>New\<close>: what a doer it returns was built from.\<close>

lemma new_doer_ok:
  "new_doer K cfg signer = Inr d \<longleftrightarrow>
     d = SigningDoer (kt_instrument K (ac_timeout cfg)) signer \<and>
     (ac_mode cfg = mode_dpop \<and> signer \<noteq> None \<or> ac_mode cfg = mode_internal \<and> signer = None)"
  by (auto simp: new_doer_def)

lemma select_doer_ok:
  "select_doer K cfg = Inr d \<longleftrightarrow>
     (ac_mode cfg = mode_dpop \<and>
        (\<exists>client. kt_authclient K (authbyte_config cfg) = Inr client \<and> d = AuthbyteDoer client (ac_audience cfg) (ac_scope cfg))) \<or>
     (ac_mode cfg = mode_internal \<and> d = SigningDoer (kt_instrument K (ac_timeout cfg)) None)"
  by (auto simp: select_doer_def new_authbyte_doer_def new_doer_ok split: sum.splits)

section \<open>Properties\<close>

text \<open>
  Nothing is sent unsigned: when the signer fails, the call fails with that error and the network
  is touched by the signer alone; a request that is sent through a signing doer is the one the
  signer returned, which it made from the stamped request.
\<close>

lemma signer_failure_sends_nothing:
  assumes "new_doer K cfg (Some sign) = Inr d"
  shows "doer_do K d req c =
    (case sign (stamp K req) c of
       ((Some e, req2), c1) \<Rightarrow> (Inl (ErrWrap ''authdoer: sign request: '' e), req2, c1)
     | ((None, req2), c1) \<Rightarrow> (fst (kt_instrument K (ac_timeout cfg) req2 c1), req2, snd (kt_instrument K (ac_timeout cfg) req2 c1)))"
  using assms by (auto simp: new_doer_ok signing_do_def split: prod.splits option.splits)

text \<open>
  In mode dpop a request reaches \<open>DoService\<close> with its method, URL, headers and complete body, plus the
  correlation id of its context; a body that cannot be read sends nothing.
\<close>

lemma authbyte_request_is_faithful:
  "authbyte_do K client audience scope req c =
     (let hd = (if oq_cid req = [] then oq_header req else (oq_header req)(kt_header_correlation K \<mapsto> oq_cid req));
          send = (\<lambda>body rest. let (r, c1) = client audience scope (oq_method req) (oq_url req) hd body c
                    in (case r of Inl e \<Rightarrow> Inl (ErrWrap ''authdoer: authbyte DoService: '' e) | Inr x \<Rightarrow> Inr x,
                        req\<lparr>oq_header := hd, oq_body := rest\<rparr>, c1))
      in case oq_body req of
           None \<Rightarrow> send [] None
         | Some (bytes, None) \<Rightarrow> send bytes (Some ([], None))
         | Some (bytes, Some e) \<Rightarrow>
             (Inl (ErrWrap ''authdoer: read request body: '' e), req\<lparr>oq_header := hd, oq_body := Some ([], Some e)\<rparr>, c))"
  by (cases req) (auto simp: authbyte_do_def read_body_def stamp_def Let_def split: option.splits prod.splits sum.splits)

text \<open>A kit whose network records the headers it is sent.\<close>

definition ref_kit :: "(string \<rightharpoonup> string) list kit" where
  "ref_kit =
     \<lparr>kt_instrument = (\<lambda>t req c. (Inr \<lparr>os_status = 200, os_header = Map.empty, os_body = []\<rparr>, c @ [oq_header req])),
      kt_header_correlation = ''X-Correlation-Id'',
      kt_authclient = (\<lambda>ac. Inr (\<lambda>a s m u h b c. (Inr \<lparr>os_status = 200, os_header = Map.empty, os_body = b\<rparr>, c @ [h])))\<rparr>"

definition ref_auth :: "string \<Rightarrow> auth_config" where
  "ref_auth mode =
     \<lparr>ac_mode = mode, ac_issuer_url = ''https://auth.internal'', ac_audience = ''svc:trust-anchor'', ac_scope = ''trust:read'',
      ac_client_id = ''cid'', ac_client_secret = ''sec'', ac_timeout = 15 * second\<rparr>"

definition ref_request :: out_request where
  "ref_request =
     \<lparr>oq_method = ''GET'', oq_url = ''http://trust.internal/v1/snapshot'', oq_header = Map.empty, oq_body = None,
      oq_cid = ''01CYCLE''\<rparr>"

lemma signer_failure_sends_nothing_instance:
  "\<exists>d. new_doer ref_kit (ref_auth mode_dpop) (Some (\<lambda>req c. ((Some (ErrMsg ''no token''), req), c))) = Inr d \<and>
     fst (doer_do ref_kit d ref_request []) = Inl (ErrWrap ''authdoer: sign request: '' (ErrMsg ''no token'')) \<and>
     snd (snd (doer_do ref_kit d ref_request [])) = []"
proof -
  have d: "new_doer ref_kit (ref_auth mode_dpop) (Some (\<lambda>req c. ((Some (ErrMsg ''no token''), req), c))) =
      Inr (SigningDoer (kt_instrument ref_kit (15 * second)) (Some (\<lambda>req c. ((Some (ErrMsg ''no token''), req), c))))"
    by (simp add: new_doer_ok ref_auth_def)
  then show ?thesis unfolding d using signer_failure_sends_nothing [OF d, of ref_request "[]"] by simp
qed

text \<open>
  C27. Fail toward the stronger auth: a doer exists only for the two modes; every other mode, and a client that cannot
  be built, is an error at construction. In mode dpop the client is built from the configured issuer, audience and
  credentials, and a request goes out through its \<open>DoService\<close> with the configured audience and scope, the
  caller's method, URL and headers (plus the correlation id of its context) and the complete body; a body that cannot
  be read sends nothing, and both failures come back wrapped. In mode internal a request goes out through the plain
  client with the configured timeout, as the caller made it but for the correlation id: no credential is added.
\<close>

theorem doer_follows_mode:
  "case select_doer K cfg of
     Inl e \<Rightarrow>
       ac_mode cfg \<notin> {''dpop'', ''internal''} \<and> e = ErrQuoted ''authdoer: unknown TRUST_AUTH_MODE '' (ac_mode cfg) [] \<or>
       ac_mode cfg = ''dpop'' \<and> (\<exists>x. kt_authclient K (authbyte_config cfg) = Inl x \<and> e = ErrWrap ''authdoer: go-authbyte client: '' x)
   | Inr d \<Rightarrow>
       (ac_mode cfg = ''dpop'' \<and>
        (\<exists>client. kt_authclient K
            \<lparr>au_issuer_url = ac_issuer_url cfg, au_service_audience = ac_audience cfg, au_client_id = ac_client_id cfg,
             au_client_secret = ac_client_secret cfg, au_jwks_cache_ttl = 5 * minute, au_token_early_refresh = 30 * second,
             au_dpop_proof_max_age = 5 * minute, au_replay_memory = True, au_dpop_nonce_ttl = 5 * minute\<rparr> = Inr client \<and>
          (\<forall>req c hd r c1.
             hd = (if oq_cid req = [] then oq_header req else (oq_header req)(kt_header_correlation K \<mapsto> oq_cid req)) \<longrightarrow>
             (\<forall>bytes e. oq_body req = Some (bytes, Some e) \<longrightarrow>
                doer_do K d req c = (Inl (ErrWrap ''authdoer: read request body: '' e),
                  req\<lparr>oq_header := hd, oq_body := Some ([], Some e)\<rparr>, c)) \<and>
             (\<forall>bytes. oq_body req = Some (bytes, None) \<or> oq_body req = None \<and> bytes = [] \<longrightarrow>
                client (ac_audience cfg) (ac_scope cfg) (oq_method req) (oq_url req) hd bytes c = (r, c1) \<longrightarrow>
                doer_do K d req c =
                  ((case r of Inl e \<Rightarrow> Inl (ErrWrap ''authdoer: authbyte DoService: '' e) | Inr resp \<Rightarrow> Inr resp),
                   req\<lparr>oq_header := hd, oq_body := map_option (\<lambda>_. ([], None)) (oq_body req)\<rparr>, c1))))) \<or>
       (ac_mode cfg = ''internal'' \<and>
          (\<forall>req sent c r c1.
             sent = (if oq_cid req = [] then req
               else req\<lparr>oq_header := (oq_header req)(kt_header_correlation K \<mapsto> oq_cid req)\<rparr>) \<longrightarrow>
             kt_instrument K (ac_timeout cfg) sent c = (r, c1) \<longrightarrow> doer_do K d req c = (r, sent, c1)))"
proof (cases "select_doer K cfg")
  case (Inl e)
  then show ?thesis
    by (auto simp: select_doer_def new_authbyte_doer_def new_doer_def mode_dpop_def mode_internal_def split: sum.splits if_splits)
next
  case (Inr d)
  from Inr [unfolded select_doer_ok] show ?thesis
  proof (elim disjE conjE exE)
    fix client
    assume m: "ac_mode cfg = mode_dpop" and c: "kt_authclient K (authbyte_config cfg) = Inr client"
      and d: "d = AuthbyteDoer client (ac_audience cfg) (ac_scope cfg)"
    from m c [unfolded authbyte_config_def] show ?thesis
      unfolding Inr sum.case d mode_dpop_def
      by (intro disjI1 conjI exI [of _ client] allI impI)
        (auto simp: authbyte_request_is_faithful Let_def split: prod.splits)
  next
    assume m: "ac_mode cfg = mode_internal" and d: "d = SigningDoer (kt_instrument K (ac_timeout cfg)) None"
    then show ?thesis
      unfolding Inr sum.case mode_internal_def
      by (intro disjI2 conjI allI impI) (simp_all add: signing_do_def stamp_def)
  qed
qed

text \<open>In mode dpop, the network sees the stamped header and the caller's body.\<close>

theorem doer_follows_mode_witness:
  "\<exists>d. select_doer ref_kit (ref_auth mode_dpop) = Inr d \<and>
     snd (snd (doer_do ref_kit d (ref_request\<lparr>oq_body := Some (''body'', None)\<rparr>) [])) = [[''X-Correlation-Id'' \<mapsto> ''01CYCLE'']]"
proof -
  let ?req = "ref_request\<lparr>oq_body := Some (''body'', None)\<rparr>"
  have m: "ac_mode (ref_auth mode_dpop) = ''dpop''" by (simp add: ref_auth_def mode_dpop_def)
  obtain client where client: "kt_authclient ref_kit (authbyte_config (ref_auth mode_dpop)) = Inr client"
    by (simp add: ref_kit_def)
  then have k: "client = (\<lambda>a s m u h b c. (Inr \<lparr>os_status = 200, os_header = Map.empty, os_body = b\<rparr>, c @ [h]))"
    by (simp add: ref_kit_def)
  obtain d where d: "select_doer ref_kit (ref_auth mode_dpop) = Inr d"
    using m client select_doer_ok [of ref_kit "ref_auth mode_dpop"] by (auto simp: mode_dpop_def)
  from doer_follows_mode [where K = ref_kit and cfg = "ref_auth mode_dpop"] m
  have "snd (snd (doer_do ref_kit d ?req [])) = [[''X-Correlation-Id'' \<mapsto> ''01CYCLE'']]"
    unfolding d sum.case client [unfolded authbyte_config_def] k sum.inject
    by (simp add: ref_request_def ref_kit_def)
  with d show ?thesis by blast
qed

end
