(* ===== verification/Config.thy ===== *)
theory Config
  imports Auth_Doer Prefetch Store_Properties
begin

text \<open>
  The configuration: \<open>config.go\<close> and the sub-configurations \<open>internal/trustsync/config.go\<close>,
  \<open>internal/prefetch/config.go\<close> and \<open>internal/authdoer/config.go\<close>. A struct is the list of its fields with
  the value and the \<open>validate\<close> tags of each; the validator that reads the tags is a parameter with its
  documented meaning (the locale \<open>tag_validator\<close>). A \<open>viper\<close> value is what the worker has told viper: its
  defaults and its bound environment variables. How viper answers from them is a parameter with its
  documented precedence (the locale \<open>viper_reader\<close>); text decoding is the library's, so the environment
  maps names to decoded values.
\<close>

section \<open>Structs with validate tags\<close>

datatype setting = VStr string | VInt int | VStrs "string list"

datatype tag =
    Required
  | RequiredIf string string
  | Omitempty
  | Oneof "string list"
  | Url
  | Gt int
  | Gte int
  | Gtfield string
  | Min nat

record field =
  fd_name :: string
  fd_value :: setting
  fd_tags :: "tag list"

definition fld :: "string \<Rightarrow> setting \<Rightarrow> tag list \<Rightarrow> field" where
  "fld n v ts = \<lparr>fd_name = n, fd_value = v, fd_tags = ts\<rparr>"

text \<open>The documented meaning of the tags in use. \<open>Omitempty\<close> skips the tags after it for a zero value.\<close>

fun zero_value :: "setting \<Rightarrow> bool" where
  "zero_value (VStr s) = (s = [])"
| "zero_value (VInt n) = (n = 0)"
| "zero_value (VStrs xs) = (xs = [])"

fun field_value :: "field list \<Rightarrow> string \<Rightarrow> setting option" where
  "field_value [] n = None"
| "field_value (f # fs) n = (if fd_name f = n then Some (fd_value f) else field_value fs n)"

fun tag_holds :: "(string \<Rightarrow> bool) \<Rightarrow> field list \<Rightarrow> setting \<Rightarrow> tag \<Rightarrow> bool" where
  "tag_holds url fs v Required = (\<not> zero_value v)"
| "tag_holds url fs v (RequiredIf n x) = (field_value fs n = Some (VStr x) \<longrightarrow> \<not> zero_value v)"
| "tag_holds url fs v Omitempty = True"
| "tag_holds url fs v (Oneof xs) = (case v of VStr s \<Rightarrow> s \<in> set xs | _ \<Rightarrow> False)"
| "tag_holds url fs v Url = (case v of VStr s \<Rightarrow> url s | _ \<Rightarrow> False)"
| "tag_holds url fs v (Gt k) = (case v of VInt n \<Rightarrow> k < n | _ \<Rightarrow> False)"
| "tag_holds url fs v (Gte k) = (case v of VInt n \<Rightarrow> k \<le> n | _ \<Rightarrow> False)"
| "tag_holds url fs v (Gtfield g) =
     (case (v, field_value fs g) of (VInt n, Some (VInt k)) \<Rightarrow> k < n | _ \<Rightarrow> False)"
| "tag_holds url fs v (Min k) = (case v of VStrs xs \<Rightarrow> k \<le> length xs | _ \<Rightarrow> False)"

fun tags_ok :: "(string \<Rightarrow> bool) \<Rightarrow> field list \<Rightarrow> setting \<Rightarrow> tag list \<Rightarrow> bool" where
  "tags_ok url fs v [] = True"
| "tags_ok url fs v (t # ts) = (if t = Omitempty \<and> zero_value v then True else tag_holds url fs v t \<and> tags_ok url fs v ts)"

definition struct_ok :: "(string \<Rightarrow> bool) \<Rightarrow> field list \<Rightarrow> bool" where
  "struct_ok url fs \<longleftrightarrow> list_all (\<lambda>f. tags_ok url fs (fd_value f) (fd_tags f)) fs"

locale tag_validator =
  fixes vl :: "field list \<Rightarrow> gerr option" and url :: "string \<Rightarrow> bool"
  assumes struct_law: "vl fs = None \<longleftrightarrow> struct_ok url fs"

definition ref_url :: "string \<Rightarrow> bool" where
  "ref_url s \<longleftrightarrow> has_prefix ''http://'' s \<or> has_prefix ''https://'' s"

definition ref_validator :: "field list \<Rightarrow> gerr option" where
  "ref_validator fs = (if struct_ok ref_url fs then None else Some (ErrMsg ''validation failed''))"

interpretation ref_validator: tag_validator ref_validator ref_url
  by unfold_locales (simp add: ref_validator_def)

section \<open>The structs of the worker\<close>

definition sync_fields :: "sync_config \<Rightarrow> field list" where
  "sync_fields c =
     [fld ''PollInterval'' (VInt (sc_poll_interval c)) [Required, Gt 0],
      fld ''CacheTTL'' (VInt (sc_cache_ttl c)) [Required, Gt 0, Gtfield ''PollInterval''],
      fld ''SnapshotPollInterval'' (VInt (sc_snapshot_poll_interval c)) [Required, Gt 0],
      fld ''Types'' (VStrs (sc_types c)) [Required, Min 1]]"

definition prefetch_fields :: "prefetch_config \<Rightarrow> field list" where
  "prefetch_fields c =
     [fld ''TopN'' (VInt (pc_top_n c)) [Gte 0],
      fld ''Interval'' (VInt (pc_interval c)) [Required, Gt 0],
      fld ''DefaultTTL'' (VInt (pc_default_ttl c)) [Required, Gt 0],
      fld ''MinTTL'' (VInt (pc_min_ttl c)) [Required, Gt 0],
      fld ''MaxTTL'' (VInt (pc_max_ttl c)) [Required, Gtfield ''MinTTL''],
      fld ''MaxBytes'' (VInt (pc_max_bytes c)) [Required, Gt 0]]"

definition auth_fields :: "auth_config \<Rightarrow> field list" where
  "auth_fields c =
     [fld ''Mode'' (VStr (ac_mode c)) [Required, Oneof [mode_dpop, mode_internal]],
      fld ''IssuerURL'' (VStr (ac_issuer_url c)) [RequiredIf ''Mode'' mode_dpop, Omitempty, Url],
      fld ''Audience'' (VStr (ac_audience c)) [Required],
      fld ''Scope'' (VStr (ac_scope c)) [Required],
      fld ''ClientID'' (VStr (ac_client_id c)) [RequiredIf ''Mode'' mode_dpop],
      fld ''ClientSecret'' (VStr (ac_client_secret c)) [RequiredIf ''Mode'' mode_dpop],
      fld ''Timeout'' (VInt (ac_timeout c)) [Required, Gt 0]]"

text \<open>\<open>cf_base\<close> is the platform kit's base configuration.\<close>

record 'b app_config =
  cf_base :: 'b
  cf_valkey_url :: string
  cf_valkey_password :: string
  cf_valkey_key_prefix :: string
  cf_trust_service_url :: string
  cf_sync :: sync_config
  cf_prefetch :: prefetch_config
  cf_auth :: auth_config
  cf_admin_key :: string

definition app_fields :: "'b app_config \<Rightarrow> field list" where
  "app_fields c =
     [fld ''ValkeyURL'' (VStr (cf_valkey_url c)) [Required],
      fld ''ValkeyPassword'' (VStr (cf_valkey_password c)) [],
      fld ''ValkeyKeyPrefix'' (VStr (cf_valkey_key_prefix c)) [],
      fld ''TrustServiceURL'' (VStr (cf_trust_service_url c)) [Required, Url],
      fld ''TrustAdminKey'' (VStr (cf_admin_key c)) []]"

section \<open>Validate\<close>

definition validate_sync :: "(field list \<Rightarrow> gerr option) \<Rightarrow> sync_config \<Rightarrow> gerr option" where
  "validate_sync vl c =
     (case vl (sync_fields c) of
        Some e \<Rightarrow> Some e
      | None \<Rightarrow> (case parse_types (sc_types c) of Inl e \<Rightarrow> Some e | Inr _ \<Rightarrow> None))"

definition validate_prefetch :: "(field list \<Rightarrow> gerr option) \<Rightarrow> prefetch_config \<Rightarrow> gerr option" where
  "validate_prefetch vl c = vl (prefetch_fields c)"

definition validate_auth :: "(field list \<Rightarrow> gerr option) \<Rightarrow> auth_config \<Rightarrow> gerr option" where
  "validate_auth vl c = vl (auth_fields c)"

text \<open>\<open>base\<close> is the base configuration's own \<open>Validate\<close>.\<close>

definition validate_config ::
  "('b \<Rightarrow> gerr option) \<Rightarrow> (field list \<Rightarrow> gerr option) \<Rightarrow> 'b app_config \<Rightarrow> gerr option" where
  "validate_config base vl c =
     (case base (cf_base c) of
        Some e \<Rightarrow> Some e
      | None \<Rightarrow>
          (case validate_sync vl (cf_sync c) of
             Some e \<Rightarrow> Some e
           | None \<Rightarrow>
               (case validate_prefetch vl (cf_prefetch c) of
                  Some e \<Rightarrow> Some e
                | None \<Rightarrow>
                    (case validate_auth vl (cf_auth c) of
                       Some e \<Rightarrow> Some e
                     | None \<Rightarrow> vl (app_fields c)))))"

section \<open>Bind\<close>

record viper =
  vp_default :: "string \<rightharpoonup> setting"
  vp_env :: "(string \<times> string) list"

definition set_default :: "string \<Rightarrow> setting \<Rightarrow> viper \<Rightarrow> viper" where
  "set_default k v vp = vp\<lparr>vp_default := (vp_default vp)(k \<mapsto> v)\<rparr>"

definition bind_env :: "string \<Rightarrow> string \<Rightarrow> viper \<Rightarrow> viper" where
  "bind_env k e vp = vp\<lparr>vp_env := vp_env vp @ [(k, e)]\<rparr>"

text \<open>\<open>all_types\<close> is the library's \<open>AllTypes\<close>.\<close>

definition bind_sync :: "string list \<Rightarrow> string \<Rightarrow> viper \<Rightarrow> viper" where
  "bind_sync all_types prefix vp =
     fold (\<lambda>f. f)
       [set_default (prefix @ ''.poll_interval'') (VInt (5 * minute)),
        set_default (prefix @ ''.cache_ttl'') (VInt (45 * minute)),
        set_default (prefix @ ''.snapshot_poll_interval'') (VInt (5 * minute)),
        set_default (prefix @ ''.types'') (VStrs all_types),
        bind_env (prefix @ ''.poll_interval'') ''TRUST_POLL_INTERVAL'',
        bind_env (prefix @ ''.cache_ttl'') ''TRUST_CACHE_TTL'',
        bind_env (prefix @ ''.snapshot_poll_interval'') ''TRUST_SNAPSHOT_POLL_INTERVAL'',
        bind_env (prefix @ ''.types'') ''TRUST_SYNC_TYPES''] vp"

definition bind_prefetch :: "string \<Rightarrow> viper \<Rightarrow> viper" where
  "bind_prefetch prefix vp =
     fold (\<lambda>f. f)
       [set_default (prefix @ ''.top_n'') (VInt 50),
        set_default (prefix @ ''.interval'') (VInt minute),
        set_default (prefix @ ''.default_ttl'') (VInt (5 * minute)),
        set_default (prefix @ ''.min_ttl'') (VInt (30 * second)),
        set_default (prefix @ ''.max_ttl'') (VInt (24 * hour)),
        set_default (prefix @ ''.max_bytes'') (VInt (2 ^ 20)),
        bind_env (prefix @ ''.top_n'') ''STATUS_PREFETCH_TOP_N'',
        bind_env (prefix @ ''.interval'') ''STATUS_PREFETCH_INTERVAL'',
        bind_env (prefix @ ''.default_ttl'') ''STATUS_PREFETCH_DEFAULT_TTL'',
        bind_env (prefix @ ''.min_ttl'') ''STATUS_PREFETCH_MIN_TTL'',
        bind_env (prefix @ ''.max_ttl'') ''STATUS_PREFETCH_MAX_TTL'',
        bind_env (prefix @ ''.max_bytes'') ''STATUS_PREFETCH_MAX_BYTES''] vp"

definition bind_auth :: "string \<Rightarrow> viper \<Rightarrow> viper" where
  "bind_auth prefix vp =
     fold (\<lambda>f. f)
       [set_default (prefix @ ''.mode'') (VStr mode_dpop),
        set_default (prefix @ ''.audience'') (VStr ''svc:trust-anchor''),
        set_default (prefix @ ''.scope'') (VStr ''trust:read''),
        set_default (prefix @ ''.timeout'') (VInt (15 * second)),
        bind_env (prefix @ ''.mode'') ''TRUST_AUTH_MODE'',
        bind_env (prefix @ ''.issuer_url'') ''AUTH_ISSUER_URL'',
        bind_env (prefix @ ''.audience'') ''TRUST_AUTH_AUDIENCE'',
        bind_env (prefix @ ''.scope'') ''TRUST_AUTH_SCOPE'',
        bind_env (prefix @ ''.client_id'') ''TRUST_AUTH_CLIENT_ID'',
        bind_env (prefix @ ''.client_secret'') ''TRUST_AUTH_CLIENT_SECRET'',
        bind_env (prefix @ ''.timeout'') ''TRUST_AUTH_TIMEOUT''] vp"

text \<open>\<open>load\<close> is \<open>LoadRemoteSecret\<close>: the variable, or the file its \<open>_FILE\<close> indirection names.\<close>

definition load_secret :: "(string \<Rightarrow> string result) \<Rightarrow> string \<Rightarrow> string \<Rightarrow> viper \<Rightarrow> viper" where
  "load_secret load key name vp =
     (case load name of
        Inl e \<Rightarrow> vp
      | Inr secret \<Rightarrow> if secret \<noteq> [] then set_default key (VStr secret) vp else vp)"

text \<open>\<open>base\<close> is the base configuration's \<open>Bind\<close>.\<close>

definition bind_config ::
  "(viper \<Rightarrow> viper) \<Rightarrow> (string \<Rightarrow> string result) \<Rightarrow> string list \<Rightarrow> viper \<Rightarrow> viper" where
  "bind_config base load all_types vp =
     fold (\<lambda>f. f)
       [base,
        bind_env ''valkey_url'' ''VALKEY_URL'',
        load_secret load ''valkey_password'' ''VALKEY_PASSWORD'',
        bind_env ''valkey_password'' ''VALKEY_PASSWORD'',
        bind_env ''valkey_key_prefix'' ''VALKEY_KEY_PREFIX'',
        bind_env ''trust_service_url'' ''TRUST_SERVICE_URL'',
        load_secret load ''trust_admin_key'' ''TRUST_ADMIN_KEY'',
        bind_env ''trust_admin_key'' ''TRUST_ADMIN_KEY'',
        bind_sync all_types ''trust_sync'',
        bind_prefetch ''status_prefetch'',
        bind_auth ''trust_auth''] vp"

section \<open>Reading the settings\<close>

text \<open>\<open>viper.Get\<close>, in its documented order: a bound variable that is set, else the default
  (the worker's code sets no flag, file or override).\<close>

locale viper_reader =
  fixes get :: "(string \<Rightarrow> setting option) \<Rightarrow> viper \<Rightarrow> string \<Rightarrow> setting option"
  assumes get_env: "distinct (map fst (vp_env vp)) \<Longrightarrow> (k, e) \<in> set (vp_env vp) \<Longrightarrow> env e = Some v \<Longrightarrow>
      get env vp k = Some v"
    and get_default: "\<forall>e. (k, e) \<in> set (vp_env vp) \<longrightarrow> env e = None \<Longrightarrow> get env vp k = vp_default vp k"

text \<open>A reader that meets the laws.\<close>

definition ref_get :: "(string \<Rightarrow> setting option) \<Rightarrow> viper \<Rightarrow> string \<Rightarrow> setting option" where
  "ref_get env vp k =
     (case map_of (vp_env vp) k of
        None \<Rightarrow> vp_default vp k
      | Some e \<Rightarrow> (case env e of Some v \<Rightarrow> Some v | None \<Rightarrow> vp_default vp k))"

interpretation ref_get: viper_reader ref_get
  by unfold_locales (auto simp: ref_get_def split: option.splits dest: map_of_SomeD)

text \<open>\<open>mapstructure\<close> fills the field a tag names from the key with that name; a field no setting fills
  keeps its zero value.\<close>

fun as_str :: "setting option \<Rightarrow> string" where
  "as_str (Some (VStr s)) = s"
| "as_str _ = []"

fun as_int :: "setting option \<Rightarrow> int" where
  "as_int (Some (VInt n)) = n"
| "as_int _ = 0"

fun as_strs :: "setting option \<Rightarrow> string list" where
  "as_strs (Some (VStrs xs)) = xs"
| "as_strs _ = []"

definition sync_config_of :: "(string \<Rightarrow> setting option) \<Rightarrow> string \<Rightarrow> sync_config" where
  "sync_config_of get p =
     \<lparr>sc_poll_interval = as_int (get (p @ ''.poll_interval'')), sc_cache_ttl = as_int (get (p @ ''.cache_ttl'')),
      sc_snapshot_poll_interval = as_int (get (p @ ''.snapshot_poll_interval'')),
      sc_types = as_strs (get (p @ ''.types''))\<rparr>"

definition prefetch_config_of :: "(string \<Rightarrow> setting option) \<Rightarrow> string \<Rightarrow> prefetch_config" where
  "prefetch_config_of get p =
     \<lparr>pc_top_n = as_int (get (p @ ''.top_n'')), pc_interval = as_int (get (p @ ''.interval'')),
      pc_default_ttl = as_int (get (p @ ''.default_ttl'')), pc_min_ttl = as_int (get (p @ ''.min_ttl'')),
      pc_max_ttl = as_int (get (p @ ''.max_ttl'')), pc_max_bytes = as_int (get (p @ ''.max_bytes''))\<rparr>"

definition auth_config_of :: "(string \<Rightarrow> setting option) \<Rightarrow> string \<Rightarrow> auth_config" where
  "auth_config_of get p =
     \<lparr>ac_mode = as_str (get (p @ ''.mode'')), ac_issuer_url = as_str (get (p @ ''.issuer_url'')),
      ac_audience = as_str (get (p @ ''.audience'')), ac_scope = as_str (get (p @ ''.scope'')),
      ac_client_id = as_str (get (p @ ''.client_id'')), ac_client_secret = as_str (get (p @ ''.client_secret'')),
      ac_timeout = as_int (get (p @ ''.timeout''))\<rparr>"

section \<open>Lemmas\<close>

lemma bind_simps [simp]:
  "vp_default (set_default k v vp) = (vp_default vp)(k \<mapsto> v)" "vp_env (set_default k v vp) = vp_env vp"
  "vp_default (bind_env k e vp) = vp_default vp" "vp_env (bind_env k e vp) = vp_env vp @ [(k, e)]"
  "vp_env (load_secret load key name vp) = vp_env vp"
  by (simp_all add: set_default_def bind_env_def load_secret_def split: sum.splits)

lemma load_secret_other: "k \<noteq> key \<Longrightarrow> vp_default (load_secret load key name vp) k = vp_default vp k"
  by (simp add: load_secret_def split: sum.splits)

lemma sync_struct:
  "struct_ok url (sync_fields c) \<longleftrightarrow> 0 < sc_poll_interval c \<and> sc_poll_interval c < sc_cache_ttl c \<and>
     0 < sc_snapshot_poll_interval c \<and> sc_types c \<noteq> []"
  by (auto simp: struct_ok_def sync_fields_def fld_def Suc_le_eq)

lemma prefetch_struct:
  "struct_ok url (prefetch_fields c) \<longleftrightarrow> 0 \<le> pc_top_n c \<and> 0 < pc_interval c \<and> 0 < pc_default_ttl c \<and>
     0 < pc_min_ttl c \<and> pc_min_ttl c < pc_max_ttl c \<and> 0 < pc_max_bytes c"
  by (auto simp: struct_ok_def prefetch_fields_def fld_def)

lemma auth_struct:
  "struct_ok url (auth_fields c) \<longleftrightarrow> ac_mode c \<in> {mode_dpop, mode_internal} \<and> ac_audience c \<noteq> [] \<and> ac_scope c \<noteq> [] \<and>
     0 < ac_timeout c \<and> (ac_issuer_url c \<noteq> [] \<longrightarrow> url (ac_issuer_url c)) \<and>
     (ac_mode c = mode_dpop \<longrightarrow> ac_issuer_url c \<noteq> [] \<and> ac_client_id c \<noteq> [] \<and> ac_client_secret c \<noteq> [])"
  by (auto simp: struct_ok_def auth_fields_def fld_def mode_dpop_def mode_internal_def)

context tag_validator
begin

lemma validate_sync_ok:
  "validate_sync vl c = None \<longleftrightarrow> 0 < sc_poll_interval c \<and> sc_poll_interval c < sc_cache_ttl c \<and>
     0 < sc_snapshot_poll_interval c \<and> sc_types c \<noteq> [] \<and> is_ok (parse_types (sc_types c))"
  using struct_law [of "sync_fields c"]
  by (auto simp: validate_sync_def sync_struct is_ok_def split: option.splits sum.splits)

lemma validate_prefetch_ok:
  "validate_prefetch vl c = None \<longleftrightarrow> 0 \<le> pc_top_n c \<and> 0 < pc_interval c \<and> 0 < pc_default_ttl c \<and>
     0 < pc_min_ttl c \<and> pc_min_ttl c < pc_max_ttl c \<and> 0 < pc_max_bytes c"
  using struct_law by (simp add: validate_prefetch_def prefetch_struct)

lemma validate_auth_ok:
  "validate_auth vl c = None \<longleftrightarrow> ac_mode c \<in> {mode_dpop, mode_internal} \<and> ac_audience c \<noteq> [] \<and> ac_scope c \<noteq> [] \<and>
     0 < ac_timeout c \<and> (ac_issuer_url c \<noteq> [] \<longrightarrow> url (ac_issuer_url c)) \<and>
     (ac_mode c = mode_dpop \<longrightarrow> ac_issuer_url c \<noteq> [] \<and> ac_client_id c \<noteq> [] \<and> ac_client_secret c \<noteq> [])"
  using struct_law by (simp add: validate_auth_def auth_struct)

lemma validate_config_ok:
  "validate_config base vl c = None \<longleftrightarrow> base (cf_base c) = None \<and> validate_sync vl (cf_sync c) = None \<and>
     validate_prefetch vl (cf_prefetch c) = None \<and> validate_auth vl (cf_auth c) = None \<and>
     cf_valkey_url c \<noteq> [] \<and> cf_trust_service_url c \<noteq> [] \<and> url (cf_trust_service_url c)"
  using struct_law [of "app_fields c"]
  by (auto simp: validate_config_def struct_ok_def app_fields_def fld_def split: option.splits)

end

section \<open>Properties\<close>

text \<open>
  C22. What validation accepts is what the components rely on, and it accepts no less: \<open>Validate\<close> succeeds
  exactly when the base configuration is valid, the polls have positive intervals and the cache
  outlives the poll, every type name is known, the prefetch clamp is a proper interval with a positive
  cap, the auth mode is one of the two and dpop has its issuer and credentials, and the two URLs are set.
\<close>

theorem validation_exact:
  assumes "tag_validator vl url"
  shows "validate_config base vl c = None \<longleftrightarrow>
    base (cf_base c) = None \<and>
    0 < sc_poll_interval (cf_sync c) \<and> sc_poll_interval (cf_sync c) < sc_cache_ttl (cf_sync c) \<and>
    0 < sc_snapshot_poll_interval (cf_sync c) \<and> sc_types (cf_sync c) \<noteq> [] \<and>
    (\<exists>ts. parse_types (sc_types (cf_sync c)) = Inr ts) \<and>
    0 \<le> pc_top_n (cf_prefetch c) \<and> 0 < pc_interval (cf_prefetch c) \<and> 0 < pc_default_ttl (cf_prefetch c) \<and>
    0 < pc_min_ttl (cf_prefetch c) \<and> pc_min_ttl (cf_prefetch c) < pc_max_ttl (cf_prefetch c) \<and>
    0 < pc_max_bytes (cf_prefetch c) \<and>
    ac_mode (cf_auth c) \<in> {mode_dpop, mode_internal} \<and> ac_audience (cf_auth c) \<noteq> [] \<and> ac_scope (cf_auth c) \<noteq> [] \<and>
    0 < ac_timeout (cf_auth c) \<and> (ac_issuer_url (cf_auth c) = [] \<or> url (ac_issuer_url (cf_auth c))) \<and>
    (ac_mode (cf_auth c) = mode_dpop \<longrightarrow>
       ac_issuer_url (cf_auth c) \<noteq> [] \<and> ac_client_id (cf_auth c) \<noteq> [] \<and> ac_client_secret (cf_auth c) \<noteq> []) \<and>
    cf_valkey_url c \<noteq> [] \<and> cf_trust_service_url c \<noteq> [] \<and> url (cf_trust_service_url c)"
  using tag_validator.validate_config_ok [OF assms, of base c] tag_validator.validate_sync_ok [OF assms]
    tag_validator.validate_prefetch_ok [OF assms] tag_validator.validate_auth_ok [OF assms]
  by (auto simp: is_ok_def)

text \<open>
  The defaults are valid, and fail toward the stronger auth: with no variable set, the sync and
  prefetch settings validate (for a library whose type names are all known), and the auth mode is dpop,
  which does not validate until an issuer and credentials are given.
\<close>

lemma defaults_are_valid:
  assumes "tag_validator vl url" "viper_reader get" "parse_types all = Inr ts" "all \<noteq> []"
    and "vp = bind_config base load all vp0" "vp_default (base vp0) ''trust_auth.client_id'' = None"
  shows "validate_sync vl (sync_config_of (get (\<lambda>_. None) vp) ''trust_sync'') = None \<and>
    validate_prefetch vl (prefetch_config_of (get (\<lambda>_. None) vp) ''status_prefetch'') = None \<and>
    ac_mode (auth_config_of (get (\<lambda>_. None) vp) ''trust_auth'') = mode_dpop \<and>
    validate_auth vl (auth_config_of (get (\<lambda>_. None) vp) ''trust_auth'') \<noteq> None"
proof -
  have g: "get (\<lambda>_. None) v k = vp_default v k" for v k using viper_reader.get_default [OF assms(2)] by simp
  have s: "sync_config_of (get (\<lambda>_. None) vp) ''trust_sync'' =
      \<lparr>sc_poll_interval = 5 * minute, sc_cache_ttl = 45 * minute, sc_snapshot_poll_interval = 5 * minute, sc_types = all\<rparr>"
    by (simp add: sync_config_of_def g assms(5) bind_config_def bind_sync_def bind_prefetch_def bind_auth_def)
  have p: "prefetch_config_of (get (\<lambda>_. None) vp) ''status_prefetch'' =
      \<lparr>pc_top_n = 50, pc_interval = minute, pc_default_ttl = 5 * minute, pc_min_ttl = 30 * second,
       pc_max_ttl = 24 * hour, pc_max_bytes = 2 ^ 20\<rparr>"
    by (simp add: prefetch_config_of_def g assms(5) bind_config_def bind_prefetch_def bind_auth_def)
  have a: "ac_mode (auth_config_of (get (\<lambda>_. None) vp) ''trust_auth'') = mode_dpop"
    "ac_client_id (auth_config_of (get (\<lambda>_. None) vp) ''trust_auth'') = []"
    using assms(6) by (simp_all add: auth_config_of_def g assms(5) bind_config_def bind_sync_def bind_prefetch_def
      bind_auth_def load_secret_other)
  show ?thesis
    using tag_validator.validate_sync_ok [OF assms(1)] tag_validator.validate_prefetch_ok [OF assms(1)]
      tag_validator.validate_auth_ok [OF assms(1)] assms(3,4) s p a
    by (simp add: minute_def second_def hour_def)
qed

text \<open>The variables and the settings they are bound to.\<close>

definition settings :: "(string \<times> string) list" where
  "settings = vp_env (bind_config (\<lambda>vp. vp) (\<lambda>_. Inr []) [] \<lparr>vp_default = Map.empty, vp_env = []\<rparr>)"

lemma settings_bound: "vp_env (bind_config base load all vp) = vp_env (base vp) @ settings"
  by (simp add: settings_def bind_config_def bind_sync_def bind_prefetch_def bind_auth_def)

lemma settings_distinct: "distinct (map fst settings)" "distinct (map snd settings)" "length settings = 22"
  by (simp_all add: settings_def bind_config_def bind_sync_def bind_prefetch_def bind_auth_def)

text \<open>Each variable sets one setting: the 22 variables the worker binds are different and bound to
  different keys; a variable that is set decides its key, whatever the default or a mounted secret says.\<close>

lemma each_variable_sets_one_setting:
  assumes "viper_reader get" "(k, e) \<in> set settings" "env e = Some v" "distinct (map fst (vp_env (base vp) @ settings))"
  shows "get env (bind_config base load all vp) k = Some v \<and>
    (\<forall>k' e'. (k', e') \<in> set settings \<longrightarrow> k' \<noteq> k \<longrightarrow> e' \<noteq> e)"
proof -
  have "get env (bind_config base load all vp) k = Some v"
    by (rule viper_reader.get_env [where e = e, OF assms(1)]) (use assms(2-4) in \<open>simp_all add: settings_bound\<close>)
  moreover have "k' = k" if "(k', e) \<in> set settings" for k'
    using that assms(2) settings_distinct(2) by (metis eq_key_imp_eq_value distinct_map inj_on_eq_iff snd_conv fst_conv)
  ultimately show ?thesis by blast
qed

text \<open>A valid configuration.\<close>

definition ref_config :: "unit app_config" where
  "ref_config =
     \<lparr>cf_base = (), cf_valkey_url = ''redis://valkey:6379'', cf_valkey_password = [], cf_valkey_key_prefix = ''verifierdev'',
      cf_trust_service_url = ''http://trust.internal'',
      cf_sync = \<lparr>sc_poll_interval = 5 * minute, sc_cache_ttl = 45 * minute, sc_snapshot_poll_interval = 5 * minute,
        sc_types = [''pid_provider'']\<rparr>,
      cf_prefetch = \<lparr>pc_top_n = 50, pc_interval = minute, pc_default_ttl = 5 * minute, pc_min_ttl = 30 * second,
        pc_max_ttl = 24 * hour, pc_max_bytes = 1048576\<rparr>,
      cf_auth = ref_auth mode_dpop, cf_admin_key = ''k''\<rparr>"

lemma ref_parse: "parse_types [''pid_provider''] = Inr [PIDProvider]"
  by (simp add: parse_types_ok) code_simp

theorem validation_exact_witness: "validate_config (\<lambda>_. None) ref_validator ref_config = None"
  using validation_exact [OF ref_validator.tag_validator_axioms, of "\<lambda>_. None" ref_config]
  by (simp add: ref_config_def ref_auth_def ref_parse ref_url_def minute_def second_def hour_def)

lemma defaults_are_valid_instance:
  "validate_sync ref_validator (sync_config_of (ref_get (\<lambda>_. None) (bind_config (\<lambda>vp. vp) (\<lambda>_. Inl ValkeyNil)
     [''pid_provider''] \<lparr>vp_default = Map.empty, vp_env = []\<rparr>)) ''trust_sync'') = None"
  using defaults_are_valid [OF ref_validator.tag_validator_axioms ref_get.viper_reader_axioms ref_parse _ refl,
      of "\<lambda>vp. vp" "\<lparr>vp_default = Map.empty, vp_env = []\<rparr>" "\<lambda>_. Inl ValkeyNil"] by simp

section \<open>A cache lifetime below a second\<close>

context valkey_store
begin

text \<open>The server takes whole seconds: a write with less is refused and changes nothing.\<close>

lemma set_bytes_subsecond:
  assumes "set_bytes st k v ttl s = (r, s')" "ttl < second"
  shows "\<not> is_ok r \<and> view s' = view s"
  by (rule set_bytes_cases [OF assms(1)]) (use assms(2) in auto)

lemma prefetch_one_subsecond:
  assumes "pf_store P = valkey_status st K" "pc_min_ttl (pf_cfg P) \<le> pc_max_ttl (pf_cfg P)" "pc_max_ttl (pf_cfg P) < second"
  shows "view (wd_store (prefetch_one P uri w)) = view (wd_store w)"
proof (rule prefetch_one_cases [of P uri w], goal_cases ttl_error hit fetch_error written)
  case (written x s body c now c2 q s2)
  have "view s = view (wd_store w)" using written(1) assms(1) get_ttl_view by (simp add: valkey_status_def)
  moreover have "view s2 = view s"
    using set_bytes_subsecond [OF written(5) [unfolded assms(1) valkey_status_def status_store.simps]]
      le_less_trans [OF clamp_ttl_le [OF assms(2)] assms(3)] by blast
  ultimately show ?case using written(6) by simp
qed (use assms(1) get_ttl_view in \<open>fastforce simp: valkey_status_def\<close>)+

lemma prefetch_loop_subsecond:
  assumes "pf_store P = valkey_status st K" "pc_min_ttl (pf_cfg P) \<le> pc_max_ttl (pf_cfg P)" "pc_max_ttl (pf_cfg P) < second"
  shows "view (wd_store (prefetch_loop P us w)) = view (wd_store w)"
  by (induction us arbitrary: w) (simp_all add: prefetch_one_subsecond [OF assms])

end

text \<open>
  C38. Validation accepts a cache that can never be written: a prefetch section whose \<open>max_ttl\<close> is below
  one second validates, and then no pass ever changes a cached value, because the server takes
  expiries in whole seconds.
\<close>

theorem subsecond_clamp_caches_nothing:
  assumes "valkey_store st view ex_ms K wire C wf_entry wf_index wf_freshness" "tag_validator vl url"
    and "pf_refs P = valkey_refs st K" "pf_store P = valkey_status st K"
    and "validate_prefetch vl (pf_cfg P) = None" "pc_max_ttl (pf_cfg P) < second"
  shows "ks_val (view (wd_store (snd (prefetch_run P w)))) = ks_val (view (wd_store w))"
proof -
  note vs = assms(1)
  have mm: "pc_min_ttl (pf_cfg P) \<le> pc_max_ttl (pf_cfg P)"
    using assms(5) tag_validator.validate_prefetch_ok [OF assms(2)] by simp
  obtain q s where q: "top_status_refs st K (pc_top_n (pf_cfg P)) (wd_store w) = (q, s)" by force
  have vq: "view s = view (wd_store w)" by (rule valkey_store.top_view [OF vs q])
  show ?thesis
    using q vq valkey_store.trim_refs_val [OF vs assms(4)] valkey_store.prefetch_loop_subsecond [OF vs assms(4) mm assms(6)]
    by (cases q) (simp_all add: prefetch_run_def assms(3) valkey_refs_def)
qed

theorem subsecond_clamp_caches_nothing_witness:
  "validate_prefetch ref_validator (pf_cfg (ref_prefetcher\<lparr>pf_cfg := (pf_cfg ref_prefetcher)
     \<lparr>pc_min_ttl := 100 * millisecond, pc_max_ttl := 500 * millisecond\<rparr>\<rparr>)) = None \<and>
   ks_val (rs_ks (wd_store (snd (prefetch_run (ref_prefetcher\<lparr>pf_cfg := (pf_cfg ref_prefetcher)
     \<lparr>pc_min_ttl := 100 * millisecond, pc_max_ttl := 500 * millisecond\<rparr>\<rparr>)
     (prefetch_world [''https://issuer.example/1'']))))) =
   ks_val (rs_ks (wd_store (prefetch_world [''https://issuer.example/1''])))"
proof -
  let ?P = "ref_prefetcher\<lparr>pf_cfg := (pf_cfg ref_prefetcher)
     \<lparr>pc_min_ttl := 100 * millisecond, pc_max_ttl := 500 * millisecond\<rparr>\<rparr>"
  have v: "validate_prefetch ref_validator (pf_cfg ?P) = None"
    by (simp add: ref_validator.validate_prefetch_ok ref_prefetcher_def millisecond_def minute_def second_def)
  have P: "pf_refs ?P = valkey_refs ref_store ref_keys" "pf_store ?P = valkey_status ref_store ref_keys"
    "pc_max_ttl (pf_cfg ?P) < second"
    by (simp_all add: ref_prefetcher_def millisecond_def second_def)
  from subsecond_clamp_caches_nothing [OF ref_store.valkey_store_axioms ref_validator.tag_validator_axioms P(1,2) v P(3)] v
  show ?thesis by simp
qed

end
