(* ===== verification/Sync_Run.thy ===== *)
theory Sync_Run
  imports Sync_Properties
begin

text \<open>
  \<open>Syncer.Run\<close> (\<open>internal/trustsync/sync.go\<close>): the guarded entry the scheduled poll and the operator
  resync share. Any number of callers run concurrently; a step of the relation \<open>run_step\<close> is what
  one caller does atomically (a critical section under \<open>runMu\<close>, one type of the cycle, a channel
  operation). The \<open>done\<close> channels are numbered in the order they are made; \<open>rn_closed\<close> holds the
  closed ones.
\<close>

section \<open>Callers and steps\<close>

text \<open>A caller that called \<open>Run\<close> is about to lock \<open>runMu\<close> (\<open>Entering\<close>), runs the cycle (with the
  types still to do), runs the deferred function (first clears \<open>inflight\<close>, then closes its
  channel), waits on the channel of the cycle in flight, or has returned.\<close>

datatype phase =
    Entering
  | Cycling nat "anchor_type list"
  | Clearing nat
  | Closing nat
  | Waiting nat
  | Returned "gerr option"

record ('s, 'c) run_state =
  rn_inflight :: "nat option"
  rn_next :: nat
  rn_closed :: "nat set"
  rn_phase :: "nat \<Rightarrow> phase"
  rn_world :: "('s, 'c) world"

definition run_init :: "('s, 'c) world \<Rightarrow> ('s, 'c) run_state" where
  "run_init w =
     \<lparr>rn_inflight = None, rn_next = 0, rn_closed = {}, rn_phase = (\<lambda>_. Entering), rn_world = w\<rparr>"

text \<open>One iteration of the loop in \<open>SyncAll\<close>.\<close>

definition sync_one :: "('s, 'c) syncer \<Rightarrow> anchor_type \<Rightarrow> ('s, 'c) world \<Rightarrow> ('s, 'c) world" where
  "sync_one S t w =
     (case sync_type S t w of
        (Inr _, w1) \<Rightarrow> w1
      | (Inl e, w1) \<Rightarrow> w_log LError ''anchor sync failed''
          [(''anchor_type'', LvStr (type_string t)), (''error'', LvErr e)] w1)"

lemma sync_loop_Cons [simp]: "sync_loop S (t # ts) w = sync_loop S ts (sync_one S t w)"
  by (simp add: sync_one_def split: sum.splits prod.splits)

declare sync_loop.simps(2) [simp del]

inductive run_step :: "('s, 'c) syncer \<Rightarrow> ('s, 'c) run_state \<Rightarrow> ('s, 'c) run_state \<Rightarrow> bool" for S where
  join: "rn_phase s c = Entering \<Longrightarrow> rn_inflight s = Some d \<Longrightarrow>
    run_step S s (s\<lparr>rn_phase := (rn_phase s)(c := Waiting d)\<rparr>)"
| start: "rn_phase s c = Entering \<Longrightarrow> rn_inflight s = None \<Longrightarrow>
    parse_types (sc_types (sy_cfg S)) = Inr ts \<Longrightarrow>
    run_step S s (s\<lparr>rn_inflight := Some (rn_next s), rn_next := Suc (rn_next s),
      rn_phase := (rn_phase s)(c := Cycling (rn_next s) ts)\<rparr>)"
| bad_config: "rn_phase s c = Entering \<Longrightarrow> rn_inflight s = None \<Longrightarrow>
    parse_types (sc_types (sy_cfg S)) = Inl e \<Longrightarrow>
    run_step S s (s\<lparr>rn_inflight := Some (rn_next s), rn_next := Suc (rn_next s),
      rn_phase := (rn_phase s)(c := Clearing (rn_next s)),
      rn_world := w_log LError ''invalid anchor type configuration'' [(''error'', LvErr e)] (rn_world s)\<rparr>)"
| poll: "rn_phase s c = Cycling d (t # ts) \<Longrightarrow>
    run_step S s (s\<lparr>rn_phase := (rn_phase s)(c := Cycling d ts), rn_world := sync_one S t (rn_world s)\<rparr>)"
| cycle_end: "rn_phase s c = Cycling d [] \<Longrightarrow>
    run_step S s (s\<lparr>rn_phase := (rn_phase s)(c := Clearing d)\<rparr>)"
| clear: "rn_phase s c = Clearing d \<Longrightarrow>
    run_step S s (s\<lparr>rn_inflight := None, rn_phase := (rn_phase s)(c := Closing d)\<rparr>)"
| close: "rn_phase s c = Closing d \<Longrightarrow>
    run_step S s (s\<lparr>rn_closed := insert d (rn_closed s), rn_phase := (rn_phase s)(c := Returned None)\<rparr>)"
| joined: "rn_phase s c = Waiting d \<Longrightarrow> d \<in> rn_closed s \<Longrightarrow>
    run_step S s (s\<lparr>rn_phase := (rn_phase s)(c := Returned None)\<rparr>)"
| expired: "rn_phase s c = Waiting d \<Longrightarrow>
    run_step S s (s\<lparr>rn_phase := (rn_phase s)(c := Returned (Some ErrCtx))\<rparr>)"

section \<open>The invariant\<close>

text \<open>The channel a caller made and has not closed; the channel of a caller inside its cycle.\<close>

fun owns :: "phase \<Rightarrow> nat option" where
  "owns (Cycling d ts) = Some d"
| "owns (Clearing d) = Some d"
| "owns (Closing d) = Some d"
| "owns _ = None"

fun active :: "phase \<Rightarrow> nat option" where
  "active (Cycling d ts) = Some d"
| "active (Clearing d) = Some d"
| "active _ = None"

lemma active_owns: "active p = Some d \<Longrightarrow> owns p = Some d"
  by (cases p) auto

text \<open>What is left of the cycle a caller runs, as a function on the world.\<close>

fun rest :: "('s, 'c) syncer \<Rightarrow> phase \<Rightarrow> ('s, 'c) world \<Rightarrow> ('s, 'c) world" where
  "rest S (Cycling d ts) w = sync_loop S ts w"
| "rest S p w = w"

text \<open>Every open channel has one owner.\<close>

definition chan_inv :: "('s, 'c) run_state \<Rightarrow> bool" where
  "chan_inv s \<longleftrightarrow>
     (\<forall>c d. owns (rn_phase s c) = Some d \<longrightarrow> d < rn_next s \<and> d \<notin> rn_closed s) \<and>
     (\<forall>c b d. owns (rn_phase s c) = Some d \<longrightarrow> owns (rn_phase s b) = Some d \<longrightarrow> c = b) \<and>
     (\<forall>d \<in> rn_closed s. d < rn_next s)"

text \<open>\<open>inflight\<close> is the channel of the caller inside its cycle, and there is at most one.\<close>

definition active_inv :: "('s, 'c) run_state \<Rightarrow> bool" where
  "active_inv s \<longleftrightarrow>
     (\<forall>c d. active (rn_phase s c) = Some d \<longrightarrow> rn_inflight s = Some d) \<and>
     (\<forall>d. rn_inflight s = Some d \<longrightarrow> Suc d = rn_next s \<and> (\<exists>c. active (rn_phase s c) = Some d))"

text \<open>A waiting caller waits for a channel that is closed or has an owner who will close it.\<close>

definition wait_inv :: "('s, 'c) run_state \<Rightarrow> bool" where
  "wait_inv s \<longleftrightarrow>
     (\<forall>c d. rn_phase s c = Waiting d \<longrightarrow> d \<in> rn_closed s \<or> (\<exists>b. owns (rn_phase s b) = Some d))"

text \<open>The world is that of the cycles started so far, run one after another, up to what the caller
  inside its cycle still has to do.\<close>

definition world_inv :: "('s, 'c) syncer \<Rightarrow> ('s, 'c) world \<Rightarrow> ('s, 'c) run_state \<Rightarrow> bool" where
  "world_inv S w0 s \<longleftrightarrow>
     (rn_inflight s = None \<longrightarrow> rn_world s = (sync_all S ^^ rn_next s) w0) \<and>
     (\<forall>c d. active (rn_phase s c) = Some d \<longrightarrow>
        rest S (rn_phase s c) (rn_world s) = (sync_all S ^^ rn_next s) w0)"

definition run_inv :: "('s, 'c) syncer \<Rightarrow> ('s, 'c) world \<Rightarrow> ('s, 'c) run_state \<Rightarrow> bool" where
  "run_inv S w0 s \<longleftrightarrow> chan_inv s \<and> active_inv s \<and> wait_inv s \<and> world_inv S w0 s"

lemma run_inv_init: "run_inv S w (run_init w)"
  by (simp add: run_inv_def chan_inv_def active_inv_def wait_inv_def world_inv_def run_init_def)

lemma one_active:
  assumes "chan_inv s" "active_inv s" "active (rn_phase s c) = Some d" "active (rn_phase s b) = Some e"
  shows "b = c"
proof -
  have "rn_inflight s = Some d" "rn_inflight s = Some e" using assms(2-4) unfolding active_inv_def by blast+
  then have "e = d" by simp
  with assms show ?thesis unfolding chan_inv_def using active_owns by blast
qed

text \<open>A caller takes the lock and makes a channel.\<close>

lemma run_inv_enter:
  assumes inv: "run_inv S w0 s" and c: "rn_phase s c = Entering" "rn_inflight s = None"
    and p: "active p = Some (rn_next s)" "rest S p w = sync_all S (rn_world s)"
  shows "run_inv S w0 (s\<lparr>rn_inflight := Some (rn_next s), rn_next := Suc (rn_next s),
    rn_phase := (rn_phase s)(c := p), rn_world := w\<rparr>)"
proof -
  have o: "owns p = Some (rn_next s)" using p(1) by (rule active_owns)
  from inv have i: "chan_inv s" "active_inv s" "wait_inv s" "world_inv S w0 s" by (simp_all add: run_inv_def)
  have none: "active (rn_phase s b) = None" for b
    using i(2) c(2) unfolding active_inv_def by (metis not_None_eq)
  have w: "rn_world s = (sync_all S ^^ rn_next s) w0" using i(4) c(2) by (simp add: world_inv_def)
  have lt: "owns (rn_phase s b) = Some d \<Longrightarrow> d < rn_next s \<and> d \<notin> rn_closed s" for b d
    using i(1) unfolding chan_inv_def by blast
  have new: "rn_next s \<notin> rn_closed s" using i(1) unfolding chan_inv_def by blast
  have "chan_inv (s\<lparr>rn_inflight := Some (rn_next s), rn_next := Suc (rn_next s),
    rn_phase := (rn_phase s)(c := p), rn_world := w\<rparr>)"
    unfolding chan_inv_def
  proof (intro conjI allI impI ballI)
    fix b d assume "owns (rn_phase (s\<lparr>rn_inflight := Some (rn_next s), rn_next := Suc (rn_next s),
      rn_phase := (rn_phase s)(c := p), rn_world := w\<rparr>) b) = Some d"
    then show "d < rn_next (s\<lparr>rn_inflight := Some (rn_next s), rn_next := Suc (rn_next s),
      rn_phase := (rn_phase s)(c := p), rn_world := w\<rparr>)"
      "d \<notin> rn_closed (s\<lparr>rn_inflight := Some (rn_next s), rn_next := Suc (rn_next s),
      rn_phase := (rn_phase s)(c := p), rn_world := w\<rparr>)"
      using lt [of b d] new o by (auto split: if_splits)
  next
    fix b e d
    assume "owns (rn_phase (s\<lparr>rn_inflight := Some (rn_next s), rn_next := Suc (rn_next s),
      rn_phase := (rn_phase s)(c := p), rn_world := w\<rparr>) b) = Some d"
      "owns (rn_phase (s\<lparr>rn_inflight := Some (rn_next s), rn_next := Suc (rn_next s),
      rn_phase := (rn_phase s)(c := p), rn_world := w\<rparr>) e) = Some d"
    then show "b = e" using lt [of b d] lt [of e d] o i(1)
      by (auto simp: chan_inv_def split: if_splits)
  next
    fix d assume "d \<in> rn_closed (s\<lparr>rn_inflight := Some (rn_next s), rn_next := Suc (rn_next s),
      rn_phase := (rn_phase s)(c := p), rn_world := w\<rparr>)"
    then have "d < rn_next s" using i(1) unfolding chan_inv_def by simp
    then show "d < rn_next (s\<lparr>rn_inflight := Some (rn_next s), rn_next := Suc (rn_next s),
      rn_phase := (rn_phase s)(c := p), rn_world := w\<rparr>)" by simp
  qed
  moreover have "owns (rn_phase s c) = None" using c by simp
  ultimately show ?thesis
    using i(3) p none w
    by (auto simp: run_inv_def active_inv_def wait_inv_def world_inv_def) (metis option.distinct(1))+
qed

text \<open>A caller moves on inside its cycle.\<close>

lemma run_inv_move:
  assumes inv: "run_inv S w0 s" and c: "active (rn_phase s c) = Some d" "active p = Some d"
    and w: "rest S p w = rest S (rn_phase s c) (rn_world s)"
  shows "run_inv S w0 (s\<lparr>rn_phase := (rn_phase s)(c := p), rn_world := w\<rparr>)"
proof -
  let ?f = "(rn_phase s)(c := p)"
  from inv have i: "chan_inv s" "active_inv s" "wait_inv s" "world_inv S w0 s" by (simp_all add: run_inv_def)
  have o: "owns (?f b) = owns (rn_phase s b)" for b using active_owns c by simp
  have a: "active (?f b) = active (rn_phase s b)" for b using c by simp
  have wt: "?f b = Waiting e \<longleftrightarrow> rn_phase s b = Waiting e" for b e using c by (cases p; auto)
  have infl: "rn_inflight s = Some d" using i(2) c(1) by (simp add: active_inv_def)
  have "rest S (?f b) w = (sync_all S ^^ rn_next s) w0" if "active (rn_phase s b) = Some e" for b e
    using one_active [OF i(1,2) c(1) that] i(4) c(1) w by (auto simp: world_inv_def)
  then show ?thesis
    using i infl by (simp add: run_inv_def chan_inv_def active_inv_def wait_inv_def world_inv_def o a wt del: fun_upd_apply)
qed

text \<open>A caller that owns nothing moves to a phase that owns nothing.\<close>

lemma run_inv_idle:
  assumes inv: "run_inv S w0 s" and c: "owns (rn_phase s c) = None" "owns p = None"
    and p: "\<And>d. p = Waiting d \<Longrightarrow> rn_inflight s = Some d"
  shows "run_inv S w0 (s\<lparr>rn_phase := (rn_phase s)(c := p)\<rparr>)"
proof -
  let ?f = "(rn_phase s)(c := p)"
  from inv have i: "chan_inv s" "active_inv s" "wait_inv s" "world_inv S w0 s" by (simp_all add: run_inv_def)
  have o: "owns (?f b) = owns (rn_phase s b)" for b using c by simp
  have a: "active (?f b) = active (rn_phase s b)" for b
    using c active_owns by (metis fun_upd_apply not_None_eq)
  have r: "rest S (?f b) w = rest S (rn_phase s b) w" if "active (rn_phase s b) = Some d" for b d w
    using that c active_owns by fastforce
  have "d \<in> rn_closed s \<or> (\<exists>b. owns (rn_phase s b) = Some d)" if "?f b = Waiting d" for b d
  proof (cases "b = c")
    case True
    with that p have "rn_inflight s = Some d" by simp
    with i(2) show ?thesis unfolding active_inv_def by (metis active_owns)
  next
    case False
    with that i(3) show ?thesis by (simp add: wait_inv_def)
  qed
  with i r show ?thesis
    by (simp add: run_inv_def chan_inv_def active_inv_def wait_inv_def world_inv_def o a del: fun_upd_apply)
qed

text \<open>The deferred function: clear \<open>inflight\<close>, then close.\<close>

lemma run_inv_clear:
  assumes inv: "run_inv S w0 s" and c: "rn_phase s c = Clearing d"
  shows "run_inv S w0 (s\<lparr>rn_inflight := None, rn_phase := (rn_phase s)(c := Closing d)\<rparr>)"
proof -
  let ?f = "(rn_phase s)(c := Closing d)"
  from inv have i: "chan_inv s" "active_inv s" "wait_inv s" "world_inv S w0 s" by (simp_all add: run_inv_def)
  have o: "owns (?f b) = owns (rn_phase s b)" for b using c by simp
  have wt: "?f b = Waiting e \<longleftrightarrow> rn_phase s b = Waiting e" for b e using c by auto
  have a: "active (?f b) = None" for b
    using one_active [OF i(1,2), of c d b] c by (cases "active (rn_phase s b)") auto
  have "rn_world s = (sync_all S ^^ rn_next s) w0"
    using i(4) c unfolding world_inv_def by (metis active.simps(2) rest.simps(3))
  with i show ?thesis
    by (simp add: run_inv_def chan_inv_def active_inv_def wait_inv_def world_inv_def o a wt del: fun_upd_apply)
qed

lemma run_inv_close:
  assumes inv: "run_inv S w0 s" and c: "rn_phase s c = Closing d"
  shows "run_inv S w0 (s\<lparr>rn_closed := insert d (rn_closed s), rn_phase := (rn_phase s)(c := Returned None)\<rparr>)"
proof -
  let ?f = "(rn_phase s)(c := Returned None)"
  from inv have i: "chan_inv s" "active_inv s" "wait_inv s" "world_inv S w0 s" by (simp_all add: run_inv_def)
  have oc: "owns (rn_phase s c) = Some d" using c by simp
  have o: "owns (?f b) = (if b = c then None else owns (rn_phase s b))" for b by simp
  have a: "active (?f b) = active (rn_phase s b)" for b using c by simp
  have r: "rest S (?f b) w = rest S (rn_phase s b) w" for b w using c by simp
  have other: "e \<noteq> d" if "owns (rn_phase s b) = Some e" "b \<noteq> c" for b e
    using i(1) oc that unfolding chan_inv_def by blast
  have "chan_inv (s\<lparr>rn_closed := insert d (rn_closed s), rn_phase := ?f\<rparr>)"
    using i(1) oc other by (auto simp: chan_inv_def)
  moreover have "e \<in> insert d (rn_closed s) \<or> (\<exists>b. owns (?f b) = Some e)" if "?f b = Waiting e" for b e
  proof -
    from that have "rn_phase s b = Waiting e" by (cases "b = c") simp_all
    with i(3) have "e \<in> rn_closed s \<or> (\<exists>b. owns (rn_phase s b) = Some e)" by (simp add: wait_inv_def)
    then show ?thesis using oc by (metis insertCI insertI1 o option.inject)
  qed
  ultimately show ?thesis
    using i by (simp add: run_inv_def active_inv_def wait_inv_def world_inv_def a r del: fun_upd_apply)
qed

lemma run_inv_step: "run_step S s s' \<Longrightarrow> run_inv S w0 s \<Longrightarrow> run_inv S w0 s'"
proof (induction rule: run_step.induct)
  case (join s c d)
  then show ?case by (intro run_inv_idle) simp_all
next
  case (start s c ts)
  have "sync_loop S ts (rn_world s) = sync_all S (rn_world s)" using start(3) by (simp add: sync_all_def)
  with run_inv_enter [OF start(4,1,2), of "Cycling (rn_next s) ts" "rn_world s"] show ?case by simp
next
  case (bad_config s c e)
  with run_inv_enter [OF bad_config(4,1,2), of "Clearing (rn_next s)" "sync_all S (rn_world s)"]
  show ?case by (simp add: sync_all_def)
next
  case (poll s c d t ts)
  with run_inv_move [OF poll(2), of c d "Cycling d ts" "sync_one S t (rn_world s)"] show ?case by simp
next
  case (cycle_end s c d)
  with run_inv_move [OF cycle_end(2), of c d "Clearing d" "rn_world s"] show ?case by simp
next
  case (clear s c d)
  then show ?case by (intro run_inv_clear)
next
  case (close s c d)
  then show ?case by (intro run_inv_close)
qed (intro run_inv_idle, simp_all)+

lemma run_reachable_inv: "(run_step S)\<^sup>*\<^sup>* (run_init w) s \<Longrightarrow> run_inv S w s"
  by (induction rule: rtranclp_induct) (auto intro: run_inv_init run_inv_step)

section \<open>Properties\<close>

text \<open>
  C8. Cycles never interleave: however many callers enter \<open>Run\<close> and however their steps are
  scheduled, at most one is inside a cycle, and the state of the world is always the one complete
  cycles reach one after another (between cycles), followed by the first types of the current
  cycle (inside one).
\<close>

theorem cycles_never_interleave:
  assumes "(run_step S)\<^sup>*\<^sup>* (run_init w) s"
  shows "(rn_inflight s = None \<longrightarrow> rn_world s = (sync_all S ^^ rn_next s) w) \<and>
    (\<forall>c d ts. rn_phase s c = Cycling d ts \<longrightarrow>
       rn_inflight s = Some d \<and> sync_loop S ts (rn_world s) = (sync_all S ^^ Suc d) w \<and>
       (\<forall>b e us. rn_phase s b = Cycling e us \<longrightarrow> b = c))"
proof -
  from run_reachable_inv [OF assms] have i: "chan_inv s" "active_inv s" "world_inv S w s"
    by (simp_all add: run_inv_def)
  have "rn_inflight s = Some d \<and> sync_loop S ts (rn_world s) = (sync_all S ^^ Suc d) w"
    if c: "rn_phase s c = Cycling d ts" for c d ts
  proof -
    have "active (rn_phase s c) = Some d" using c by simp
    moreover from this i(2) have "rn_inflight s = Some d" unfolding active_inv_def by blast
    moreover from this i(2) have "Suc d = rn_next s" unfolding active_inv_def by blast
    ultimately have "rest S (rn_phase s c) (rn_world s) = (sync_all S ^^ Suc d) w"
      using i(3) unfolding world_inv_def by metis
    with c \<open>rn_inflight s = Some d\<close> show ?thesis by simp
  qed
  moreover have "b = c" if "rn_phase s c = Cycling d ts" "rn_phase s b = Cycling e us" for b c d e ts us
    using one_active [OF i(1,2), of c d b e] that by simp
  ultimately show ?thesis using i(3) unfolding world_inv_def by metis
qed

text \<open>
  C32. A joiner returns with its cycle's result state: it returns nil only when the channel it waits
  on is closed, and by then the cycle it joined is over (it is not in flight any more and no caller
  is inside it); the only other way to return is the error of its own context.
\<close>

theorem joiner_waits_for_its_cycle:
  assumes "(run_step S)\<^sup>*\<^sup>* (run_init w) s" "rn_phase s c = Waiting d"
    and "run_step S s s'" "rn_phase s' c = Returned r"
  shows "r = Some ErrCtx \<or>
    (r = None \<and> d \<in> rn_closed s \<and> d < rn_next s \<and> rn_inflight s \<noteq> Some d \<and>
     (\<forall>b ts. rn_phase s b \<noteq> Cycling d ts))"
proof -
  from run_reachable_inv [OF assms(1)] have i: "chan_inv s" "active_inv s" by (simp_all add: run_inv_def)
  have over: "d < rn_next s \<and> rn_inflight s \<noteq> Some d \<and> (\<forall>b ts. rn_phase s b \<noteq> Cycling d ts)"
    if "d \<in> rn_closed s"
    using that i unfolding chan_inv_def active_inv_def by (metis active_owns owns.simps(1))
  from assms(3,2,4) show ?thesis
  proof cases
    case (joined c' d')
    then show ?thesis using assms(2,4) over by (cases "c' = c") auto
  next
    case (expired c' d')
    then show ?thesis using assms(2,4) by (cases "c' = c") auto
  qed (use assms(2,4) in \<open>auto split: if_splits\<close>)
qed

lemma owner_closes:
  assumes "owns (rn_phase s c) = Some d"
  shows "\<exists>s'. (run_step S)\<^sup>*\<^sup>* s s' \<and> d \<in> rn_closed s' \<and> rn_phase s' c = Returned None"
proof -
  have closing: "\<exists>s'. (run_step S)\<^sup>*\<^sup>* s s' \<and> d \<in> rn_closed s' \<and> rn_phase s' c = Returned None"
    if "rn_phase s c = Closing d" for s :: "('a, 'b) run_state"
    using r_into_rtranclp [of "run_step S", OF run_step.close [OF that]] by fastforce
  have clearing: "\<exists>s'. (run_step S)\<^sup>*\<^sup>* s s' \<and> d \<in> rn_closed s' \<and> rn_phase s' c = Returned None"
    if "rn_phase s c = Clearing d" for s :: "('a, 'b) run_state"
    using run_step.clear [OF that, of S] closing [of "s\<lparr>rn_inflight := None, rn_phase := (rn_phase s)(c := Closing d)\<rparr>"]
    by (auto intro: converse_rtranclp_into_rtranclp)
  have cycling: "\<exists>s'. (run_step S)\<^sup>*\<^sup>* s s' \<and> d \<in> rn_closed s' \<and> rn_phase s' c = Returned None"
    if "rn_phase s c = Cycling d ts" for ts and s :: "('a, 'b) run_state"
    using that
  proof (induction ts arbitrary: s)
    case Nil
    from clearing [of "s\<lparr>rn_phase := (rn_phase s)(c := Clearing d)\<rparr>"] run_step.cycle_end [OF Nil, of S]
    show ?case by (auto intro: converse_rtranclp_into_rtranclp)
  next
    case (Cons t ts)
    from Cons.IH [of "s\<lparr>rn_phase := (rn_phase s)(c := Cycling d ts), rn_world := sync_one S t (rn_world s)\<rparr>"]
      run_step.poll [OF Cons.prems, of S]
    show ?case by (auto intro: converse_rtranclp_into_rtranclp)
  qed
  from assms show ?thesis by (cases "rn_phase s c") (auto intro: closing clearing cycling)
qed

text \<open>
  C33. No caller is stuck: whenever a caller waits, its channel is closed already or the steps of its
  owner alone lead to a state where it is; and a channel about to be closed is open, so \<open>close\<close>
  never panics.
\<close>

theorem waiters_are_released:
  assumes "(run_step S)\<^sup>*\<^sup>* (run_init w) s"
  shows "(\<forall>c d. rn_phase s c = Waiting d \<longrightarrow> (\<exists>s'. (run_step S)\<^sup>*\<^sup>* s s' \<and> d \<in> rn_closed s')) \<and>
    (\<forall>c d. rn_phase s c = Closing d \<longrightarrow> d \<notin> rn_closed s)"
proof -
  from run_reachable_inv [OF assms] have i: "chan_inv s" "wait_inv s" by (simp_all add: run_inv_def)
  have "\<exists>s'. (run_step S)\<^sup>*\<^sup>* s s' \<and> d \<in> rn_closed s'" if "rn_phase s c = Waiting d" for c d
    using i(2) that owner_closes [of s _ d S] unfolding wait_inv_def by blast
  moreover have "d \<notin> rn_closed s" if "rn_phase s c = Closing d" for c d
    using i(1) that unfolding chan_inv_def by (metis owns.simps(3))
  ultimately show ?thesis by blast
qed

text \<open>Caller 0 starts a cycle and caller 1 joins it.\<close>

definition joined_state :: "(refsrv, ref_env) run_state" where
  "joined_state =
     \<lparr>rn_inflight = Some 0, rn_next = 1, rn_closed = {},
      rn_phase = (\<lambda>_. Entering)(0 := Cycling 0 [PIDProvider], 1 := Waiting 0), rn_world = fresh_world\<rparr>"

lemma joined_reachable: "(run_step ref_syncer)\<^sup>*\<^sup>* (run_init fresh_world) joined_state"
proof -
  let ?s = "(run_init fresh_world)\<lparr>rn_inflight := Some (rn_next (run_init fresh_world)),
    rn_next := Suc (rn_next (run_init fresh_world)),
    rn_phase := (rn_phase (run_init fresh_world))(0 := Cycling (rn_next (run_init fresh_world)) [PIDProvider])\<rparr>"
  have 1: "run_step ref_syncer (run_init fresh_world) ?s"
    by (rule start) (simp_all add: run_init_def ref_syncer_def parse_types_ok)
  have 2: "run_step ref_syncer ?s (?s\<lparr>rn_phase := (rn_phase ?s)(1 := Waiting 0)\<rparr>)"
    by (rule join) (simp_all add: run_init_def)
  have "?s\<lparr>rn_phase := (rn_phase ?s)(1 := Waiting 0)\<rparr> = joined_state"
    by (simp add: joined_state_def run_init_def)
  with 2 have 2: "run_step ref_syncer ?s joined_state" by simp
  have "(run_step ref_syncer)\<^sup>*\<^sup>* ?s joined_state" using 2 by (rule r_into_rtranclp)
  with 1 show ?thesis by (rule converse_rtranclp_into_rtranclp)
qed

theorem cycles_never_interleave_witness:
  "sync_loop ref_syncer [PIDProvider] fresh_world = sync_all ref_syncer fresh_world"
proof -
  have c: "rn_phase joined_state 0 = Cycling 0 [PIDProvider]" by (simp add: joined_state_def)
  have "rn_world joined_state = fresh_world" by (simp add: joined_state_def)
  with cycles_never_interleave [OF joined_reachable, THEN conjunct2, rule_format, OF c] show ?thesis
    by (simp del: sync_loop_Cons)
qed

theorem joiner_waits_for_its_cycle_witness:
  "\<exists>s' r. run_step ref_syncer joined_state s' \<and> rn_phase s' 1 = Returned r \<and> r = Some ErrCtx"
proof -
  have w: "rn_phase joined_state 1 = Waiting 0" by (simp add: joined_state_def)
  have step: "run_step ref_syncer joined_state
      (joined_state\<lparr>rn_phase := (rn_phase joined_state)(1 := Returned (Some ErrCtx))\<rparr>)"
    using w by (rule expired)
  from joiner_waits_for_its_cycle [OF joined_reachable w step] step show ?thesis by fastforce
qed

theorem waiters_are_released_witness:
  "\<exists>s'. (run_step ref_syncer)\<^sup>*\<^sup>* joined_state s' \<and> 0 \<in> rn_closed s'"
proof -
  have "rn_phase joined_state 1 = Waiting 0" by (simp add: joined_state_def)
  from waiters_are_released [OF joined_reachable, THEN conjunct1, rule_format, OF this] show ?thesis .
qed

end
