(* ===== verification/Routes.thy ===== *)
theory Routes
  imports Sync_Liveness Sync_Run
begin

text \<open>
  The HTTP surface: \<open>routes/router.go\<close>, \<open>routes/health.go\<close>, \<open>routes/admin.go\<close>. A handler is a function
  from the request and the world to the response and the next world. Azugo's router is a table from
  method and path to handler; the platform kit renders the errors given to \<open>ctx.Error\<close>, so such an
  answer is \<open>Problem e\<close>. SHA-256 is a parameter, and \<open>ConstantTimeCompare\<close> of two digests is equality.
\<close>

section \<open>Requests, responses, the router\<close>

record http_request =
  hq_method :: string
  hq_path :: string
  hq_api_key :: string

record type_body =
  tb_synced :: bool
  tb_snapshot_id :: string
  tb_fetched_at :: "gotime option"
  tb_valid_until :: "gotime option"
  tb_upstream_stale :: bool

record status_body =
  sb_ready :: bool
  sb_reason :: string
  sb_types :: "string \<rightharpoonup> type_body"

datatype answer =
    Fields int "(string \<times> string) list"
  | Report int status_body
  | Problem gerr
  | NotServed

record response_of =
  ra_answer :: answer
  ra_skip_log :: bool

type_synonym ('s, 'c) handler = "http_request \<Rightarrow> ('s, 'c) world \<Rightarrow> response_of \<times> ('s, 'c) world"

text \<open>\<open>rt_run\<close> is the syncer's \<open>Run\<close> as the handler sees it: the error, if any, and the world when it
  returns (other callers may have moved it). \<open>rt_unauthorized\<close> is the kit's error value.\<close>

record ('s, 'c) router =
  rt_admin_key :: string
  rt_sha256 :: "string \<Rightarrow> string"
  rt_unauthorized :: gerr
  rt_now :: "'c \<Rightarrow> gotime \<times> 'c"
  rt_run :: "('s, 'c) world \<Rightarrow> gerr option \<times> ('s, 'c) world"

section \<open>Handlers\<close>

definition healthz :: "('s, 'c) handler" where
  "healthz req w = (\<lparr>ra_answer = Fields 200 [(''status'', ''ok'')], ra_skip_log = True\<rparr>, w)"

text \<open>\<open>State.Ready\<close> with its own reading of the clock.\<close>

definition read_ready :: "('s, 'c) router \<Rightarrow> ('s, 'c) world \<Rightarrow> (bool \<times> string) \<times> ('s, 'c) world" where
  "read_ready R w = (let (now, c) = rt_now R (wd_env w) in (ready (wd_health w) now, w\<lparr>wd_env := c\<rparr>))"

definition readyz :: "('s, 'c) router \<Rightarrow> ('s, 'c) handler" where
  "readyz R req w =
     (let ((ok, reason), w1) = read_ready R w
      in if \<not> ok
         then (\<lparr>ra_answer = Fields 503 [(''status'', ''not-ready''), (''reason'', reason)], ra_skip_log = True\<rparr>, w1)
         else (\<lparr>ra_answer = Fields 200 [(''status'', ''ok'')], ra_skip_log = True\<rparr>, w1))"

definition api_key_auth :: "('s, 'c) router \<Rightarrow> string \<Rightarrow> ('s, 'c) handler \<Rightarrow> ('s, 'c) handler" where
  "api_key_auth R configured_hash next_handler req w =
     (if rt_sha256 R (hq_api_key req) \<noteq> configured_hash
      then (\<lparr>ra_answer = Problem (rt_unauthorized R), ra_skip_log = False\<rparr>, w)
      else next_handler req w)"

definition type_body_of :: "type_status \<Rightarrow> type_body" where
  "type_body_of st =
     (if st_synced st
      then \<lparr>tb_synced = True, tb_snapshot_id = st_snapshot_id st, tb_fetched_at = Some (st_fetched_at st),
            tb_valid_until = Some (st_valid_until st), tb_upstream_stale = st_upstream_stale st\<rparr>
      else \<lparr>tb_synced = False, tb_snapshot_id = [], tb_fetched_at = None, tb_valid_until = None,
            tb_upstream_stale = False\<rparr>)"

fun put_types :: "type_status list \<Rightarrow> (string \<rightharpoonup> type_body) \<Rightarrow> (string \<rightharpoonup> type_body)" where
  "put_types [] m = m"
| "put_types (st # sts) m = put_types sts (m(st_type st \<mapsto> type_body_of st))"

definition status_of :: "('s, 'c) router \<Rightarrow> ('s, 'c) world \<Rightarrow> status_body \<times> ('s, 'c) world" where
  "status_of R w =
     (let ((ok, reason), w1) = read_ready R w
      in (\<lparr>sb_ready = ok, sb_reason = reason, sb_types = put_types (type_statuses (wd_health w1)) Map.empty\<rparr>, w1))"

definition trust_status :: "('s, 'c) router \<Rightarrow> ('s, 'c) handler" where
  "trust_status R req w =
     (let (body, w1) = status_of R w in (\<lparr>ra_answer = Report 200 body, ra_skip_log = False\<rparr>, w1))"

definition resync :: "('s, 'c) router \<Rightarrow> ('s, 'c) handler" where
  "resync R req w =
     (case rt_run R w of
        (Some e, w1) \<Rightarrow> (\<lparr>ra_answer = Problem e, ra_skip_log = False\<rparr>, w1)
      | (None, w1) \<Rightarrow>
          (let (body, w2) = status_of R w1
           in (\<lparr>ra_answer = Report (if sb_ready body then 200 else 503) body, ra_skip_log = False\<rparr>, w2)))"

section \<open>The table\<close>

definition routes_init :: "('s, 'c) router \<Rightarrow> ('s, 'c) world \<Rightarrow> ((string \<times> string) \<times> ('s, 'c) handler) list \<times> ('s, 'c) world" where
  "routes_init R w =
     (let probes = [((''GET'', ''/healthz''), healthz), ((''GET'', ''/readyz''), readyz R)]
      in if rt_admin_key R \<noteq> []
         then (let auth = api_key_auth R (rt_sha256 R (rt_admin_key R))
               in (probes @ [((''GET'', ''/v1/trust-status''), auth (trust_status R)),
                             ((''POST'', ''/v1/resync''), auth (resync R))], w))
         else (probes, w_log LInfo
                 (''no admin API key configured '' @ em_dash @
                   '' the operator surface (/v1/trust-status, /v1/resync) is not served'') [] w))"

text \<open>What the server answers: the handler the table has for the request, or that nothing is served.\<close>

definition serve ::
  "((string \<times> string) \<times> ('s, 'c) handler) list \<Rightarrow> http_request \<Rightarrow> ('s, 'c) world \<Rightarrow> response_of \<times> ('s, 'c) world" where
  "serve table req w =
     (case map_of table (hq_method req, hq_path req) of
        None \<Rightarrow> (\<lparr>ra_answer = NotServed, ra_skip_log = False\<rparr>, w)
      | Some h \<Rightarrow> h req w)"

section \<open>Lemmas\<close>

lemma put_types_map:
  "distinct (map st_type sts) \<Longrightarrow>
     put_types sts m k = (case map_of (map (\<lambda>st. (st_type st, type_body_of st)) sts) k of None \<Rightarrow> m k | Some b \<Rightarrow> Some b)"
  by (induction sts arbitrary: m) (auto split: option.splits simp: map_of_eq_None_iff image_iff dest!: map_of_SomeD)

lemma put_types_statuses:
  "put_types (map (type_status_of h) ts) m k =
     (if k \<in> set ts then Some (type_body_of (type_status_of h k)) else m k)"
proof (induction ts arbitrary: m)
  case (Cons t ts)
  have "st_type (type_status_of h t) = t" by (simp add: type_status_of_def split: option.splits)
  with Cons show ?case by auto
qed simp

definition clock_at :: "('s, 'c) router \<Rightarrow> ('s, 'c) world \<Rightarrow> gotime" where
  "clock_at R w = fst (rt_now R (wd_env w))"

lemma read_ready_simps [simp]:
  "read_ready R w = (ready (wd_health w) (clock_at R w), w\<lparr>wd_env := snd (rt_now R (wd_env w))\<rparr>)"
  by (simp add: read_ready_def clock_at_def split: prod.splits)

lemma status_of_simps [simp]:
  "sb_ready (fst (status_of R w)) = fst (ready (wd_health w) (clock_at R w))"
  "sb_reason (fst (status_of R w)) = snd (ready (wd_health w) (clock_at R w))"
  "sb_types (fst (status_of R w)) = (\<lambda>k. if k \<in> set (hs_required (wd_health w))
     then Some (type_body_of (type_status_of (wd_health w) k)) else None)"
  "snd (status_of R w) = w\<lparr>wd_env := snd (rt_now R (wd_env w))\<rparr>"
  by (auto simp: status_of_def type_statuses_def put_types_statuses Let_def split: prod.splits)

text \<open>The part of \<open>Run\<close> after its first test, for a caller that found no cycle in flight: one complete cycle of its own,
  and no error. \<open>Sync_Run\<close> models all of \<open>Run\<close>, with the joiners and their contexts; \<open>run_alone_steps\<close> says that this is
  what such a caller's steps come to there.\<close>

definition run_alone :: "('s, 'c) syncer \<Rightarrow> ('s, 'c) world \<Rightarrow> gerr option \<times> ('s, 'c) world" where
  "run_alone S w = (None, sync_all S w)"

lemma cycling_returns:
  assumes "rn_phase s c = Cycling d ts"
  shows "\<exists>s'. (run_step S)\<^sup>*\<^sup>* s s' \<and> rn_phase s' c = Returned None \<and> rn_world s' = sync_loop S ts (rn_world s) \<and>
    rn_inflight s' = None"
  using assms
proof (induction ts arbitrary: s)
  case Nil
  let ?s1 = "s\<lparr>rn_phase := (rn_phase s)(c := Clearing d)\<rparr>"
  let ?s2 = "?s1\<lparr>rn_inflight := None, rn_phase := (rn_phase ?s1)(c := Closing d)\<rparr>"
  let ?s3 = "?s2\<lparr>rn_closed := insert d (rn_closed ?s2), rn_phase := (rn_phase ?s2)(c := Returned None)\<rparr>"
  have "run_step S s ?s1" "run_step S ?s1 ?s2" "run_step S ?s2 ?s3"
    by (rule cycle_end [OF Nil], rule clear, simp, rule close, simp)
  then have "(run_step S)\<^sup>*\<^sup>* s ?s3"
    by (intro converse_rtranclp_into_rtranclp [of _ s ?s1] converse_rtranclp_into_rtranclp [of _ ?s1 ?s2] r_into_rtranclp)
  then show ?case by (intro exI [of _ ?s3]) simp
next
  case (Cons t ts)
  from Cons.IH [of "s\<lparr>rn_phase := (rn_phase s)(c := Cycling d ts), rn_world := sync_one S t (rn_world s)\<rparr>"]
    run_step.poll [OF Cons.prems, of S]
  show ?case by (auto simp del: sync_loop.simps(2) intro: converse_rtranclp_into_rtranclp)
qed

lemma run_alone_steps:
  assumes "rn_phase s c = Entering" "rn_inflight s = None" "parse_types (sc_types (sy_cfg S)) = Inr ts"
  shows "\<exists>s'. (run_step S)\<^sup>*\<^sup>* s s' \<and> rn_phase s' c = Returned (fst (run_alone S (rn_world s))) \<and>
    rn_world s' = snd (run_alone S (rn_world s))"
proof -
  let ?s = "s\<lparr>rn_inflight := Some (rn_next s), rn_next := Suc (rn_next s),
      rn_phase := (rn_phase s)(c := Cycling (rn_next s) ts)\<rparr>"
  have "run_step S s ?s" by (rule start [OF assms])
  moreover from cycling_returns [of ?s c "rn_next s" ts S]
  obtain s' where "(run_step S)\<^sup>*\<^sup>* ?s s'" "rn_phase s' c = Returned None" "rn_world s' = sync_loop S ts (rn_world s)"
    by auto
  ultimately show ?thesis
    using assms(3) by (auto simp: run_alone_def sync_all_def intro: converse_rtranclp_into_rtranclp)
qed

section \<open>Properties\<close>


text \<open>
  C21. \<open>/readyz\<close> fails closed: it is served without a key, answers 200 exactly when some type is
  configured and every configured type is live at the moment it asks, and otherwise 503 with the
  reason \<open>Ready\<close> gives; it changes nothing but the clock's environment.
\<close>

theorem readyz_fails_closed:
  assumes "table = fst (routes_init R w0)" "hq_method req = ''GET''" "hq_path req = ''/readyz''"
  shows "ra_answer (fst (serve table req w)) =
      (if hs_required (wd_health w) \<noteq> [] \<and> list_all (live (wd_health w) (clock_at R w)) (hs_required (wd_health w))
       then Fields 200 [(''status'', ''ok'')]
       else Fields 503 [(''status'', ''not-ready''), (''reason'', snd (ready (wd_health w) (clock_at R w)))]) \<and>
    snd (serve table req w) = w\<lparr>wd_env := snd (rt_now R (wd_env w))\<rparr>"
proof -
  have "map_of (fst (routes_init R w0)) (''GET'', ''/readyz'') = Some (readyz R)"
    by (simp add: routes_init_def Let_def)
  then show ?thesis
    using assms fst_ready [of "wd_health w" "clock_at R w"]
    by (cases "ready (wd_health w) (clock_at R w)") (auto simp: serve_def readyz_def)
qed

lemma status_of_body:
  "fst (status_of R w) =
     \<lparr>sb_ready = fst (ready (wd_health w) (clock_at R w)), sb_reason = snd (ready (wd_health w) (clock_at R w)),
      sb_types = (\<lambda>k. if k \<in> set (hs_required (wd_health w))
        then Some (case hs_fresh (wd_health w) k of
            Some f \<Rightarrow> \<lparr>tb_synced = True, tb_snapshot_id = snapshotID f, tb_fetched_at = Some (fetchedAt f),
              tb_valid_until = Some (validUntil f), tb_upstream_stale = upstreamStale f\<rparr>
          | None \<Rightarrow> \<lparr>tb_synced = False, tb_snapshot_id = [], tb_fetched_at = None, tb_valid_until = None,
              tb_upstream_stale = False\<rparr>)
        else None)\<rparr>"
proof -
  have "type_body_of (type_status_of h k) = (case hs_fresh h k of
      Some f \<Rightarrow> \<lparr>tb_synced = True, tb_snapshot_id = snapshotID f, tb_fetched_at = Some (fetchedAt f),
        tb_valid_until = Some (validUntil f), tb_upstream_stale = upstreamStale f\<rparr>
    | None \<Rightarrow> \<lparr>tb_synced = False, tb_snapshot_id = [], tb_fetched_at = None, tb_valid_until = None,
        tb_upstream_stale = False\<rparr>)" for h k
    by (simp add: type_status_of_def type_body_of_def split: option.splits)
  then show ?thesis
    by (auto simp: status_of_def type_statuses_def put_types_statuses Let_def fun_eq_iff split: prod.splits)
qed

lemma resync_clean:
  assumes "worker_clock S clk" "set (sc_types (sy_cfg S)) \<subseteq> set wire_names" "sc_types (sy_cfg S) \<noteq> []"
    and "hs_required (wd_health w) = sc_types (sy_cfg S)"
    and "error_lines (ob_log (wd_obs (sync_all S w))) = error_lines (ob_log (wd_obs w))"
    and "valid_time (clock_at R (sync_all S w))"
    and "nanos (clock_at R (sync_all S w)) < clk (wd_env w) + sc_cache_ttl (sy_cfg S)"
  shows "fst (ready (wd_health (sync_all S w)) (clock_at R (sync_all S w))) \<and>
    hs_required (wd_health (sync_all S w)) = sc_types (sy_cfg S) \<and>
    (\<forall>k \<in> set (sc_types (sy_cfg S)). \<exists>f. hs_fresh (wd_health (sync_all S w)) k = Some f \<and>
       clk (wd_env w) + sc_cache_ttl (sy_cfg S) \<le> nanos (validUntil f))"
proof -
  let ?w = "sync_all S w"
  note c = worker_clock.clean_cycle [OF assms(1,2,5)]
  have f: "worker_clock.fresh_since S (clk (wd_env w)) ?w k" if "k \<in> set (sc_types (sy_cfg S))" for k
    using c that by (simp add: list_all_iff)
  have "list_all (live (wd_health ?w) (clock_at R ?w)) (sc_types (sy_cfg S))"
    using f worker_clock.fresh_since_live [OF assms(1) _ assms(6,7)] by (simp add: list_all_iff)
  then have "fst (ready (wd_health ?w) (clock_at R ?w))" using c assms(3,4) by (simp add: fst_ready)
  moreover have "\<exists>f. hs_fresh (wd_health ?w) k = Some f \<and> clk (wd_env w) + sc_cache_ttl (sy_cfg S) \<le> nanos (validUntil f)"
    if k: "k \<in> set (sc_types (sy_cfg S))" for k
    using f [OF k] by (auto simp: worker_clock.fresh_since_def [OF assms(1)])
  ultimately show ?thesis using c assms(4) by simp
qed

text \<open>
  C20. An operator's resync answers with what the worker holds after it. Whatever \<open>Run\<close> did, a cycle of its own or a wait
  for another's: an error it returns is the answer; otherwise the answer is 200 exactly when every configured type (and
  there is one) is before its horizon, else 503, with the reason and, for each configured type and no other, the
  recorded snapshot id, fetch time, horizon and stale flag, or that it was never synced. It is the body
  \<open>GET /v1/trust-status\<close> gives at that moment with the same key. When \<open>Run\<close> was a cycle of its own that logged no error,
  the code is 200 and every type is reported as synced until at least a cache TTL after the cycle began.
\<close>

theorem resync_reports_identity:
  assumes "rt_sha256 R (hq_api_key req) = rt_sha256 R (rt_admin_key R)" "rt_admin_key R \<noteq> []"
    and "hq_method req = ''POST''" "hq_path req = ''/v1/resync''"
    and "serve (fst (routes_init R w0)) req w = (resp, w')" "rt_run R w = (err, w1)" "now = fst (rt_now R (wd_env w1))"
  shows "case err of
      Some e \<Rightarrow> ra_answer resp = Problem e \<and> w' = w1
    | None \<Rightarrow> \<exists>body. ra_answer resp = Report (if sb_ready body then 200 else 503) body \<and>
        w' = w1\<lparr>wd_env := snd (rt_now R (wd_env w1))\<rparr> \<and>
        (sb_ready body \<longleftrightarrow> hs_required (wd_health w1) \<noteq> [] \<and>
           (\<forall>k \<in> set (hs_required (wd_health w1)).
              \<exists>f. hs_fresh (wd_health w1) k = Some f \<and> time_before now (validUntil f))) \<and>
        sb_reason body = (if hs_required (wd_health w1) = [] then ''no anchor types configured''
          else case filter (\<lambda>t. \<not> live (wd_health w1) now t) (hs_required (wd_health w1)) of
                 [] \<Rightarrow> []
               | t # _ \<Rightarrow> (if hs_fresh (wd_health w1) t = None then ''anchor type never synced: ''
                           else ''anchor cache expired for type: '') @ t) \<and>
        (\<forall>k. sb_types body k = (if k \<notin> set (hs_required (wd_health w1)) then None
           else Some (case hs_fresh (wd_health w1) k of
               Some f \<Rightarrow> \<lparr>tb_synced = True, tb_snapshot_id = snapshotID f, tb_fetched_at = Some (fetchedAt f),
                 tb_valid_until = Some (validUntil f), tb_upstream_stale = upstreamStale f\<rparr>
             | None \<Rightarrow> \<lparr>tb_synced = False, tb_snapshot_id = [], tb_fetched_at = None, tb_valid_until = None,
                 tb_upstream_stale = False\<rparr>))) \<and>
        fst (serve (fst (routes_init R w0)) (req\<lparr>hq_method := ''GET'', hq_path := ''/v1/trust-status''\<rparr>) w1) =
          \<lparr>ra_answer = Report 200 body, ra_skip_log = False\<rparr> \<and>
        (worker_clock S clk \<and> w1 = sync_all S w \<and>
         set (sc_types (sy_cfg S)) \<subseteq> set wire_names \<and> sc_types (sy_cfg S) \<noteq> [] \<and>
         hs_required (wd_health w) = sc_types (sy_cfg S) \<and>
         error_lines (ob_log (wd_obs w1)) = error_lines (ob_log (wd_obs w)) \<and>
         valid_time now \<and> nanos now < clk (wd_env w) + sc_cache_ttl (sy_cfg S) \<longrightarrow>
         sb_ready body \<and>
         (\<forall>k \<in> set (sc_types (sy_cfg S)). \<exists>b v. sb_types body k = Some b \<and> tb_synced b \<and> tb_valid_until b = Some v \<and>
            clk (wd_env w) + sc_cache_ttl (sy_cfg S) \<le> nanos v))"
proof -
  have post: "map_of (fst (routes_init R w0)) (''POST'', ''/v1/resync'') =
      Some (api_key_auth R (rt_sha256 R (rt_admin_key R)) (resync R))"
    "map_of (fst (routes_init R w0)) (''GET'', ''/v1/trust-status'') =
      Some (api_key_auth R (rt_sha256 R (rt_admin_key R)) (trust_status R))"
    using assms(2) by (simp_all add: routes_init_def Let_def)
  have run: "resync R req w = (resp, w')" using assms(1,3-5) post(1) by (simp add: serve_def api_key_auth_def)
  show ?thesis
  proof (cases err)
    case (Some e)
    with run assms(6) show ?thesis by (auto simp: resync_def)
  next
    case None
    let ?b = "fst (status_of R w1)"
    have now: "clock_at R w1 = now" by (simp add: clock_at_def assms(7))
    have resp: "ra_answer resp = Report (if sb_ready ?b then 200 else 503) ?b"
      "w' = w1\<lparr>wd_env := snd (rt_now R (wd_env w1))\<rparr>"
      using run assms(6) None by (auto simp: resync_def case_prod_unfold Let_def)
    have rdy: "sb_ready ?b \<longleftrightarrow> hs_required (wd_health w1) \<noteq> [] \<and> (\<forall>k \<in> set (hs_required (wd_health w1)).
        \<exists>f. hs_fresh (wd_health w1) k = Some f \<and> time_before now (validUntil f))"
      by (auto simp: fst_ready list_all_iff live_def now split: option.splits)
    have reason: "sb_reason ?b = (if hs_required (wd_health w1) = [] then ''no anchor types configured''
          else case filter (\<lambda>t. \<not> live (wd_health w1) now t) (hs_required (wd_health w1)) of
                 [] \<Rightarrow> []
               | t # _ \<Rightarrow> (if hs_fresh (wd_health w1) t = None then ''anchor type never synced: ''
                           else ''anchor cache expired for type: '') @ t)"
      by (simp add: now ready_filter split: list.splits)
    have report: "fst (serve (fst (routes_init R w0)) (req\<lparr>hq_method := ''GET'', hq_path := ''/v1/trust-status''\<rparr>) w1) =
        \<lparr>ra_answer = Report 200 ?b, ra_skip_log = False\<rparr>"
      using assms(1) post(2) by (simp add: serve_def api_key_auth_def trust_status_def case_prod_unfold Let_def)
    have clean: "sb_ready ?b \<and> (\<forall>k \<in> set (sc_types (sy_cfg S)). \<exists>b v. sb_types ?b k = Some b \<and> tb_synced b \<and>
        tb_valid_until b = Some v \<and> clk (wd_env w) + sc_cache_ttl (sy_cfg S) \<le> nanos v)"
      if "worker_clock S clk" "w1 = sync_all S w" "set (sc_types (sy_cfg S)) \<subseteq> set wire_names" "sc_types (sy_cfg S) \<noteq> []"
        "hs_required (wd_health w) = sc_types (sy_cfg S)"
        "error_lines (ob_log (wd_obs w1)) = error_lines (ob_log (wd_obs w))" "valid_time now"
        "nanos now < clk (wd_env w) + sc_cache_ttl (sy_cfg S)"
      using resync_clean [OF that(1,3-5), of R] that(2,6-8) now by (fastforce simp: status_of_body)
    have types: "sb_types ?b k = (if k \<notin> set (hs_required (wd_health w1)) then None
           else Some (case hs_fresh (wd_health w1) k of
               Some f \<Rightarrow> \<lparr>tb_synced = True, tb_snapshot_id = snapshotID f, tb_fetched_at = Some (fetchedAt f),
                 tb_valid_until = Some (validUntil f), tb_upstream_stale = upstreamStale f\<rparr>
             | None \<Rightarrow> \<lparr>tb_synced = False, tb_snapshot_id = [], tb_fetched_at = None, tb_valid_until = None,
                 tb_upstream_stale = False\<rparr>))" for k
      by (simp add: status_of_body)
    show ?thesis
      unfolding None option.case
      by (intro exI [of _ ?b] conjI allI) ((rule resp rdy reason types report)+, use clean in blast)
  qed
qed

text \<open>The routes over the reference syncer, with one admin key.\<close>

definition ref_router :: "(refsrv, ref_env) router" where
  "ref_router =
     \<lparr>rt_admin_key = ''k1'', rt_sha256 = rev, rt_unauthorized = ErrMsg ''unauthorized'',
      rt_now = sy_now ref_syncer, rt_run = run_alone ref_syncer\<rparr>"


theorem readyz_fails_closed_witness:
  "ra_answer (fst (serve (fst (routes_init ref_router lost_world))
     \<lparr>hq_method = ''GET'', hq_path = ''/readyz'', hq_api_key = []\<rparr> (lost_world\<lparr>wd_health := new_state []\<rparr>))) =
   Fields 503 [(''status'', ''not-ready''), (''reason'', ''no anchor types configured'')]"
  using readyz_fails_closed [OF refl, of "\<lparr>hq_method = ''GET'', hq_path = ''/readyz'', hq_api_key = []\<rparr>"
      ref_router lost_world "lost_world\<lparr>wd_health := new_state []\<rparr>"]
  by (simp add: new_state_def ready_def)

theorem resync_reports_identity_witness:
  "\<exists>resp w' body. serve (fst (routes_init ref_router lost_world))
     \<lparr>hq_method = ''POST'', hq_path = ''/v1/resync'', hq_api_key = ''k1''\<rparr> lost_world = (resp, w') \<and>
     ra_answer resp = Report 200 body \<and> sb_ready body"
proof -
  let ?req = "\<lparr>hq_method = ''POST'', hq_path = ''/v1/resync'', hq_api_key = ''k1''\<rparr>"
  let ?w = "sync_all ref_syncer lost_world"
  have types: "sc_types (sy_cfg ref_syncer) = [''pid_provider'']" by (simp add: ref_syncer_def)
  have R: "rt_sha256 ref_router (hq_api_key ?req) = rt_sha256 ref_router (rt_admin_key ref_router)"
    "rt_admin_key ref_router \<noteq> []" "hq_method ?req = ''POST''" "hq_path ?req = ''/v1/resync''"
    "rt_run ref_router lost_world = (None, ?w)"
    by (simp_all add: ref_router_def run_alone_def)
  obtain w' where run: "sync_type ref_syncer PIDProvider lost_world = (Inr (), w')"
    using lost_world_poll(2) by blast
  have "parse_types [''pid_provider''] = Inr [PIDProvider]" by (simp add: parse_types_ok)
  with run types have all: "?w = w'" by (simp add: sync_all_def)
  have clean: "error_lines (ob_log (wd_obs ?w)) = error_lines (ob_log (wd_obs lost_world))"
    using sync_type_counts [OF wire_pid run] unfolding all by blast
  have pre: "set (sc_types (sy_cfg ref_syncer)) \<subseteq> set wire_names" "sc_types (sy_cfg ref_syncer) \<noteq> []"
    "hs_required (wd_health lost_world) = sc_types (sy_cfg ref_syncer)"
    by (simp_all add: types lost_world_def ref_world_def new_state_def)
  have env: "re_time (wd_env ?w) = 1783166400"
    unfolding all
    by (rule sync_type_cases [OF wire_pid run])
      (auto simp: poll_end_def poll_env_def anchors_call_def ref_syncer_def ref_client_def lost_world_def ref_world_def)
  have "sy_now ref_syncer c = (time_unix (re_time c mod 4000000000), c)" for c by (simp add: ref_syncer_def)
  then have clock: "clock_at ref_router ?w = time_unix 1783166400" by (simp add: clock_at_def ref_router_def env)
  have now: "valid_time (clock_at ref_router ?w)"
    "nanos (clock_at ref_router ?w) < nanos (time_unix (re_time (wd_env lost_world) mod 4000000000)) +
       sc_cache_ttl (sy_cfg ref_syncer)"
    unfolding clock
    by (simp_all add: valid_time_def is_i64_def time_unix_def i64_def nanos_def second_def minute_def ref_syncer_def
        lost_world_def ref_world_def)
  obtain resp w2 where serve: "serve (fst (routes_init ref_router lost_world)) ?req lost_world = (resp, w2)" by force
  from resync_reports_identity [OF R(1-4) serve R(5) refl, of ref_syncer "\<lambda>c. nanos (time_unix (re_time c mod 4000000000))"]
    ref_clock.worker_clock_axioms pre clean now [unfolded clock_at_def] serve show ?thesis
    by (clarsimp simp del: status_of_simps)
qed

end
