(* ===== verification/Schedule.thy ===== *)
theory Schedule
  imports Go_Std
begin

text \<open>
  \<open>internal/schedule/schedule.go\<close>: the background loop that runs a job at once and then on every tick.
  The state is the fields of \<open>task\<close> with the Go objects they point to; a step of \<open>task_step\<close> is one
  thing the loop's goroutine, a caller of \<open>Start\<close> or \<open>Stop\<close>, or the runtime's timer does. Each
  \<open>Start\<close> makes one channel, one ticker and one goroutine; the three share a number. A ticker holds
  at most one tick (later ones are dropped), and \<open>Ticker.Stop\<close> discards it, as the documentation of
  package \<open>time\<close> says for the Go version of the module (1.27).
\<close>

section \<open>State\<close>

text \<open>Where a goroutine is: started, inside the job with its correlation id, about to evaluate the
  \<open>select\<close>, blocked in it on a channel and a ticker, past it with a tick, or finished.\<close>

datatype loop_phase =
    Spawned
  | InJob string
  | Selecting
  | Blocked nat nat
  | Ticked
  | Exited

text \<open>\<open>stopOnce\<close>: not called, inside the function (the ticker is stopped), done.\<close>

datatype once_phase = NotCalled | Halting | Halted

record 'w task =
  tk_name :: string
  tk_interval :: duration
  tk_job :: "string \<Rightarrow> 'w \<Rightarrow> 'w"

record 'w task_state =
  tk_stop :: "nat option"
  tk_ticker :: "nat option"
  tk_once :: once_phase
  tk_closed :: "nat set"
  tk_running :: "nat set"
  tk_pending :: "nat set"
  tk_loops :: "nat \<Rightarrow> loop_phase option"
  tk_next :: nat
  tk_runs :: "string list"
  tk_world :: 'w
  tk_panic :: bool

definition new_task :: "string \<Rightarrow> duration \<Rightarrow> (string \<Rightarrow> 'w \<Rightarrow> 'w) \<Rightarrow> 'w task" where
  "new_task name interval job = \<lparr>tk_name = name, tk_interval = interval, tk_job = job\<rparr>"

definition task_init :: "'w \<Rightarrow> 'w task_state" where
  "task_init w =
     \<lparr>tk_stop = None, tk_ticker = None, tk_once = NotCalled, tk_closed = {}, tk_running = {}, tk_pending = {},
      tk_loops = Map.empty, tk_next = 0, tk_runs = [], tk_world = w, tk_panic = False\<rparr>"

section \<open>Steps\<close>

text \<open>\<open>Start\<close>: \<open>time.NewTicker\<close> panics on an interval that is not positive.\<close>

definition start_task :: "'w task \<Rightarrow> 'w task_state \<Rightarrow> 'w task_state" where
  "start_task T s =
     (let n = tk_next s; s1 = s\<lparr>tk_stop := Some n, tk_next := Suc n\<rparr>
      in if tk_interval T \<le> 0 then s1\<lparr>tk_panic := True\<rparr>
         else s1\<lparr>tk_ticker := Some n, tk_running := insert n (tk_running s1),
                 tk_loops := (tk_loops s1)(n \<mapsto> Spawned)\<rparr>)"

text \<open>The two statements of \<open>Stop\<close>; closing a nil or a closed channel panics.\<close>

definition stop_ticker :: "'w task_state \<Rightarrow> 'w task_state" where
  "stop_ticker s =
     (case tk_ticker s of
        None \<Rightarrow> s\<lparr>tk_once := Halting\<rparr>
      | Some k \<Rightarrow> s\<lparr>tk_once := Halting, tk_running := tk_running s - {k}, tk_pending := tk_pending s - {k}\<rparr>)"

definition close_stop :: "'w task_state \<Rightarrow> 'w task_state" where
  "close_stop s =
     (case tk_stop s of
        None \<Rightarrow> s\<lparr>tk_once := Halted, tk_panic := True\<rparr>
      | Some d \<Rightarrow>
          if d \<in> tk_closed s then s\<lparr>tk_once := Halted, tk_panic := True\<rparr>
          else s\<lparr>tk_once := Halted, tk_closed := insert d (tk_closed s)\<rparr>)"

definition set_loop :: "nat \<Rightarrow> loop_phase \<Rightarrow> 'w task_state \<Rightarrow> 'w task_state" where
  "set_loop c p s = s\<lparr>tk_loops := (tk_loops s)(c \<mapsto> p)\<rparr>"

inductive task_step :: "'w task \<Rightarrow> 'w task_state \<Rightarrow> 'w task_state \<Rightarrow> bool" for T where
  start: "\<not> tk_panic s \<Longrightarrow> task_step T s (start_task T s)"
| halt: "\<not> tk_panic s \<Longrightarrow> tk_once s = NotCalled \<Longrightarrow> task_step T s (stop_ticker s)"
| close: "\<not> tk_panic s \<Longrightarrow> tk_once s = Halting \<Longrightarrow> task_step T s (close_stop s)"
| tick: "\<not> tk_panic s \<Longrightarrow> k \<in> tk_running s \<Longrightarrow> task_step T s (s\<lparr>tk_pending := insert k (tk_pending s)\<rparr>)"
| run_once: "\<not> tk_panic s \<Longrightarrow> tk_loops s c \<in> {Some Spawned, Some Ticked} \<Longrightarrow>
    task_step T s (set_loop c (InJob cid) (s\<lparr>tk_runs := tk_runs s @ [cid]\<rparr>))"
| job_done: "\<not> tk_panic s \<Longrightarrow> tk_loops s c = Some (InJob cid) \<Longrightarrow>
    task_step T s (set_loop c Selecting (s\<lparr>tk_world := tk_job T cid (tk_world s)\<rparr>))"
| select: "\<not> tk_panic s \<Longrightarrow> tk_loops s c = Some Selecting \<Longrightarrow> tk_stop s = Some d \<Longrightarrow> tk_ticker s = Some k \<Longrightarrow>
    task_step T s (set_loop c (Blocked d k) s)"
| stopped: "\<not> tk_panic s \<Longrightarrow> tk_loops s c = Some (Blocked d k) \<Longrightarrow> d \<in> tk_closed s \<Longrightarrow>
    task_step T s (set_loop c Exited s)"
| ticked: "\<not> tk_panic s \<Longrightarrow> tk_loops s c = Some (Blocked d k) \<Longrightarrow> k \<in> tk_pending s \<Longrightarrow>
    task_step T s (set_loop c Ticked (s\<lparr>tk_pending := tk_pending s - {k}\<rparr>))"

text \<open>\<open>stopOnce\<close> only moves on, in this order.\<close>

instantiation once_phase :: linorder
begin

fun once_rank :: "once_phase \<Rightarrow> nat" where
  "once_rank NotCalled = 0"
| "once_rank Halting = 1"
| "once_rank Halted = 2"

definition less_eq_once_phase :: "once_phase \<Rightarrow> once_phase \<Rightarrow> bool" where
  "p \<le> q \<longleftrightarrow> once_rank p \<le> once_rank q"

definition less_once_phase :: "once_phase \<Rightarrow> once_phase \<Rightarrow> bool" where
  "p < q \<longleftrightarrow> once_rank p < once_rank q"

instance
proof
  fix p q :: once_phase
  assume "p \<le> q" "q \<le> p"
  then show "p = q" by (cases p; cases q) (simp_all add: less_eq_once_phase_def)
qed (auto simp: less_eq_once_phase_def less_once_phase_def)

end

lemma once_phase_least [simp]: "NotCalled \<le> p" "p \<le> Halted"
  by (cases p; simp add: less_eq_once_phase_def)+

lemmas step_defs = start_task_def stop_ticker_def close_stop_def set_loop_def Let_def

section \<open>Invariants\<close>

lemma next_start [simp]: "tk_next (start_task T s) = Suc (tk_next s)"
  by (simp add: start_task_def Let_def)

lemma step_next_mono: "task_step T s s' \<Longrightarrow> tk_next s \<le> tk_next s'"
  by (induction rule: task_step.induct) (auto simp: step_defs split: option.splits)

lemma step_once_mono: "task_step T s s' \<Longrightarrow> tk_once s \<le> tk_once s'"
  by (induction rule: task_step.induct) (auto simp: step_defs less_eq_once_phase_def split: option.splits)

lemma halted_stays: "task_step T s s' \<Longrightarrow> tk_once s = Halted \<Longrightarrow> tk_once s' = Halted"
  using step_once_mono [of T s s'] by (simp add: antisym)

text \<open>No panic but the one of \<open>Stop\<close> before \<open>Start\<close>.\<close>

definition stop_inv :: "'w task_state \<Rightarrow> bool" where
  "stop_inv s \<longleftrightarrow>
     (tk_stop s = None \<longleftrightarrow> tk_next s = 0) \<and> (tk_closed s \<noteq> {} \<longrightarrow> tk_once s = Halted) \<and>
     (tk_panic s \<longrightarrow> tk_next s = 0 \<and> tk_once s = Halted)"

lemma stop_inv_step: "task_step T s s' \<Longrightarrow> 0 < tk_interval T \<Longrightarrow> stop_inv s \<Longrightarrow> stop_inv s'"
  by (induction rule: task_step.induct) (auto simp: stop_inv_def step_defs split: option.splits)

lemma stop_inv_reach:
  assumes "(task_step T)\<^sup>*\<^sup>* (task_init w) s" "0 < tk_interval T" shows "stop_inv s"
  using assms(1)
proof (induction rule: rtranclp_induct)
  case base
  show ?case by (simp add: stop_inv_def task_init_def)
next
  case (step s s')
  then show ?case using assms(2) stop_inv_step by blast
qed

text \<open>One \<open>Start\<close>: what the one goroutine can be doing, the cycles it has begun, and what the job has
  done to the world.\<close>

fun phase_ok :: "'w task \<Rightarrow> 'w \<Rightarrow> loop_phase \<Rightarrow> string list \<Rightarrow> 'w \<Rightarrow> bool" where
  "phase_ok T w Spawned runs v \<longleftrightarrow> runs = [] \<and> v = w"
| "phase_ok T w (InJob cid) runs v \<longleftrightarrow> (\<exists>rs. runs = rs @ [cid] \<and> v = fold (tk_job T) rs w)"
| "phase_ok T w (Blocked d k) runs v \<longleftrightarrow> d = 0 \<and> k = 0 \<and> runs \<noteq> [] \<and> v = fold (tk_job T) runs w"
| "phase_ok T w p runs v \<longleftrightarrow> runs \<noteq> [] \<and> v = fold (tk_job T) runs w"

definition single_inv :: "'w task \<Rightarrow> 'w \<Rightarrow> 'w task_state \<Rightarrow> bool" where
  "single_inv T w s \<longleftrightarrow>
     (if tk_next s = 0
      then tk_loops s = Map.empty \<and> tk_running s = {} \<and> tk_pending s = {} \<and> tk_runs s = [] \<and> tk_world s = w \<and>
        tk_stop s = None \<and> tk_ticker s = None
      else tk_next s = 1 \<and> tk_stop s = Some 0 \<and> tk_ticker s = Some 0 \<and> tk_running s \<subseteq> {0} \<and> tk_pending s \<subseteq> tk_running s \<and>
        (\<exists>p. tk_loops s = [0 \<mapsto> p] \<and> phase_ok T w p (tk_runs s) (tk_world s)))"

lemma single_inv_init: "single_inv T w (task_init w)"
  by (simp add: single_inv_def task_init_def)

lemma single_loop:
  assumes "single_inv T w s" "tk_loops s c = Some p"
  shows "c = 0 \<and> tk_next s = 1 \<and> tk_loops s = [0 \<mapsto> p] \<and> phase_ok T w p (tk_runs s) (tk_world s)"
  using assms by (auto simp: single_inv_def split: if_splits)

text \<open>A step of the goroutine.\<close>

lemma single_inv_loop:
  assumes "single_inv T w s" "tk_loops s c = Some p"
    and "tk_next s' = tk_next s" "tk_stop s' = tk_stop s" "tk_ticker s' = tk_ticker s"
    and "tk_running s' = tk_running s" "tk_pending s' \<subseteq> tk_pending s" "tk_loops s' = (tk_loops s)(c \<mapsto> q)"
    and "phase_ok T w p (tk_runs s) (tk_world s) \<Longrightarrow> phase_ok T w q (tk_runs s') (tk_world s')"
  shows "single_inv T w s'"
  using single_loop [OF assms(1,2)] assms by (auto simp: single_inv_def)

lemma single_inv_step:
  assumes "task_step T s s'" "0 < tk_interval T" "single_inv T w s" "tk_next s' \<le> 1"
  shows "single_inv T w s'"
  using assms
proof (induction rule: task_step.induct)
  case (start s)
  then show ?case by (auto simp: single_inv_def step_defs)
next
  case (halt s)
  then show ?case by (cases "tk_next s = 0") (auto simp: single_inv_def stop_ticker_def split: option.splits)
next
  case (close s)
  then show ?case by (cases "tk_next s = 0") (auto simp: single_inv_def close_stop_def split: option.splits)
next
  case (tick s k)
  then show ?case by (cases "tk_next s = 0") (auto simp: single_inv_def)
next
  case (run_once s c cid)
  then obtain p where p: "tk_loops s c = Some p" "p = Spawned \<or> p = Ticked" by auto
  show ?case by (rule single_inv_loop [OF run_once(4) p(1)]) (use p(2) in \<open>auto simp: set_loop_def\<close>)
next
  case (job_done s c cid)
  show ?case by (rule single_inv_loop [OF job_done(4,2)]) (auto simp: set_loop_def)
next
  case (select s c d k)
  then have "d = 0" "k = 0" using single_loop [OF select(6,2)] by (auto simp: single_inv_def)
  then show ?case by (intro single_inv_loop [OF select(6,2)]) (auto simp: set_loop_def)
next
  case (stopped s c d k)
  show ?case by (rule single_inv_loop [OF stopped(5,2)]) (auto simp: set_loop_def)
next
  case (ticked s c d k)
  show ?case by (rule single_inv_loop [OF ticked(5,2)]) (auto simp: set_loop_def)
qed

lemma single_inv_reach:
  assumes "(task_step T)\<^sup>*\<^sup>* (task_init w) s" "0 < tk_interval T" "tk_next s \<le> 1"
  shows "single_inv T w s"
  using assms(1,3)
proof (induction rule: rtranclp_induct)
  case base
  show ?case by (rule single_inv_init)
next
  case (step s s')
  from step_next_mono [OF step(2)] step.prems have "tk_next s \<le> 1" by simp
  with step.IH single_inv_step [OF step(2) assms(2)] step.prems show ?case by blast
qed

section \<open>After Stop\<close>

text \<open>\<open>Stop\<close> called after \<open>Start\<close>: the ticker of the one goroutine is stopped first, then its channel is
  closed.\<close>

definition stop_order :: "'w task_state \<Rightarrow> bool" where
  "stop_order s \<longleftrightarrow> tk_next s = 1 \<and> (tk_once s \<noteq> NotCalled \<longrightarrow> tk_running s = {}) \<and>
     (tk_once s = Halted \<longrightarrow> 0 \<in> tk_closed s)"

lemma stop_order_step:
  assumes "task_step T s s'" "single_inv T w s" "stop_order s" "tk_next s' \<le> 1"
  shows "stop_order s'"
  using assms
proof (induction rule: task_step.induct)
  case (start s)
  then show ?case by (simp add: stop_order_def)
qed (auto simp: stop_order_def single_inv_def stop_ticker_def close_stop_def set_loop_def split: option.splits)

text \<open>How many steps a goroutine has left once its channel is closed, and whether it has claimed a
  cycle it has not begun.\<close>

fun rank :: "loop_phase option \<Rightarrow> nat" where
  "rank (Some Spawned) = 4"
| "rank (Some Ticked) = 4"
| "rank (Some (InJob cid)) = 3"
| "rank (Some Selecting) = 2"
| "rank (Some (Blocked d k)) = 1"
| "rank _ = 0"

fun claimed :: "loop_phase option \<Rightarrow> nat" where
  "claimed (Some Spawned) = 1"
| "claimed (Some Ticked) = 1"
| "claimed _ = 0"

lemma rank_le: "rank p \<le> 4"
  by (cases p rule: rank.cases) auto

lemma halted_step:
  assumes "task_step T s s'" "single_inv T w s" "stop_order s" "tk_once s = Halted" "tk_next s' \<le> 1"
  shows "rank (tk_loops s' 0) < rank (tk_loops s 0) \<and>
    length (tk_runs s') + claimed (tk_loops s' 0) \<le> length (tk_runs s) + claimed (tk_loops s 0)"
  using assms
proof (induction rule: task_step.induct)
  case (start s)
  then show ?case by (auto simp: stop_order_def step_defs split: if_splits)
next
  case (tick s k)
  then show ?case by (auto simp: stop_order_def)
next
  case (run_once s c cid)
  then have "c = 0" using single_loop by fastforce
  with run_once show ?case by (auto simp: set_loop_def)
next
  case (job_done s c cid)
  then have "c = 0" using single_loop by fastforce
  with job_done show ?case by (auto simp: set_loop_def)
next
  case (select s c d k)
  then have "c = 0" using single_loop by fastforce
  with select show ?case by (auto simp: set_loop_def)
next
  case (stopped s c d k)
  then have "c = 0" using single_loop by fastforce
  with stopped show ?case by (auto simp: set_loop_def)
next
  case (ticked s c d k)
  then show ?case by (auto simp: stop_order_def single_inv_def)
qed simp_all

lemma halted_steps:
  assumes "(task_step T ^^ n) s s'" "0 < tk_interval T" "single_inv T w s" "stop_order s" "tk_once s = Halted"
    and "tk_next s' \<le> 1"
  shows "single_inv T w s' \<and> stop_order s' \<and> tk_once s' = Halted \<and> n + rank (tk_loops s' 0) \<le> rank (tk_loops s 0) \<and>
    length (tk_runs s') + claimed (tk_loops s' 0) \<le> length (tk_runs s) + claimed (tk_loops s 0)"
  using assms(1,6)
proof (induction n arbitrary: s')
  case 0
  then show ?case using assms by simp
next
  case (Suc n)
  then obtain q where q: "(task_step T ^^ n) s q" "task_step T q s'" by auto
  have "tk_next q \<le> 1" using step_next_mono [OF q(2)] Suc.prems by simp
  from Suc.IH [OF q(1) this] have i: "single_inv T w q" "stop_order q" "tk_once q = Halted"
    "n + rank (tk_loops q 0) \<le> rank (tk_loops s 0)"
    "length (tk_runs q) + claimed (tk_loops q 0) \<le> length (tk_runs s) + claimed (tk_loops s 0)" by auto
  with halted_step [OF q(2) i(1-3)] halted_stays [OF q(2) i(3)] single_inv_step [OF q(2) assms(2) i(1)] stop_order_step [OF q(2) i(1,2)] Suc.prems
  show ?case by auto
qed

lemma loop_progress:
  assumes "single_inv T w s" "stop_order s" "tk_once s = Halted" "stop_inv s"
  shows "tk_loops s 0 = Some Exited \<or> (\<exists>s'. task_step T s s' \<and> tk_next s' \<le> 1)"
proof -
  have n: "tk_next s = 1" "0 \<in> tk_closed s" using assms(2,3) by (simp_all add: stop_order_def)
  with assms(1,4) obtain p where p: "tk_loops s 0 = Some p" "\<not> tk_panic s" "tk_stop s = Some 0" "tk_ticker s = Some 0"
    "phase_ok T w p (tk_runs s) (tk_world s)"
    by (auto simp: single_inv_def stop_inv_def)
  show ?thesis
  proof (cases p)
    case Spawned
    with p n run_once [of s 0 T "[]"] show ?thesis by (auto simp: set_loop_def)
  next
    case (InJob cid)
    with p n job_done [of s 0 cid T] show ?thesis by (auto simp: set_loop_def)
  next
    case Selecting
    with p n select [of s 0 0 0 T] show ?thesis by (auto simp: set_loop_def)
  next
    case (Blocked d k)
    with p n stopped [of s 0 0 0 T] show ?thesis by (auto simp: set_loop_def)
  next
    case Ticked
    with p n run_once [of s 0 T "[]"] show ?thesis by (auto simp: set_loop_def)
  next
    case Exited
    with p show ?thesis by simp
  qed
qed

text \<open>A \<open>Start\<close> that came before \<open>Stop\<close> keeps to that order.\<close>

lemma task_steps_next: "(task_step T)\<^sup>*\<^sup>* s s' \<Longrightarrow> tk_next s \<le> tk_next s'"
  by (induction rule: rtranclp_induct) (auto dest: step_next_mono)

lemma stopped_order:
  assumes "(task_step T)\<^sup>*\<^sup>* (task_init w) s0" "0 < tk_interval T" "tk_next s0 = 1" "tk_once s0 = NotCalled"
    and "(task_step T)\<^sup>*\<^sup>* s0 s" "tk_next s \<le> 1"
  shows "single_inv T w s \<and> stop_order s"
  using assms(5,6)
proof (induction rule: rtranclp_induct)
  case base
  then show ?case using single_inv_reach [OF assms(1,2)] assms(3,4) by (simp add: stop_order_def)
next
  case (step a b)
  from step_next_mono [OF step(2)] step.prems have "tk_next a \<le> 1" by simp
  with step.IH single_inv_step [OF step(2) assms(2)] stop_order_step [OF step(2)] step.prems show ?case by blast
qed

text \<open>A task that was never started, or was started once and then stopped.\<close>

definition wound_down :: "'w task \<Rightarrow> 'w \<Rightarrow> 'w task_state \<Rightarrow> bool" where
  "wound_down T w t \<longleftrightarrow> single_inv T w t \<and> stop_inv t \<and> (tk_next t = 0 \<or> stop_order t \<and> tk_once t = Halted)"

lemma wound_down_step:
  assumes "task_step T t t'" "0 < tk_interval T" "wound_down T w t" "tk_next t' = tk_next t"
  shows "wound_down T w t' \<and> rank (tk_loops t' c) \<le> rank (tk_loops t c) \<and>
    length (tk_runs t') + claimed (tk_loops t' 0) \<le> length (tk_runs t) + claimed (tk_loops t 0) \<and>
    (tk_next t = 1 \<longrightarrow> rank (tk_loops t' 0) < rank (tk_loops t 0))"
proof -
  have s: "single_inv T w t" "stop_inv t" using assms(3) by (simp_all add: wound_down_def)
  then have n: "tk_next t \<le> 1" by (auto simp: single_inv_def split: if_splits)
  have s': "single_inv T w t'" "stop_inv t'"
    using single_inv_step [OF assms(1,2) s(1)] stop_inv_step [OF assms(1,2) s(2)] n assms(4) by simp_all
  show ?thesis
  proof (cases "tk_next t = 0")
    case True
    with s s' assms(4) show ?thesis by (simp add: wound_down_def single_inv_def)
  next
    case False
    with assms(3) n have o: "stop_order t" "tk_once t = Halted" "tk_next t = 1" by (auto simp: wound_down_def)
    have none: "tk_loops u c = None" if "single_inv T w u" "c \<noteq> 0" for u
      using single_loop [OF that(1), of c] that(2) by (cases "tk_loops u c") auto
    from none [OF s(1)] none [OF s'(1)]
      halted_step [OF assms(1) s(1) o(1,2)] stop_order_step [OF assms(1) s(1) o(1)] halted_stays [OF assms(1) o(2)]
      s' o(3) assms(4)
    show ?thesis by (cases "c = 0") (auto simp: wound_down_def)
  qed
qed

text \<open>Once its last cycle is over, the goroutine can take the way out.\<close>

definition resting :: "'w task_state \<Rightarrow> bool" where
  "resting t \<longleftrightarrow> (\<forall>c. rank (tk_loops t c) \<le> 2)"

lemma wound_down_exits:
  assumes "wound_down T w t" "resting t" "0 < tk_interval T"
  shows "\<exists>t'. (\<lambda>u v. task_step T u v \<and> resting u \<and> resting v)\<^sup>*\<^sup>* t t' \<and> tk_next t' = tk_next t \<and>
    (\<forall>c p. tk_loops t' c = Some p \<longrightarrow> p = Exited)"
  using assms(1,2)
proof (induction "rank (tk_loops t 0)" arbitrary: t rule: less_induct)
  case less
  have s: "single_inv T w t" "stop_inv t" using less.prems(1) by (simp_all add: wound_down_def)
  then have n: "tk_next t \<le> 1" by (auto simp: single_inv_def split: if_splits)
  show ?case
  proof (cases "tk_next t = 0 \<or> tk_loops t 0 = Some Exited")
    case True
    have "p = Exited" if p: "tk_loops t c = Some p" for c p
      using single_loop [OF s(1) p] True by auto
    then show ?thesis by blast
  next
    case False
    then have o: "stop_order t" "tk_once t = Halted" "tk_next t = 1"
      using less.prems(1) n by (auto simp: wound_down_def)
    with loop_progress [OF s(1) o(1,2) s(2)] False obtain u where u: "task_step T t u" "tk_next u \<le> 1" by blast
    then have nx: "tk_next u = tk_next t" using step_next_mono [OF u(1)] o(3) by simp
    note q = wound_down_step [OF u(1) assms(3) less.prems(1) nx]
    have r: "resting u" unfolding resting_def
    proof
      fix c
      have "rank (tk_loops u c) \<le> rank (tk_loops t c)" using q by blast
      then show "rank (tk_loops u c) \<le> 2" using less.prems(2) order_trans unfolding resting_def by blast
    qed
    have "rank (tk_loops u 0) < rank (tk_loops t 0)" "wound_down T w u" using q o(3) by blast+
    from less.hyps [OF this r] obtain t' where
      "(\<lambda>u v. task_step T u v \<and> resting u \<and> resting v)\<^sup>*\<^sup>* u t'" "tk_next t' = tk_next u"
      "\<forall>c p. tk_loops t' c = Some p \<longrightarrow> p = Exited" by blast
    with u(1) r less.prems(2) nx show ?thesis
      by (metis (mono_tags, lifting) converse_rtranclp_into_rtranclp)
  qed
qed

section \<open>Properties\<close>

text \<open>
  C17. One task runs one cycle at a time: with one \<open>Start\<close>, whatever the timer and \<open>Stop\<close> do, there is at
  most one goroutine in the job, and what the cycles did to the world is what the job does run once per
  correlation id, one after another, in the order they were begun.
\<close>

theorem task_runs_one_cycle_at_a_time:
  assumes "(task_step T)\<^sup>*\<^sup>* (task_init w) s" "0 < tk_interval T" "tk_next s \<le> 1"
  shows "(\<forall>c a d b. tk_loops s c = Some (InJob a) \<longrightarrow> tk_loops s d = Some (InJob b) \<longrightarrow> c = d) \<and>
    (\<exists>begun. begun = (if \<exists>c a. tk_loops s c = Some (InJob a) then butlast (tk_runs s) else tk_runs s) \<and>
       tk_world s = fold (tk_job T) begun w)"
proof -
  from single_inv_reach [OF assms] have i: "single_inv T w s" .
  show ?thesis
  proof (cases "tk_next s = 0")
    case True
    with i show ?thesis by (simp add: single_inv_def)
  next
    case False
    with i obtain p where "tk_loops s = [0 \<mapsto> p]" "phase_ok T w p (tk_runs s) (tk_world s)"
      by (auto simp: single_inv_def)
    then show ?thesis by (cases p) auto
  qed
qed

text \<open>
  C16. \<open>Stop\<close> ends the loop: once \<open>Stop\<close>, called after the one \<open>Start\<close>, has returned, at most four more
  steps happen (none of them a tick), the goroutine can always take the next one until it has exited,
  and at most one more cycle begins, and that only if the goroutine had claimed it before (it was
  just spawned, or had received a tick).
\<close>

theorem stop_ends_loop:
  assumes "(task_step T)\<^sup>*\<^sup>* (task_init w) s0" "0 < tk_interval T" "tk_next s0 = 1" "tk_once s0 = NotCalled"
    and "(task_step T)\<^sup>*\<^sup>* s0 s" "tk_once s = Halted" "(task_step T ^^ n) s s'" "tk_next s' \<le> 1"
  shows "n \<le> 4 \<and> length (tk_runs s') \<le> length (tk_runs s) + claimed (tk_loops s 0) \<and>
    (tk_loops s' 0 = Some Exited \<or> (\<exists>q. task_step T s' q \<and> tk_next q \<le> 1))"
proof -
  have rs: "(task_step T)\<^sup>*\<^sup>* s s'" using assms(7) by (rule relpowp_imp_rtranclp)
  have "tk_next s \<le> 1" using task_steps_next [OF rs] assms(8) by simp
  from stopped_order [OF assms(1-5) this] halted_steps [OF assms(7,2) _ _ assms(6,8)] have h: "single_inv T w s'" "stop_order s'" "tk_once s' = Halted"
    "n + rank (tk_loops s' 0) \<le> rank (tk_loops s 0)"
    "length (tk_runs s') + claimed (tk_loops s' 0) \<le> length (tk_runs s) + claimed (tk_loops s 0)" by auto
  have "stop_inv s'" using stop_inv_reach [OF _ assms(2), of w s'] assms(1,5) rs by (meson rtranclp_trans)
  with loop_progress [OF h(1-3)] h(4,5) rank_le [of "tk_loops s 0"] show ?thesis by auto
qed

text \<open>
  C40. The only panic is \<open>Stop\<close> before \<open>Start\<close> (it closes a nil channel): with a positive interval no other
  sequence of calls and ticks reaches one, however often \<open>Stop\<close> and \<open>Start\<close> are called; and that one
  is reachable.
\<close>

theorem only_early_stop_panics:
  assumes "0 < tk_interval T"
  shows "(\<forall>s. (task_step T)\<^sup>*\<^sup>* (task_init w) s \<longrightarrow> tk_panic s \<longrightarrow> tk_next s = 0 \<and> tk_once s \<noteq> NotCalled) \<and>
    (\<exists>s. (task_step T)\<^sup>*\<^sup>* (task_init w) s \<and> tk_panic s)"
proof -
  let ?s = "close_stop (stop_ticker (task_init w))"
  have "task_step T (task_init w) (stop_ticker (task_init w))" by (rule halt) (simp_all add: task_init_def)
  moreover have "task_step T (stop_ticker (task_init w)) ?s"
    by (rule close) (simp_all add: task_init_def stop_ticker_def)
  ultimately have "(task_step T)\<^sup>*\<^sup>* (task_init w) ?s" by (rule converse_rtranclp_into_rtranclp [OF _ r_into_rtranclp])
  moreover have "tk_panic ?s" by (simp add: task_init_def stop_ticker_def close_stop_def)
  ultimately show ?thesis using stop_inv_reach [OF _ assms] by (auto simp: stop_inv_def)
qed

text \<open>A task whose job records its correlation id.\<close>

definition ref_task :: "string list task" where
  "ref_task = new_task ''trust-sync'' (5 * minute) (\<lambda>cid ids. ids @ [cid])"

definition ref_started :: "string list task_state" where
  "ref_started = start_task ref_task (task_init [])"

lemma ref_interval: "0 < tk_interval ref_task" "\<not> tk_interval ref_task \<le> 0"
  by (simp_all add: ref_task_def new_task_def minute_def second_def)

lemma ref_started_state:
  "ref_started = (task_init [])\<lparr>tk_stop := Some 0, tk_next := 1, tk_ticker := Some 0, tk_running := {0},
     tk_loops := [0 \<mapsto> Spawned]\<rparr>"
  using ref_interval by (simp add: ref_started_def start_task_def task_init_def)

lemma ref_started_reach: "(task_step ref_task)\<^sup>*\<^sup>* (task_init []) ref_started"
  unfolding ref_started_def by (rule r_into_rtranclp, rule start) (simp add: task_init_def)

theorem task_runs_one_cycle_at_a_time_witness:
  "\<exists>s. (task_step ref_task)\<^sup>*\<^sup>* (task_init []) s \<and> tk_runs s = [''01CYCLE''] \<and> tk_world s = []"
proof -
  let ?s = "set_loop 0 (InJob ''01CYCLE'') (ref_started\<lparr>tk_runs := tk_runs ref_started @ [''01CYCLE'']\<rparr>)"
  have "task_step ref_task ref_started ?s"
    by (rule run_once) (simp_all add: ref_started_state task_init_def)
  with ref_started_reach have r: "(task_step ref_task)\<^sup>*\<^sup>* (task_init []) ?s" by (rule rtranclp.rtrancl_into_rtrancl)
  have s: "tk_next ?s \<le> 1" "tk_loops ?s 0 = Some (InJob ''01CYCLE'')" "tk_runs ?s = [''01CYCLE'']"
    by (simp_all add: set_loop_def ref_started_state task_init_def)
  from task_runs_one_cycle_at_a_time [OF r ref_interval(1) s(1)] s(2,3) have "tk_world ?s = []"
    by (auto split: if_splits)
  with r s(3) show ?thesis by blast
qed

theorem stop_ends_loop_witness:
  "\<exists>s s'. (task_step ref_task)\<^sup>*\<^sup>* ref_started s \<and> tk_once s = Halted \<and> task_step ref_task s s' \<and>
     length (tk_runs s') \<le> 1"
proof -
  let ?h = "stop_ticker ref_started" and ?s = "close_stop (stop_ticker ref_started)"
  let ?q = "set_loop 0 (InJob ''01CYCLE'') (?s\<lparr>tk_runs := tk_runs ?s @ [''01CYCLE'']\<rparr>)"
  have s0: "tk_next ref_started = 1" "tk_once ref_started = NotCalled" "\<not> tk_panic ref_started"
    by (simp_all add: ref_started_state task_init_def)
  have 1: "task_step ref_task ref_started ?h" by (rule halt [OF s0(3,2)])
  have 2: "task_step ref_task ?h ?s"
    by (rule close) (simp_all add: stop_ticker_def ref_started_state task_init_def)
  from 1 2 have r: "(task_step ref_task)\<^sup>*\<^sup>* ref_started ?s"
    by (rule converse_rtranclp_into_rtranclp [OF _ r_into_rtranclp])
  have h: "tk_once ?s = Halted" "tk_loops ?s = [0 \<mapsto> Spawned]" "tk_runs ?s = []" "\<not> tk_panic ?s" "tk_next ?q \<le> 1"
    by (simp_all add: close_stop_def stop_ticker_def set_loop_def ref_started_state task_init_def)
  have 3: "task_step ref_task ?s ?q" by (rule run_once) (simp_all add: h)
  then have n: "(task_step ref_task ^^ 1) ?s ?q" by (simp only: relpowp_1)
  from stop_ends_loop [OF ref_started_reach ref_interval(1) s0(1,2) r h(1) n h(5)] h r 3 show ?thesis by auto
qed

theorem only_early_stop_panics_witness:
  "\<exists>s. (task_step ref_task)\<^sup>*\<^sup>* (task_init []) s \<and> tk_panic s"
  using only_early_stop_panics [OF ref_interval(1)] by blast

end
