(* ===== verification/App.thy ===== *)
theory App
  imports Worker_Loops Config Routes Schedule
begin

text \<open>
  \<open>app.go\<close>: the one object that wires the worker (\<open>App.New\<close>, \<open>App.init\<close>), and the startup contract
  (\<open>App.Start\<close>, \<open>startupCheck\<close>). What the third-party packages construct are the fields of
  \<open>platform\<close>; every constructor of the repository is the one of its component's theory.
\<close>

section \<open>The application\<close>

text \<open>\<open>lb_server\<close> is the error of \<open>server.New\<close>, \<open>lb_start\<close> that of Azugo's \<open>Start\<close>; \<open>lb_add_task\<close> that of
  \<open>AddTask\<close>. \<open>lb_now\<close> is the wall clock (\<open>nil\<close> clocks are \<open>time.Now\<close>), \<open>lb_order\<close> map iteration.\<close>

record ('s, 'c, 'b) platform =
  lb_server :: "gerr option"
  lb_setup :: "'b \<Rightarrow> gerr option"
  lb_parse_url :: "string \<Rightarrow> client_opts result"
  lb_dial :: "client_opts \<Rightarrow> 's driver result"
  lb_kit :: "'c kit"
  lb_trust_client :: "string \<Rightarrow> 'c doer \<Rightarrow> 'c trust_client result"
  lb_http :: "duration \<Rightarrow> 'c http"
  lb_add_task :: "string \<Rightarrow> gerr option"
  lb_start :: "gerr option"
  lb_keys :: key_contract
  lb_codec :: codec
  lb_now :: "'c \<Rightarrow> gotime \<times> 'c"
  lb_order :: "'c \<Rightarrow> string list \<Rightarrow> string list"

record ('s, 'c, 'b) app =
  ap_config :: "'b app_config"
  ap_store :: "'s store"
  ap_client :: "'c trust_client"
  ap_worker :: "('s, 'c) worker"
  ap_tasks :: "(string \<times> duration) list"
  ap_reasons :: "(string \<times> int) list"
  ap_health :: health_state
  ap_reg :: registry
  ap_allow_cold_start :: bool

text \<open>Adding the tasks in order, until one is refused.\<close>

fun add_tasks :: "(string \<Rightarrow> gerr option) \<Rightarrow> (string \<times> duration) list \<Rightarrow> gerr option" where
  "add_tasks add [] = None"
| "add_tasks add ((n, iv) # ts) = (case add n of Some e \<Rightarrow> Some e | None \<Rightarrow> add_tasks add ts)"

definition new_syncer :: "('s, 'c, 'b) platform \<Rightarrow> 'c trust_client \<Rightarrow> 's store \<Rightarrow> sync_config \<Rightarrow> ('s, 'c) syncer" where
  "new_syncer L client st cfg =
     \<lparr>sy_client = client, sy_store = valkey_iface st (lb_keys L) (lb_codec L), sy_cfg = cfg, sy_now = lb_now L,
      sy_order = lb_order L, sy_normalize = normalize_territory (lb_keys L)\<rparr>"

definition new_poller :: "('s, 'c, 'b) platform \<Rightarrow> 'c trust_client \<Rightarrow> 's store \<Rightarrow> duration \<Rightarrow> ('s, 'c) poller" where
  "new_poller L client st fresh_for =
     \<lparr>po_client = client, po_store = valkey_snapshots st (lb_codec L), po_fresh_for = fresh_for, po_now = lb_now L,
      po_keys = lb_keys L, po_order = lb_order L\<rparr>"

definition new_prefetcher ::
  "('s, 'c, 'b) platform \<Rightarrow> 's store \<Rightarrow> 'c http_fetcher \<Rightarrow> prefetch_config \<Rightarrow> ('s, 'c) prefetcher" where
  "new_prefetcher L st f cfg =
     \<lparr>pf_refs = valkey_refs st (lb_keys L), pf_fetch = fetch_get f, pf_store = valkey_status st (lb_keys L), pf_cfg = cfg,
      pf_now = lb_now L, pf_list_key = status_list_key (lb_keys L)\<rparr>"

text \<open>The components over one store and one client, and the three tasks. The snapshot record may live
  three poll intervals.\<close>

definition wire_worker ::
  "('s, 'c, 'b) platform \<Rightarrow> 'b app_config \<Rightarrow> 's store \<Rightarrow> 'c trust_client \<Rightarrow> ('s, 'c) worker" where
  "wire_worker L cfg st client =
     \<lparr>wk_syncer = new_syncer L client st (cf_sync cfg),
      wk_poller = new_poller L client st (i64 (3 * sc_snapshot_poll_interval (cf_sync cfg))),
      wk_prefetcher = new_prefetcher L st
        (new_http_fetcher (lb_http L) (pc_max_bytes (cf_prefetch cfg)) (ac_timeout (cf_auth cfg))) (cf_prefetch cfg)\<rparr>"

definition app_tasks :: "'b app_config \<Rightarrow> (string \<times> duration) list" where
  "app_tasks cfg =
     [(''trust-sync'', sc_poll_interval (cf_sync cfg)),
      (''trust-snapshot'', sc_snapshot_poll_interval (cf_sync cfg)),
      (''status-prefetch'', pc_interval (cf_prefetch cfg))]"

definition store_options :: "'b app_config \<Rightarrow> options" where
  "store_options cfg =
     \<lparr>opt_url = cf_valkey_url cfg, opt_password = cf_valkey_password cfg, opt_key_prefix = cf_valkey_key_prefix cfg\<rparr>"

definition app_init ::
  "('s, 'c, 'b) platform \<Rightarrow> nat \<Rightarrow> 'b app_config \<Rightarrow> bool \<Rightarrow> registry \<Rightarrow> ('s, 'c, 'b) app result \<times> registry" where
  "app_init L ident cfg allow rg =
     (case lb_setup L (cf_base cfg) of
        Some e \<Rightarrow> (Inl e, rg)
      | None \<Rightarrow>
          (let rg1 = register_metrics ident rg
           in case new_store (lb_parse_url L) (lb_dial L) (store_options cfg) of
                Inl e \<Rightarrow> (Inl e, rg1)
              | Inr st \<Rightarrow>
                  (case select_doer (lb_kit L) (cf_auth cfg) of
                     Inl e \<Rightarrow> (Inl e, rg1)
                   | Inr doer \<Rightarrow>
                       (case lb_trust_client L (cf_trust_service_url cfg) doer of
                          Inl e \<Rightarrow> (Inl e, rg1)
                        | Inr client \<Rightarrow>
                            (case add_tasks (lb_add_task L) (app_tasks cfg) of
                               Some e \<Rightarrow> (Inl e, rg1)
                             | None \<Rightarrow>
                                 (Inr \<lparr>ap_config = cfg, ap_store = st, ap_client = client,
                                    ap_worker = wire_worker L cfg st client, ap_tasks = app_tasks cfg,
                                    ap_reasons = [(''anchorUnavailable'', 503)],
                                    ap_health = new_state (sc_types (cf_sync cfg)), ap_reg = rg1,
                                    ap_allow_cold_start = allow\<rparr>, rg1))))))"

text \<open>\<open>New\<close>: \<open>flag\<close> is the command's \<open>--allow-cold-start\<close>, absent without a command or when it
  cannot be read.\<close>

definition new_app ::
  "('s, 'c, 'b) platform \<Rightarrow> nat \<Rightarrow> 'b app_config \<Rightarrow> bool option \<Rightarrow> registry \<Rightarrow> ('s, 'c, 'b) app result \<times> registry" where
  "new_app L ident cfg flag rg =
     (case lb_server L of
        Some e \<Rightarrow> (Inl e, rg)
      | None \<Rightarrow> app_init L ident cfg (flag = Some True) rg)"

text \<open>\<open>Config\<close> panics before the configuration is loaded: \<open>None\<close>. \<open>loaded\<close> is the base configuration's
  \<open>Ready\<close>; \<open>New\<close> always sets the pointer.\<close>

definition app_config_of :: "('b \<Rightarrow> bool) \<Rightarrow> ('s, 'c, 'b) app \<Rightarrow> 'b app_config option" where
  "app_config_of loaded a = (if \<not> loaded (cf_base (ap_config a)) then None else Some (ap_config a))"

definition app_syncer :: "('s, 'c, 'b) app \<Rightarrow> ('s, 'c) syncer" where
  "app_syncer a = wk_syncer (ap_worker a)"

text \<open>The world the loops and the routes of a new application start in.\<close>

definition start_world :: "('s, 'c, 'b) app \<Rightarrow> 's \<Rightarrow> 'c \<Rightarrow> ('s, 'c) world" where
  "start_world a s c =
     \<lparr>wd_store = s, wd_env = c, wd_health = ap_health a, wd_reg = ap_reg a, wd_etags = Map.empty, wd_obs = no_obs\<rparr>"

section \<open>Startup\<close>

definition startup_check :: "('s, 'c, 'b) app \<Rightarrow> ('s, 'c) world \<Rightarrow> gerr option \<times> ('s, 'c) world" where
  "startup_check a w =
     (let (r, c) = tc_snapshot (ap_client a) (wd_env w); w1 = w\<lparr>wd_env := c\<rparr>
      in case r of
           Inr m \<Rightarrow> (None, w1)
         | Inl e \<Rightarrow>
             if \<not> ap_allow_cold_start a
             then (Some (ErrWrap ''trust-cache-worker: trust service unreachable at startup (restart with --allow-cold-start to boot degraded): '' e), w1)
             else (None, w_log LWarn (''trust service unreachable at startup '' @ em_dash @
                     '' cold start allowed; /readyz stays 503 until the first successful sync'') [(''error'', LvErr e)] w1))"

definition app_start :: "('s, 'c, 'b) platform \<Rightarrow> ('s, 'c, 'b) app \<Rightarrow> ('s, 'c) world \<Rightarrow> gerr option \<times> ('s, 'c) world" where
  "app_start L a w =
     (case startup_check a w of
        (Some e, w1) \<Rightarrow> (Some e, w1)
      | (None, w1) \<Rightarrow> (lb_start L, w1))"

text \<open>The three jobs as the tasks run them: \<open>Run\<close>'s error is dropped, the others' are logged.\<close>

definition sync_job :: "('s, 'c, 'b) app \<Rightarrow> ('s, 'c) world \<Rightarrow> ('s, 'c) world" where
  "sync_job a w = snd (run_alone (wk_syncer (ap_worker a)) w)"

definition snapshot_job :: "('s, 'c, 'b) app \<Rightarrow> ('s, 'c) world \<Rightarrow> ('s, 'c) world" where
  "snapshot_job a w =
     (case poll (wk_poller (ap_worker a)) w of
        (Inl e, w1) \<Rightarrow> w_log LError ''snapshot telemetry poll failed'' [(''error'', LvErr e)] w1
      | (Inr _, w1) \<Rightarrow> w1)"

definition prefetch_job :: "('s, 'c, 'b) app \<Rightarrow> ('s, 'c) world \<Rightarrow> ('s, 'c) world" where
  "prefetch_job a w =
     (case prefetch_run (wk_prefetcher (ap_worker a)) w of
        (Inl e, w1) \<Rightarrow> w_log LError ''status-list prefetch failed'' [(''error'', LvErr e)] w1
      | (Inr _, w1) \<Rightarrow> w1)"

section \<open>Lemmas\<close>

lemma app_init_ok:
  assumes "app_init L ident cfg allow rg = (Inr a, rg')"
  obtains st client doer where
    "new_store (lb_parse_url L) (lb_dial L) (store_options cfg) = Inr st"
    "select_doer (lb_kit L) (cf_auth cfg) = Inr doer" "lb_trust_client L (cf_trust_service_url cfg) doer = Inr client"
    "rg' = register_metrics ident rg"
    "a = \<lparr>ap_config = cfg, ap_store = st, ap_client = client, ap_worker = wire_worker L cfg st client,
       ap_tasks = app_tasks cfg, ap_reasons = [(''anchorUnavailable'', 503)],
       ap_health = new_state (sc_types (cf_sync cfg)), ap_reg = register_metrics ident rg, ap_allow_cold_start = allow\<rparr>"
proof -
  obtain st where st: "new_store (lb_parse_url L) (lb_dial L) (store_options cfg) = Inr st"
    using assms unfolding app_init_def Let_def by (cases "new_store (lb_parse_url L) (lb_dial L) (store_options cfg)") (auto split: option.splits)
  obtain doer where doer: "select_doer (lb_kit L) (cf_auth cfg) = Inr doer"
    using assms st unfolding app_init_def Let_def by (cases "select_doer (lb_kit L) (cf_auth cfg)") (auto split: option.splits)
  obtain client where client: "lb_trust_client L (cf_trust_service_url cfg) doer = Inr client"
    using assms st doer unfolding app_init_def Let_def
    by (cases "lb_trust_client L (cf_trust_service_url cfg) doer") (auto split: option.splits)
  from assms st doer client that [OF st doer client] show ?thesis
    unfolding app_init_def Let_def by (auto split: option.splits)
qed

lemma app_init_worker_on:
  assumes "app_init L ident cfg allow rg = (Inr a, rg')" "\<forall>c. iteration_order (lb_order L c)"
    and "second \<le> sc_cache_ttl (cf_sync cfg)" "pc_min_ttl (cf_prefetch cfg) \<le> pc_max_ttl (cf_prefetch cfg)"
  shows "worker_on (ap_store a) (lb_keys L) (lb_codec L) (ap_worker a)"
  by (rule app_init_ok [OF assms(1)])
    (use assms(2-4) in \<open>simp add: wire_worker_def worker_on_def syncer_on_def new_syncer_def new_poller_def new_prefetcher_def\<close>)

text \<open>A job is a sequence of steps of the whole worker, so what holds under every interleaving of
  steps holds however the tasks overlap.\<close>

lemma report_after:
  assumes "R\<^sup>*\<^sup>* w w1" "R w1 w2 \<or> w2 = w1"
  shows "R\<^sup>*\<^sup>* w w2"
  using assms by (auto intro: rtranclp.rtrancl_into_rtrancl)

lemma snapshot_job_steps: "(app_step we wi wfr (ap_worker a))\<^sup>*\<^sup>* w (snapshot_job a w)"
proof -
  obtain r w1 where p: "poll (wk_poller (ap_worker a)) w = (r, w1)" by force
  then have 1: "(app_step we wi wfr (ap_worker a))\<^sup>*\<^sup>* w w1" by (intro r_into_rtranclp app_step.snapshot)
  show ?thesis
    by (rule report_after [OF 1]) (use p in \<open>cases r; simp add: snapshot_job_def app_step.report\<close>)
qed

lemma prefetch_loop_steps: "(app_step we wi wfr W)\<^sup>*\<^sup>* w (prefetch_loop (wk_prefetcher W) us w)"
proof (induction us arbitrary: w)
  case Nil
  show ?case by simp
next
  case (Cons u us)
  show ?case
    using converse_rtranclp_into_rtranclp [where r = "app_step we wi wfr W", OF app_step.one_list Cons.IH] by simp
qed

lemma prefetch_job_steps: "(app_step we wi wfr (ap_worker a))\<^sup>*\<^sup>* w (prefetch_job a w)"
proof -
  let ?P = "wk_prefetcher (ap_worker a)" and ?R = "app_step we wi wfr (ap_worker a)"
  obtain q s where q: "rf_top (pf_refs ?P) (pc_top_n (pf_cfg ?P)) (wd_store w) = (q, s)" by force
  then have 1: "?R\<^sup>*\<^sup>* w (w\<lparr>wd_store := s\<rparr>)" by (intro r_into_rtranclp app_step.list_refs)
  have 2: "?R\<^sup>*\<^sup>* w (trim_refs ?P (prefetch_loop ?P us (w\<lparr>wd_store := s\<rparr>)))" for us
    by (rule rtranclp.rtrancl_into_rtrancl [OF rtranclp_trans [OF 1 prefetch_loop_steps] app_step.trim])
  show ?thesis
  proof (cases "pc_top_n (pf_cfg ?P) \<le> 0")
    case True
    then show ?thesis by (simp add: prefetch_job_def prefetch_run_def)
  next
    case some: False
    show ?thesis
    proof (cases q)
      case (Inl e)
      then show ?thesis
        by (intro report_after [OF 1]) (use q some in \<open>simp add: prefetch_job_def prefetch_run_def app_step.report\<close>)
    next
      case (Inr us)
      then show ?thesis using 2 [of us] q some by (simp add: prefetch_job_def prefetch_run_def)
    qed
  qed
qed

lemma sync_one_steps:
  assumes "poll_ok we wi wfr (wk_syncer W) t w"
  shows "(app_step we wi wfr W)\<^sup>*\<^sup>* w (sync_one (wk_syncer W) t w)"
proof -
  obtain r w1 where p: "sync_type (wk_syncer W) t w = (r, w1)" by force
  with assms have 1: "(app_step we wi wfr W)\<^sup>*\<^sup>* w w1" by (intro r_into_rtranclp app_step.sync) auto
  show ?thesis
    by (rule report_after [OF 1]) (use p in \<open>cases r; simp add: sync_one_def app_step.report\<close>)
qed

lemma sync_loop_steps:
  assumes "\<forall>t w. poll_ok we wi wfr (wk_syncer W) t w"
  shows "(app_step we wi wfr W)\<^sup>*\<^sup>* w (sync_loop (wk_syncer W) ts w)"
proof (induction ts arbitrary: w)
  case Nil
  show ?case by simp
next
  case (Cons t ts)
  have "(app_step we wi wfr W)\<^sup>*\<^sup>* w (sync_one (wk_syncer W) t w)" using assms by (intro sync_one_steps) simp
  from rtranclp_trans [OF this Cons.IH] show ?case by (simp del: sync_loop.simps)
qed

lemma sync_job_steps:
  assumes "\<forall>t w. poll_ok we wi wfr (wk_syncer (ap_worker a)) t w"
  shows "(app_step we wi wfr (ap_worker a))\<^sup>*\<^sup>* w (sync_job a w)"
  using sync_loop_steps [OF assms]
  by (auto simp: sync_job_def run_alone_def sync_all_def intro: app_step.report split: sum.splits)

section \<open>Properties\<close>

text \<open>
  The wiring meets every component's contract: when the configuration validates and \<open>init\<close> succeeds,
  the three loops share one store and one key contract as the composition needs, the three tasks
  have different names and positive intervals (so no ticker panics), every configured type name is
  known, the readiness state requires exactly the configured types, and it is not ready.
\<close>

lemma init_wires_the_worker:
  assumes "tag_validator vl url" "validate_config base vl cfg = None"
    and "app_init L ident cfg allow rg = (Inr a, rg')"
    and "\<forall>c. iteration_order (lb_order L c)" "second \<le> sc_cache_ttl (cf_sync cfg)"
  shows "worker_on (ap_store a) (lb_keys L) (lb_codec L) (ap_worker a) \<and>
    map fst (ap_tasks a) = [''trust-sync'', ''trust-snapshot'', ''status-prefetch''] \<and>
    list_all (\<lambda>t. 0 < snd t) (ap_tasks a) \<and>
    set (sc_types (cf_sync cfg)) \<subseteq> set wire_names \<and> hs_required (ap_health a) = sc_types (cf_sync cfg) \<and>
    \<not> fst (ready (ap_health a) now)"
proof -
  note v = tag_validator.validate_config_ok [OF assms(1), of base cfg] tag_validator.validate_sync_ok [OF assms(1)]
    tag_validator.validate_prefetch_ok [OF assms(1)]
  then obtain ts where ts: "parse_types (sc_types (cf_sync cfg)) = Inr ts" using assms(2) by (auto simp: is_ok_def)
  have "set (sc_types (cf_sync cfg)) \<subseteq> set wire_names" using parse_types_known [OF ts] .
  moreover have "worker_on (ap_store a) (lb_keys L) (lb_codec L) (ap_worker a)"
    using app_init_worker_on [OF assms(3-5)] v assms(2) by simp
  moreover have "\<not> fst (ready (new_state tys) now)" for tys
    by (cases tys) (simp_all add: fst_ready new_state_def live_def)
  ultimately show ?thesis
    by (rule_tac app_init_ok [OF assms(3)]) (use v assms(2) in \<open>simp add: app_tasks_def new_state_def\<close>)
qed

text \<open>
  C14. Startup fails closed: \<open>Start\<close> stops with an error exactly when the trust service cannot be reached and
  \<open>--allow-cold-start\<close> was not given (or the server itself cannot start); the probe writes nothing,
  and a worker that boots degraded says so once and is not ready at any time.
\<close>

theorem startup_fails_closed:
  assumes "new_app L ident cfg flag rg = (Inr a, rg')" "app_start L a (start_world a s c) = (e, w')"
  shows "(e \<noteq> None \<longleftrightarrow> (\<not> is_ok (fst (tc_snapshot (ap_client a) c)) \<and> flag \<noteq> Some True) \<or>
      (lb_start L \<noteq> None \<and> (is_ok (fst (tc_snapshot (ap_client a) c)) \<or> flag = Some True))) \<and>
    wd_store w' = s \<and> wd_health w' = ap_health a \<and> \<not> fst (ready (wd_health w') now) \<and>
    length (ob_log (wd_obs w')) = (if is_ok (fst (tc_snapshot (ap_client a) c)) \<or> flag \<noteq> Some True then 0 else 1)"
proof -
  have init: "app_init L ident cfg (flag = Some True) rg = (Inr a, rg')"
    using assms(1) by (auto simp: new_app_def split: option.splits)
  have a: "ap_allow_cold_start a = (flag = Some True)" "ap_health a = new_state (sc_types (cf_sync cfg))"
    by (rule app_init_ok [OF init], simp)+
  have nr: "\<not> fst (ready (new_state tys) now)" for tys
    by (cases tys) (simp_all add: fst_ready new_state_def live_def)
  obtain r c1 where q: "tc_snapshot (ap_client a) c = (r, c1)" by force
  show ?thesis
    using assms(2) q a nr
    by (cases r) (auto simp: app_start_def startup_check_def start_world_def no_obs_def Let_def split: if_splits)
qed

section \<open>An application on the reference platform\<close>

definition silent_kit :: "'c kit" where
  "silent_kit =
     \<lparr>kt_instrument = (\<lambda>t req c. (Inr \<lparr>os_status = 200, os_header = Map.empty, os_body = []\<rparr>, c)),
      kt_header_correlation = ''X-Correlation-Id'',
      kt_authclient = (\<lambda>ac. Inr (\<lambda>a s m u h b c. (Inr \<lparr>os_status = 200, os_header = Map.empty, os_body = b\<rparr>, c)))\<rparr>"

text \<open>The trust service answers the startup probe or not (\<open>up\<close>); anchors come from the script.\<close>

definition ref_platform :: "bool \<Rightarrow> (refsrv, ref_env, unit) platform" where
  "ref_platform up =
     \<lparr>lb_server = None, lb_setup = (\<lambda>_. None), lb_parse_url = (\<lambda>_. Inr sample_url_opts), lb_dial = (\<lambda>_. Inr ref_drv),
      lb_kit = silent_kit,
      lb_trust_client = (\<lambda>url d. Inr
        (if up then ref_client\<lparr>tc_snapshot := (\<lambda>c. (Inr \<lparr>sm_id = ''s1'', sm_lotl_sequence = 7, sm_pending_bootstrap = False,
            sm_territories = []\<rparr>, c))\<rparr>
         else ref_client)),
      lb_http = (\<lambda>_. \<lparr>ht_new_request = (\<lambda>u. Inl (ErrMsg u)), ht_do = (\<lambda>r c. (Inl (ErrMsg ''down''), c))\<rparr>),
      lb_add_task = (\<lambda>_. None), lb_start = None, lb_keys = ref_keys, lb_codec = ref_codec,
      lb_now = sy_now ref_syncer, lb_order = (\<lambda>_. rev)\<rparr>"

lemma ref_platform_simps [simp]:
  "lb_server (ref_platform up) = None" "lb_setup (ref_platform up) b = None"
  "lb_parse_url (ref_platform up) = (\<lambda>_. Inr sample_url_opts)" "lb_dial (ref_platform up) = (\<lambda>_. Inr ref_drv)"
  "lb_kit (ref_platform up) = silent_kit" "lb_add_task (ref_platform up) = (\<lambda>_. None)" "lb_start (ref_platform up) = None"
  "lb_keys (ref_platform up) = ref_keys" "lb_codec (ref_platform up) = ref_codec"
  "lb_now (ref_platform up) = sy_now ref_syncer" "lb_order (ref_platform up) = (\<lambda>_. rev)"
  by (simp_all add: ref_platform_def)

lemma ref_store_made:
  "new_store (\<lambda>_. Inr sample_url_opts) (\<lambda>_. Inr ref_drv) (store_options ref_config) = Inr ref_store"
proof -
  have t: "trim_space ''redis://valkey:6379'' = ''redis://valkey:6379''" "trim_space ''verifierdev'' = ''verifierdev''"
    by (simp_all add: unicode_spaces_def space_prefix_def trim_space_def)
  have p: "key_prefix ''verifierdev'' = ''verifierdev:''"
    by (simp add: key_prefix_def t) (simp add: trim_right_def)
  show ?thesis
    by (simp add: new_store_def client_option_def store_options_def ref_config_def t p ref_store_def Let_def)
qed

lemma ref_init:
  obtains a where
    "app_init (ref_platform up) 0 ref_config allow empty_registry = (Inr a, register_metrics 0 empty_registry)"
    "ap_allow_cold_start a = allow" "is_ok (fst (tc_snapshot (ap_client a) c)) = up"
    "\<not> up \<Longrightarrow> ap_client a = ref_client" "ap_store a = ref_store" "ap_config a = ref_config"
    "ap_worker a = wire_worker (ref_platform up) ref_config ref_store (ap_client a)"
proof -
  obtain client where client: "lb_trust_client (ref_platform up) u d = Inr client" "is_ok (fst (tc_snapshot client c)) = up"
    "\<not> up \<Longrightarrow> client = ref_client" for u d
    by (cases up) (simp_all add: ref_platform_def ref_client_def is_ok_def)
  obtain d where d: "select_doer (silent_kit :: ref_env kit) (cf_auth ref_config) = Inr d"
    by (simp add: select_doer_def ref_config_def ref_auth_def new_authbyte_doer_def silent_kit_def)
  have tasks: "add_tasks (\<lambda>_. None) (app_tasks ref_config) = None" by (simp add: app_tasks_def)
  let ?a = "\<lparr>ap_config = ref_config, ap_store = ref_store, ap_client = client,
      ap_worker = wire_worker (ref_platform up) ref_config ref_store client, ap_tasks = app_tasks ref_config,
      ap_reasons = [(''anchorUnavailable'', 503)], ap_health = new_state (sc_types (cf_sync ref_config)),
      ap_reg = register_metrics 0 empty_registry, ap_allow_cold_start = allow\<rparr>"
  have "app_init (ref_platform up) 0 ref_config allow empty_registry = (Inr ?a, register_metrics 0 empty_registry)"
    by (simp add: app_init_def ref_store_made client(1) d tasks Let_def)
  from that [OF this] client(2,3) show ?thesis by simp
qed

lemma ref_config_valid: "validate_config (\<lambda>_. None) ref_validator ref_config = None"
  by (simp add: ref_config_def ref_auth_def ref_parse ref_url_def minute_def second_def hour_def is_ok_def
      ref_validator.validate_config_ok ref_validator.validate_sync_ok ref_validator.validate_prefetch_ok
      ref_validator.validate_auth_ok)

lemma init_wires_the_worker_instance:
  "\<exists>a rg. app_init (ref_platform True) 0 ref_config False empty_registry = (Inr a, rg) \<and>
     worker_on (ap_store a) ref_keys ref_codec (ap_worker a) \<and> \<not> fst (ready (ap_health a) (time_unix 1000))"
proof -
  obtain a rg where a: "app_init (ref_platform True) 0 ref_config False empty_registry = (Inr a, rg)"
    using ref_init [of True False] by metis
  have "\<forall>c. iteration_order (lb_order (ref_platform True) c)" "second \<le> sc_cache_ttl (cf_sync ref_config)"
    by (simp_all add: ref_platform_def iteration_order_rev ref_config_def minute_def second_def)
  from init_wires_the_worker [OF ref_validator.tag_validator_axioms ref_config_valid a this, of "time_unix 1000"] a
  show ?thesis by (auto simp: ref_platform_def)
qed

theorem startup_fails_closed_witness:
  "\<exists>a e w. new_app (ref_platform False) 0 ref_config None empty_registry = (Inr a, register_metrics 0 empty_registry) \<and>
     app_start (ref_platform False) a (start_world a ref_srv \<lparr>re_time = 0, re_replies = []\<rparr>) = (Some e, w) \<and> wd_store w = ref_srv"
proof -
  obtain a where a: "new_app (ref_platform False) 0 ref_config None empty_registry = (Inr a, register_metrics 0 empty_registry)"
    and down: "\<not> is_ok (fst (tc_snapshot (ap_client a) \<lparr>re_time = 0, re_replies = []\<rparr>))"
    by (rule ref_init [of False False "\<lparr>re_time = 0, re_replies = []\<rparr>"]) (simp add: new_app_def)
  obtain r w where run: "app_start (ref_platform False) a (start_world a ref_srv \<lparr>re_time = 0, re_replies = []\<rparr>) = (r, w)" by force
  from startup_fails_closed [OF a run, of "time_unix 0"] down have "r \<noteq> None" "wd_store w = ref_srv" by auto
  with a run show ?thesis by blast
qed

end
