(* ===== verification/Running_App.thy ===== *)
theory Running_App
  imports App
begin

text \<open>
  The application at work: the HTTP surface over the running worker. Every request the server answers
  is a sequence of steps of the worker (\<open>serve_steps\<close>), so what holds under every interleaving of steps
  holds with requests in between. The last section is the reference application after its first poll.
\<close>

section \<open>The routes of an application\<close>

text \<open>\<open>router\<close> embeds the application: \<open>State\<close>, \<open>Syncer\<close> and \<open>Config\<close> are its own.\<close>

definition app_router :: "('s, 'c, 'b) platform \<Rightarrow> (string \<Rightarrow> string) \<Rightarrow> gerr \<Rightarrow> ('s, 'c, 'b) app \<Rightarrow> ('s, 'c) router" where
  "app_router L sha unauthorized a =
     \<lparr>rt_admin_key = cf_admin_key (ap_config a), rt_sha256 = sha, rt_unauthorized = unauthorized,
      rt_now = lb_now L, rt_run = run_alone (app_syncer a)\<rparr>"

lemma app_router_simps [simp]:
  "rt_admin_key (app_router L sha ua a) = cf_admin_key (ap_config a)" "rt_sha256 (app_router L sha ua a) = sha"
  "rt_unauthorized (app_router L sha ua a) = ua" "rt_now (app_router L sha ua a) = lb_now L"
  "rt_run (app_router L sha ua a) = run_alone (wk_syncer (ap_worker a))"
  by (simp_all add: app_router_def app_syncer_def)

lemma new_app_init: "new_app L ident cfg flag rg = (Inr a, rg') \<Longrightarrow> app_init L ident cfg (flag = Some True) rg = (Inr a, rg')"
  by (auto simp: new_app_def split: option.splits)

lemma new_app_parts:
  assumes "new_app L ident cfg flag rg = (Inr a, rg')"
  shows "sy_now (wk_syncer (ap_worker a)) = lb_now L" "ap_config a = cfg" "ap_health a = new_state (sc_types (cf_sync cfg))"
  by (rule app_init_ok [OF new_app_init [OF assms]], simp add: wire_worker_def new_syncer_def)+

lemma sync_all_steps:
  assumes "\<forall>t w. poll_ok we wi wfr (wk_syncer W) t w"
  shows "(app_step we wi wfr W)\<^sup>*\<^sup>* w (sync_all (wk_syncer W) w)"
  using sync_loop_steps [OF assms] by (auto simp: sync_all_def intro: app_step.report split: sum.splits)

lemma look_step:
  "sy_now (wk_syncer W) = n \<Longrightarrow> (app_step we wi wfr W)\<^sup>*\<^sup>* w (w\<lparr>wd_env := snd (n (wd_env w))\<rparr>)"
  using app_step.look by (blast intro: r_into_rtranclp)

lemma serve_steps:
  assumes "new_app L ident cfg flag rg = (Inr a, rg')" "\<forall>t w. poll_ok we wi wfr (wk_syncer (ap_worker a)) t w"
  shows "(app_step we wi wfr (ap_worker a))\<^sup>*\<^sup>* w (snd (serve (fst (routes_init (app_router L sha ua a) w0)) req w))"
proof -
  let ?R = "app_router L sha ua a" and ?S = "wk_syncer (ap_worker a)"
  note look = look_step [OF new_app_parts(1) [OF assms(1)], where we = we and wi = wi and wfr = wfr]
  have status: "(app_step we wi wfr (ap_worker a))\<^sup>*\<^sup>* v (snd (status_of ?R v))" for v
    using look by simp
  have cycle: "(app_step we wi wfr (ap_worker a))\<^sup>*\<^sup>* v (snd (resync ?R req v))" for v
    using rtranclp_trans [OF sync_all_steps [OF assms(2)] status [of "sync_all ?S v"]]
    by (simp add: resync_def run_alone_def case_prod_unfold Let_def)
  have probe: "(app_step we wi wfr (ap_worker a))\<^sup>*\<^sup>* v (snd (readyz ?R req v))" for v
    using look by (auto simp: readyz_def case_prod_unfold Let_def)
  have report: "(app_step we wi wfr (ap_worker a))\<^sup>*\<^sup>* v (snd (trust_status ?R req v))" for v
    using status by (simp add: trust_status_def case_prod_unfold Let_def)
  show ?thesis
    using cycle probe report
    by (auto simp: serve_def routes_init_def healthz_def api_key_auth_def Let_def split: option.splits)
qed

lemma app_wired:
  assumes "tag_validator vl url" "validate_config base vl cfg = None" "new_app L ident cfg flag rg = (Inr a, rg')"
    and "\<forall>c. iteration_order (lb_order L c)" "second \<le> sc_cache_ttl (cf_sync cfg)"
  shows "worker_on (ap_store a) (lb_keys L) (lb_codec L) (ap_worker a)"
  using app_init_worker_on [OF new_app_init [OF assms(3)] assms(4,5)] assms(2)
    tag_validator.validate_config_ok [OF assms(1), of base cfg] tag_validator.validate_prefetch_ok [OF assms(1)] by simp

section \<open>A degraded start that recovers\<close>

text \<open>The reference application started with \<open>--allow-cold-start\<close> while the probe fails; the first poll
  of its one type succeeds.\<close>

definition cold_env :: ref_env where
  "cold_env = \<lparr>re_time = 1783166400, re_replies = [Inr (sample_set, True)]\<rparr>"

lemma cold_app:
  obtains a where
    "new_app (ref_platform False) 0 ref_config (Some True) empty_registry = (Inr a, register_metrics 0 empty_registry)"
    "ap_store a = ref_store" "wk_syncer (ap_worker a) = ref_syncer"
    "app_clock (ap_worker a) (\<lambda>c. nanos (time_unix (re_time c mod 4000000000)))"
proof -
  obtain a where a:
    "app_init (ref_platform False) 0 ref_config True empty_registry = (Inr a, register_metrics 0 empty_registry)"
    "ap_store a = ref_store" "ap_worker a = wire_worker (ref_platform False) ref_config ref_store ref_client"
    by (rule ref_init [of False True]) simp
  have sy: "wk_syncer (ap_worker a) = ref_syncer"
    by (simp add: a(3) wire_worker_def new_syncer_def) (simp add: ref_syncer_def ref_config_def)
  have now: "sy_now ref_syncer c = (time_unix (re_time c mod 4000000000), c)" for c by (simp add: ref_syncer_def)
  have "app_clock (ap_worker a) (\<lambda>c. nanos (time_unix (re_time c mod 4000000000)))"
    unfolding app_clock_def app_clock_axioms_def sy
    using ref_clock.worker_clock_axioms
    by (simp add: a(3) wire_worker_def new_poller_def new_prefetcher_def now ref_client_def new_http_fetcher_def
        fetch_get_def ref_platform_def)
  with that a sy show ?thesis by (simp add: new_app_def)
qed

lemma cold_run:
  obtains a w where
    "new_app (ref_platform False) 0 ref_config (Some True) empty_registry = (Inr a, register_metrics 0 empty_registry)"
    "ap_store a = ref_store" "wk_syncer (ap_worker a) = ref_syncer"
    "app_clock (ap_worker a) (\<lambda>c. nanos (time_unix (re_time c mod 4000000000)))"
    "sync_type ref_syncer PIDProvider (start_world a ref_srv cold_env) = (Inr (), w)"
    "app_step (\<lambda>_. True) (\<lambda>_. True) (\<lambda>_. True) (ap_worker a) (start_world a ref_srv cold_env) w"
    "re_time (wd_env w) = 1783166400"
proof -
  obtain a where a: "new_app (ref_platform False) 0 ref_config (Some True) empty_registry = (Inr a, register_metrics 0 empty_registry)"
    "ap_store a = ref_store" "wk_syncer (ap_worker a) = ref_syncer"
    "app_clock (ap_worker a) (\<lambda>c. nanos (time_unix (re_time c mod 4000000000)))"
    by (rule cold_app)
  let ?w0 = "start_world a ref_srv cold_env"
  obtain w where run: "sync_type ref_syncer PIDProvider ?w0 = (Inr (), w)"
    using ref_poll_ok [of ?w0] by (auto simp: start_world_def cold_env_def)
  have "poll_ok (\<lambda>_. True) (\<lambda>_. True) (\<lambda>_. True) ref_syncer PIDProvider ?w0"
    by (simp add: poll_ok_def fresh_world_poll(4))
  with run a(3) have "app_step (\<lambda>_. True) (\<lambda>_. True) (\<lambda>_. True) (ap_worker a) ?w0 w"
    by (intro app_step.sync) simp_all
  moreover have "re_time (wd_env w) = 1783166400"
    by (rule sync_type_cases [OF wire_pid run])
      (auto simp: poll_end_def poll_env_def anchors_call_def ref_syncer_def ref_client_def start_world_def cold_env_def)
  ultimately show ?thesis by (rule that [OF a run])
qed

end
