(* ===== verification/Prefetch_Logs.thy ===== *)
theory Prefetch_Logs
  imports Prefetch
begin

text \<open>
  What a prefetch pass writes to the log (\<open>internal/prefetch/prefetch.go\<close>, \<open>fetcher.go\<close>): issuer URIs
  must stay out of it. The judgement is on the printed text: every message and every error text of the
  repository is spelled out in the definitions, and none may hold the \<open>://\<close> of an absolute URL. The
  driver's errors are about commands and carry no URL; that is the locale \<open>quiet_driver\<close>.
\<close>

section \<open>Errors of the store\<close>

locale quiet_driver =
  fixes drv :: "'s driver"
  assumes quiet: "drv cs s = (rs, s') \<Longrightarrow> r \<in> set rs \<Longrightarrow> resp_error r = Some e \<Longrightarrow> url_free (err_text e)"
begin

lemma do1_quiet: "do1 drv c s = (r, s') \<Longrightarrow> resp_error r = Some e \<Longrightarrow> url_free (err_text e)"
  using quiet by (cases "drv [c] s") (fastforce simp: do1_def split: list.splits)

lemma as_int64_quiet: "do1 drv c s = (r, s') \<Longrightarrow> as_int64 r = Inl e \<Longrightarrow> url_free (err_text e)"
  using do1_quiet by (cases r) (auto simp: unexpected_def)

lemma get_ttl_quiet:
  assumes "st_client st = drv" "get_ttl st k s = (Inl e, s')" "url_free k" shows "url_free (err_text e)"
proof -
  obtain r s1 where d: "do1 drv (CPttl (st_key st k)) s = (r, s1)" by force
  from assms d obtain x where "as_int64 r = Inl x" "e = ErrWrap (''valkeystore: pttl '' @ k @ '': '') x"
    by (auto simp: get_ttl_def split: sum.splits if_splits)
  with as_int64_quiet [OF d] assms(3) show ?thesis by (simp add: url_free_label)
qed

lemma set_bytes_quiet:
  assumes "st_client st = drv" "set_bytes st k v ttl s = (Inl e, s')" "url_free k" shows "url_free (err_text e)"
proof -
  obtain r s1 where d: "do1 drv (CSetEx (st_key st k) v ttl) s = (r, s1)" by force
  with assms do1_quiet [OF d] show ?thesis
    by (auto simp: set_bytes_def url_free_label em_dash_def split: option.splits if_splits)
qed

lemma trim_quiet:
  assumes "st_client st = drv" "trim_status_refs st K n s = (Inl e, s')" shows "url_free (err_text e)"
proof -
  obtain r s1 where d: "do1 drv (CZremrangebyrank (st_key st (status_refs_key K)) 0 (i64 (- n - 1))) s = (r, s1)"
    by force
  with assms do1_quiet [OF d] show ?thesis by (auto simp: trim_status_refs_def split: option.splits)
qed

end

lemma ref_run_quiet: "ref_run cs ks = (rs, ks') \<Longrightarrow> r \<in> set rs \<Longrightarrow> resp_error r = Some e \<Longrightarrow> url_free (err_text e)"
proof (induction cs arbitrary: ks rs ks')
  case Nil
  then show ?case by simp
next
  case (Cons c cs)
  obtain qs k1 where q: "ref_run cs (ref_apply c ks) = (qs, k1)" by force
  have "url_free (err_text e)" if "resp_error (ref_reply c ks) = Some e"
    using that by (cases c) (auto simp: ref_reply_def split: if_splits option.splits)
  with Cons.IH [OF q] Cons.prems q show ?case by auto
qed

interpretation ref_quiet: quiet_driver ref_drv
proof
  fix cs s rs s' r e
  assume run: "ref_drv cs s = (rs, s')" "r \<in> set rs" "resp_error r = Some e"
  obtain qs k1 where "ref_run cs (rs_ks s) = (qs, k1)" by force
  with run ref_run_quiet [OF this] show "url_free (err_text e)"
    by (auto simp: ref_drv_def Let_def split: fault.splits)
qed

section \<open>The log of a pass\<close>

text \<open>A line names lists of \<open>U\<close> by their key and prints no URL.\<close>

definition clean_line :: "('s, 'c) prefetcher \<Rightarrow> string set \<Rightarrow> log_entry \<Rightarrow> bool" where
  "clean_line P U l \<longleftrightarrow> url_free (le_msg l) \<and>
     set (log_strings (le_fields l)) \<subseteq> pf_list_key P ` U \<and>
     (\<forall>e \<in> set (log_errors (le_fields l)). url_free (err_text e))"

definition log_grows :: "(log_entry \<Rightarrow> bool) \<Rightarrow> ('s, 'c) world \<Rightarrow> ('s, 'c) world \<Rightarrow> bool" where
  "log_grows Q w w' \<longleftrightarrow> (\<exists>ls. ob_log (wd_obs w') = ob_log (wd_obs w) @ ls \<and> (\<forall>l \<in> set ls. Q l))"

lemma log_grows_trans: "log_grows Q w w1 \<Longrightarrow> log_grows Q w1 w2 \<Longrightarrow> log_grows Q w w2"
  unfolding log_grows_def by (metis Un_iff append.assoc set_append)

lemma log_grows_same: "ob_log (wd_obs w') = ob_log (wd_obs w) \<Longrightarrow> log_grows Q w w'"
  by (simp add: log_grows_def)

lemma log_grows_mono: "log_grows (clean_line P U) w w' \<Longrightarrow> U \<subseteq> V \<Longrightarrow> log_grows (clean_line P V) w w'"
  unfolding log_grows_def clean_line_def by blast

lemma prefetch_one_clean:
  assumes "quiet_http h" "quiet_driver (st_client st)"
    and "hf_client f = h" "pf_fetch P = fetch_get f" "pf_store P = valkey_status st K"
    and "is_ok (ht_new_request h uri)" "url_free (pf_list_key P uri)"
  shows "log_grows (clean_line P {uri}) w (prefetch_one P uri w)"
proof (rule prefetch_one_cases [of P uri w], goal_cases ttl_error hit fetch_error written)
  case (ttl_error e s)
  then have "url_free (err_text e)"
    using quiet_driver.get_ttl_quiet [OF assms(2) refl] assms(5,7) by (simp add: valkey_status_def)
  with ttl_error show ?case by (simp add: log_grows_def clean_line_def)
next
  case (hit ttl s)
  then show ?case by (simp add: log_grows_same)
next
  case (fetch_error x s e c)
  then have "url_free (err_text e)"
    using quiet_http.fetch_errors [OF assms(1,3) _ assms(6), of "wd_env w" e c] assms(4) by simp
  with fetch_error show ?case by (simp add: log_grows_def clean_line_def)
next
  case (written x s body c now c2 q s2)
  show ?case
  proof (cases q)
    case (Inl e)
    then have "url_free (err_text e)"
      using quiet_driver.set_bytes_quiet [OF assms(2) refl] assms(5,7) written(5) by (simp add: valkey_status_def)
    with written Inl show ?thesis by (simp add: log_grows_def clean_line_def)
  next
    case (Inr u)
    with written show ?thesis by (simp add: log_grows_same)
  qed
qed

lemma prefetch_loop_clean:
  assumes "quiet_http h" "quiet_driver (st_client st)"
    and "hf_client f = h" "pf_fetch P = fetch_get f" "pf_store P = valkey_status st K"
    and "\<forall>u \<in> set us. is_ok (ht_new_request h u) \<and> url_free (pf_list_key P u)"
  shows "log_grows (clean_line P (set us)) w (prefetch_loop P us w)"
  using assms(6)
proof (induction us arbitrary: w)
  case Nil
  then show ?case by (simp add: log_grows_same)
next
  case (Cons u us)
  from log_grows_mono [OF prefetch_one_clean [OF assms(1-5), of u w], of "set (u # us)"] Cons.prems
  have "log_grows (clean_line P (set (u # us))) w (prefetch_one P u w)" by simp
  moreover from log_grows_mono [OF Cons.IH, of "set (u # us)" "prefetch_one P u w"] Cons.prems
  have "log_grows (clean_line P (set (u # us))) (prefetch_one P u w) (prefetch_loop P us (prefetch_one P u w))"
    by auto
  ultimately show ?case using log_grows_trans by (simp only: prefetch_loop.simps)
qed

lemma trim_refs_clean:
  assumes "quiet_driver (st_client st)" "pf_store P = valkey_status st K"
  shows "log_grows (clean_line P U) w (trim_refs P w)"
proof -
  obtain r s where t: "trim_status_refs st K refs_keep_bound (wd_store w) = (r, s)" by force
  show ?thesis
  proof (cases r)
    case (Inl e)
    with t have "url_free (err_text e)" using quiet_driver.trim_quiet [OF assms(1) refl] by blast
    with t Inl assms(2) show ?thesis
      by (simp add: trim_refs_def valkey_status_def log_grows_def clean_line_def)
  next
    case (Inr u)
    with t assms(2) show ?thesis by (simp add: trim_refs_def valkey_status_def log_grows_same)
  qed
qed

section \<open>Properties\<close>



text \<open>
  C37. The exception: a listed URI \<open>http.NewRequest\<close> rejects reaches the log in the clear. The error of
  the failed parse is wrapped as it is, and its text embeds the URI.
\<close>

theorem unparsable_uri_reaches_log:
  assumes "http_client (hf_client f)" "pf_fetch P = fetch_get f"
    and "su_get_ttl (pf_store P) (pf_list_key P uri) (wd_store w) = (Inr (t, False), s)"
    and "\<not> is_ok (ht_new_request (hf_client f) uri)"
  shows "\<exists>l e. ob_log (wd_obs (prefetch_one P uri w)) = ob_log (wd_obs w) @ [l] \<and>
    e \<in> set (log_errors (le_fields l)) \<and> uri \<in> set (err_urls e)"
proof -
  obtain p where p: "ht_new_request (hf_client f) uri = Inl p"
    using assms(4) by (cases "ht_new_request (hf_client f) uri") simp_all
  from http_client.parse_error [OF assms(1) p] obtain x where "p = UrlError ''parse'' uri x" by blast
  with p assms(2) have "pf_fetch P uri c =
      (Inl (ErrWrap ''prefetch: build request: '' (UrlError ''parse'' uri x)), c)" for c
    by (simp add: fetch_get_def)
  with assms(3) show ?thesis by (simp add: prefetch_one_def)
qed

theorem unparsable_uri_reaches_log_witness:
  "\<exists>l e. ob_log (wd_obs (prefetch_one ref_prefetcher ''https://bad host/1'' (prefetch_world []))) = [l] \<and>
     e \<in> set (log_errors (le_fields l)) \<and> ''https://bad host/1'' \<in> set (err_urls e)"
proof -
  have P: "http_client (hf_client ref_fetcher)" "pf_fetch ref_prefetcher = fetch_get ref_fetcher"
    "\<not> is_ok (ht_new_request (hf_client ref_fetcher) ''https://bad host/1'')"
    using ref_http.http_client_axioms by (simp_all add: ref_fetcher_def ref_prefetcher_def ref_http_def)
  have miss: "su_get_ttl (pf_store ref_prefetcher) (pf_list_key ref_prefetcher ''https://bad host/1'')
      (wd_store (prefetch_world [])) = (Inr (0, False), wd_store (prefetch_world []))"
    using ref_miss by (simp add: ref_prefetcher_def valkey_status_def)
  from unparsable_uri_reaches_log [OF P(1,2) miss P(3)] show ?thesis
    by (auto simp: prefetch_world_def no_obs_def)
qed

end
