(* ===== verification/Mock_Trust.thy ===== *)
theory Mock_Trust
  imports Go_Encoding
begin

text \<open>
  \<open>internal/mocktrust/mocktrust.go\<close>: the test double of the trust-anchor service that the end-to-end
  tests run the worker against. The mutex makes each operation one function on the server's state. The
  embedded file system, SHA-256, the key generator and the certificate encoder are parameters. \<open>None\<close> is
  \<open>tb.Fatal\<close>: the test ends there.
\<close>

section \<open>State and requests\<close>

record recorded =
  rd_path :: string
  rd_type :: string
  rd_if_none_match :: string
  rd_authorization :: string
  rd_dpop :: string
  rd_correlation_id :: string

record mock =
  mk_url :: string
  mk_etag :: string
  mk_anchors :: string
  mk_snapshot :: string
  mk_reqs :: "recorded list"
  mk_stale :: bool
  mk_cert_der :: string

text \<open>What the handler reads of a request: the path, the \<open>type\<close> query parameter and the header.\<close>

record mock_request =
  mr_path :: string
  mr_type :: string
  mr_header :: "string \<Rightarrow> string"

record mock_response =
  mo_status :: int
  mo_header :: "string \<rightharpoonup> string"
  mo_body :: string

section \<open>Fixtures\<close>

text \<open>\<open>strings.ReplaceAll\<close> and \<open>bytes.ReplaceAll\<close> for a pattern that is not empty.\<close>

function replace_all :: "string \<Rightarrow> string \<Rightarrow> string \<Rightarrow> string" where
  "replace_all old new s =
     (case s of
        [] \<Rightarrow> []
      | c # cs \<Rightarrow>
          if old \<noteq> [] \<and> has_prefix old s then new @ replace_all old new (drop (length old) s)
          else c # replace_all old new cs)"
  by pat_completeness auto
termination by (relation "measure (\<lambda>(old, new, s). length s)") auto

declare replace_all.simps [simp del]

text \<open>\<open>base64.StdEncoding.EncodeToString\<close>: the other alphabet's last two characters, and padding.\<close>

definition std_char :: "char \<Rightarrow> char" where
  "std_char c = (if c = CHR ''-'' then CHR ''+'' else if c = CHR ''_'' then CHR ''/'' else c)"

definition b64_std_encode :: "string \<Rightarrow> string" where
  "b64_std_encode s =
     (let t = map std_char (b64_encode s) in t @ replicate ((4 - length t mod 4) mod 4) (CHR ''=''))"

definition hex_digit :: "nat \<Rightarrow> char" where
  "hex_digit n = char_of (if n < 10 then 48 + n else 87 + n)"

definition hex_encode :: "string \<Rightarrow> string" where
  "hex_encode s = concat (map (\<lambda>c. [hex_digit (code c div 16), hex_digit (code c mod 16)]) s)"

text \<open>The embedded files by name.\<close>

type_synonym file_system = "string \<rightharpoonup> string"

definition fixture :: "file_system \<Rightarrow> string \<Rightarrow> string option" where
  "fixture fixtures name = fixtures (''testdata/'' @ name)"

definition render_fixture :: "(string \<Rightarrow> string) \<Rightarrow> file_system \<Rightarrow> string \<Rightarrow> string \<Rightarrow> string option" where
  "render_fixture sha256 fixtures name cert_der =
     (let fp = sha256 cert_der
      in case fixture fixtures name of
           None \<Rightarrow> None
         | Some raw \<Rightarrow>
             (let out = replace_all ''{{CERT_DER}}'' (b64_std_encode cert_der) raw
              in Some (replace_all ''{{CERT_FP}}'' (hex_encode fp) out)))"

section \<open>The generated certificate\<close>

text \<open>\<open>time.Date(y, m, d, 0, 0, 0, 0, time.UTC)\<close>: days of the proleptic Gregorian calendar.\<close>

definition unix_days :: "int \<Rightarrow> int \<Rightarrow> int \<Rightarrow> int" where
  "unix_days y m d =
     (let a = (14 - m) div 12; y1 = y + 4800 - a; m1 = m + 12 * a - 3
      in d + (153 * m1 + 2) div 5 + 365 * y1 + y1 div 4 - y1 div 100 + y1 div 400 - 32045 - 2440588)"

definition utc_date :: "int \<Rightarrow> int \<Rightarrow> int \<Rightarrow> gotime" where
  "utc_date y m d = time_unix (86400 * unix_days y m d)"

record certificate =
  ce_serial_number :: int
  ce_subject_common_name :: string
  ce_not_before :: gotime
  ce_not_after :: gotime
  ce_is_ca :: bool
  ce_basic_constraints_valid :: bool

definition cert_template :: certificate where
  "cert_template =
     \<lparr>ce_serial_number = 1, ce_subject_common_name = ''EUDI Test PID CA'', ce_not_before = utc_date 2026 1 1,
      ce_not_after = utc_date 2028 1 1, ce_is_ca = True, ce_basic_constraints_valid = True\<rparr>"

text \<open>\<open>gen_key\<close> is \<open>ecdsa.GenerateKey\<close> on P-256, \<open>create\<close> is \<open>x509.CreateCertificate\<close> of a template, its issuer
  and the key; both read the random source.\<close>

definition generate_cert_der ::
  "('r \<Rightarrow> 'k result \<times> 'r) \<Rightarrow> (certificate \<Rightarrow> certificate \<Rightarrow> 'k \<Rightarrow> 'r \<Rightarrow> string result \<times> 'r) \<Rightarrow> 'r \<Rightarrow> string option \<times> 'r" where
  "generate_cert_der gen_key create r =
     (case gen_key r of
        (Inl e, r1) \<Rightarrow> (None, r1)
      | (Inr key, r1) \<Rightarrow>
          (case create cert_template cert_template key r1 of
             (Inl e, r2) \<Rightarrow> (None, r2)
           | (Inr der, r2) \<Rightarrow> (Some der, r2)))"

section \<open>Operations\<close>

definition set_anchors :: "string \<Rightarrow> string \<Rightarrow> mock \<Rightarrow> mock" where
  "set_anchors etag body s = s\<lparr>mk_etag := etag, mk_anchors := body\<rparr>"

definition set_mock_snapshot :: "string \<Rightarrow> mock \<Rightarrow> mock" where
  "set_mock_snapshot body s = s\<lparr>mk_snapshot := body\<rparr>"

definition set_stale :: "bool \<Rightarrow> mock \<Rightarrow> mock" where
  "set_stale v s = s\<lparr>mk_stale := v\<rparr>"

definition requests :: "mock \<Rightarrow> recorded list" where
  "requests s = mk_reqs s"

text \<open>\<open>cert\<close> is the generated certificate, \<open>url\<close> the address \<open>httptest.NewServer\<close> gives.\<close>

definition new_mock :: "(string \<Rightarrow> string) \<Rightarrow> file_system \<Rightarrow> string option \<Rightarrow> string \<Rightarrow> mock option" where
  "new_mock sha256 fixtures cert url =
     (case cert of
        None \<Rightarrow> None
      | Some der \<Rightarrow>
          (let s = \<lparr>mk_url = [], mk_etag = [], mk_anchors = [], mk_snapshot = [], mk_reqs = [], mk_stale = False,
                 mk_cert_der = der\<rparr>
           in case render_fixture sha256 fixtures ''anchors_pid_provider_v1.json'' der of
                None \<Rightarrow> None
              | Some body \<Rightarrow>
                  (let s1 = set_anchors ''snap-0001'' body s
                   in case fixture fixtures ''snapshot_ok.json'' of
                        None \<Rightarrow> None
                      | Some snap \<Rightarrow> Some ((set_mock_snapshot snap s1)\<lparr>mk_url := url\<rparr>))))"

definition swap_snapshot_id :: "(string \<Rightarrow> string) \<Rightarrow> file_system \<Rightarrow> string \<Rightarrow> mock \<Rightarrow> mock option" where
  "swap_snapshot_id sha256 fixtures ident s =
     (case render_fixture sha256 fixtures ''anchors_pid_provider_v1.json'' (mk_cert_der s) of
        None \<Rightarrow> None
      | Some rendered \<Rightarrow> Some (set_anchors ident (replace_all ''snap-0001'' ident rendered) s))"

section \<open>The handler\<close>

definition quote_mark :: char where "quote_mark = CHR 0x22"

text \<open>\<open>strings.Trim(s, "\"")\<close>.\<close>

definition trim_quotes :: "string \<Rightarrow> string" where
  "trim_quotes s = trim_right quote_mark (dropWhile (\<lambda>c. c = quote_mark) s)"

definition record_request :: "mock_request \<Rightarrow> recorded" where
  "record_request r =
     \<lparr>rd_path = mr_path r, rd_type = mr_type r, rd_if_none_match = mr_header r ''If-None-Match'',
      rd_authorization = mr_header r ''Authorization'', rd_dpop = mr_header r ''DPoP'',
      rd_correlation_id = mr_header r ''X-Correlation-ID''\<rparr>"

definition mock_handle :: "mock_request \<Rightarrow> mock \<Rightarrow> mock_response \<times> mock" where
  "mock_handle r s =
     (let s1 = s\<lparr>mk_reqs := mk_reqs s @ [record_request r]\<rparr>;
          hd = [''X-Trust-Snapshot'' \<mapsto> mk_etag s, ''X-Trust-Stale'' \<mapsto> (if mk_stale s then ''true'' else ''false'')]
      in if mr_path r = ''/v1/anchors.json''
         then (let hd1 = hd(''ETag'' \<mapsto> quote_mark # mk_etag s @ [quote_mark]);
                   inm = mr_header r ''If-None-Match''
               in if inm \<noteq> [] \<and> trim_quotes (trim_space inm) = mk_etag s
                  then (\<lparr>mo_status = 304, mo_header = hd1, mo_body = []\<rparr>, s1)
                  else (\<lparr>mo_status = 200, mo_header = hd1(''Content-Type'' \<mapsto> ''application/json''),
                         mo_body = mk_anchors s\<rparr>, s1))
         else if mr_path r = ''/v1/snapshot''
         then (\<lparr>mo_status = 200, mo_header = hd(''Content-Type'' \<mapsto> ''application/json''), mo_body = mk_snapshot s\<rparr>, s1)
         else (\<lparr>mo_status = 404,
                mo_header = hd(''Content-Type'' \<mapsto> ''text/plain; charset=utf-8'', ''X-Content-Type-Options'' \<mapsto> ''nosniff''),
                mo_body = ''404 page not found'' @ [CHR 0x0A]\<rparr>, s1))"

section \<open>Lemmas\<close>

lemma no_space_quote: "w \<in> set unicode_spaces \<Longrightarrow> \<not> has_prefix w (quote_mark # s)"
  by (auto simp: unicode_spaces_def quote_mark_def)

lemma no_rev_space_quote: "w \<in> set (map rev unicode_spaces) \<Longrightarrow> \<not> has_prefix w (quote_mark # s)"
  by (auto simp: unicode_spaces_def quote_mark_def)

lemma space_prefix_none: "(\<And>w. w \<in> set ws \<Longrightarrow> \<not> has_prefix w s) \<Longrightarrow> space_prefix ws s = 0"
  by (auto simp: space_prefix_def find_Some_iff split: option.splits)

lemma trim_space_quoted: "trim_space (quote_mark # s @ [quote_mark]) = quote_mark # s @ [quote_mark]"
proof -
  have l: "trim_left_fuel n unicode_spaces (quote_mark # t) = quote_mark # t" for n t
    using space_prefix_none [OF no_space_quote, of unicode_spaces t] by (cases n) simp_all
  have r: "trim_left_fuel n (map rev unicode_spaces) (quote_mark # t) = quote_mark # t" for n t
    using space_prefix_none [OF no_rev_space_quote, of "map rev unicode_spaces" t] by (cases n) simp_all
  show ?thesis by (simp add: trim_space_def l r del: trim_left_fuel.simps)
qed

definition plain_etag :: "string \<Rightarrow> bool" where
  "plain_etag e \<longleftrightarrow> e \<noteq> [] \<and> hd e \<noteq> quote_mark \<and> last e \<noteq> quote_mark"

lemma trim_quotes_quoted:
  assumes "plain_etag e" shows "trim_quotes (quote_mark # e @ [quote_mark]) = e"
proof -
  obtain c cs where e: "e = c # cs" "c \<noteq> quote_mark" using assms by (cases e) (auto simp: plain_etag_def)
  obtain ds d where e2: "e = ds @ [d]" "d \<noteq> quote_mark" using assms by (cases e rule: rev_cases) (auto simp: plain_etag_def)
  have "dropWhile (\<lambda>c. c = quote_mark) (quote_mark # e @ [quote_mark]) = e @ [quote_mark]" using e by simp
  moreover have "trim_right quote_mark (e @ [quote_mark]) = e" using e2 by (simp add: trim_right_def)
  ultimately show ?thesis by (simp add: trim_quotes_def)
qed

text \<open>A new mock serves the rendered fixture under the id the fixture carries, and fails with the
  fixtures or the certificate; re-serving under another id starts again from the fixture, so the ids do not
  pile up.\<close>

lemma new_mock_ok:
  "new_mock sha fs cert url = Some s \<longleftrightarrow>
     (\<exists>der body snap. cert = Some der \<and> render_fixture sha fs ''anchors_pid_provider_v1.json'' der = Some body \<and>
        fixture fs ''snapshot_ok.json'' = Some snap \<and>
        s = \<lparr>mk_url = url, mk_etag = ''snap-0001'', mk_anchors = body, mk_snapshot = snap, mk_reqs = [], mk_stale = False,
          mk_cert_der = der\<rparr>)"
  by (auto simp: new_mock_def set_anchors_def set_mock_snapshot_def Let_def split: option.splits)

lemma swap_from_fixture:
  assumes "swap_snapshot_id sha fs i s = Some s1"
  shows "swap_snapshot_id sha fs j s1 = swap_snapshot_id sha fs j s \<and> mk_etag s1 = i \<and> requests s1 = requests s"
  using assms by (auto simp: swap_snapshot_id_def set_anchors_def requests_def split: option.splits)

lemma cert_template_dates:
  "ce_not_before cert_template = time_unix 1767225600" "ce_not_after cert_template = time_unix 1830297600"
  by (simp_all add: cert_template_def utc_date_def unix_days_def)

section \<open>Properties\<close>

text \<open>
  The double honours conditional requests as the real service does: a client that sends back the
  ETag of an earlier answer gets 304 without a body as long as the snapshot id has not changed, and the
  complete current bundle under the current ETag once it has; requests with no \<open>If-None-Match\<close> always
  get the bundle. Every answer names the current snapshot id, and every request is recorded once.
\<close>

lemma mock_conditional_get:
  assumes "mr_path r = ''/v1/anchors.json''" "mock_handle r0 s0 = (resp0, s1)" "mr_path r0 = ''/v1/anchors.json''"
    and "mr_header r ''If-None-Match'' = (case mo_header resp0 ''ETag'' of Some e \<Rightarrow> e | None \<Rightarrow> [])"
    and "plain_etag (mk_etag s0)" "mock_handle r s = (resp, s')"
  shows "mo_header resp ''ETag'' = Some (quote_mark # mk_etag s @ [quote_mark]) \<and>
    mo_header resp ''X-Trust-Snapshot'' = Some (mk_etag s) \<and>
    (if mk_etag s = mk_etag s0 then mo_status resp = 304 \<and> mo_body resp = []
     else mo_status resp = 200 \<and> mo_body resp = mk_anchors s) \<and>
    requests s' = requests s @ [record_request r]"
proof -
  have "mo_header resp0 ''ETag'' = Some (quote_mark # mk_etag s0 @ [quote_mark])"
    using assms(2,3) by (auto simp: mock_handle_def Let_def split: if_splits)
  then have inm: "mr_header r ''If-None-Match'' = quote_mark # mk_etag s0 @ [quote_mark]" using assms(4) by simp
  then have "trim_quotes (trim_space (mr_header r ''If-None-Match'')) = mk_etag s0"
    by (simp add: trim_space_quoted trim_quotes_quoted [OF assms(5)])
  with inm assms(1,6) show ?thesis by (auto simp: mock_handle_def requests_def Let_def split: if_splits)
qed

lemma mock_conditional_get_instance:
  "let s = the (new_mock rev (\<lambda>_. Some ''{}'') (Some ''der'') ''http://127.0.0.1:1''); r = \<lparr>mr_path = ''/v1/anchors.json'', mr_type = ''pid_provider'', mr_header = (\<lambda>_. [])\<rparr>;
       r1 = r\<lparr>mr_header := (\<lambda>h. if h = ''If-None-Match'' then quote_mark # ''snap-0001'' @ [quote_mark] else [])\<rparr>
   in mo_status (fst (mock_handle r1 (snd (mock_handle r s)))) = 304 \<and>
      mo_status (fst (mock_handle r1 (set_anchors ''snap-0002'' ''{}'' s))) = 200"
proof -
  let ?s = "the (new_mock rev (\<lambda>_. Some ''{}'') (Some ''der'') ''http://127.0.0.1:1'')"
  let ?r = "\<lparr>mr_path = ''/v1/anchors.json'', mr_type = ''pid_provider'', mr_header = (\<lambda>_. [])\<rparr>"
  let ?r1 = "?r\<lparr>mr_header := (\<lambda>h. if h = ''If-None-Match'' then quote_mark # ''snap-0001'' @ [quote_mark] else [])\<rparr>"
  have e: "mk_etag ?s = ''snap-0001''" "mk_etag (snd (mock_handle ?r ?s)) = ''snap-0001''"
    by (simp_all add: new_mock_def fixture_def render_fixture_def set_anchors_def set_mock_snapshot_def mock_handle_def Let_def)
  have p: "plain_etag (mk_etag ?s)" by (simp add: e plain_etag_def quote_mark_def)
  have h: "mr_header ?r1 ''If-None-Match'' = (case mo_header (fst (mock_handle ?r ?s)) ''ETag'' of Some e \<Rightarrow> e | None \<Rightarrow> [])"
    using e by (simp add: mock_handle_def Let_def)
  have "mo_status (fst (mock_handle ?r1 (snd (mock_handle ?r ?s)))) = 304"
    using mock_conditional_get [OF _ prod.collapse [symmetric] _ h p prod.collapse [symmetric], of "snd (mock_handle ?r ?s)"] e
    by simp
  moreover have "mo_status (fst (mock_handle ?r1 (set_anchors ''snap-0002'' ''{}'' ?s))) = 200"
    using mock_conditional_get [OF _ prod.collapse [symmetric] _ h p prod.collapse [symmetric], of "set_anchors ''snap-0002'' ''{}'' ?s"] e
    by (simp add: set_anchors_def)
  ultimately show ?thesis by (simp only: Let_def)
qed

end
