(* ===== verification/Commands.thy ===== *)
theory Commands
  imports Running_App
begin

text \<open>
  \<open>cmd/server\<close>: the process. \<open>main.go\<close> fixes the listen address and hands over to the command-line
  library; \<open>health.go\<close> and \<open>web.go\<close> register the two commands. The library (\<open>cobra\<close>, \<open>azugo.io/core/cli\<close>)
  and Azugo's \<open>RunContext\<close> are parameters with their documented behaviour (the locales \<open>flag_set\<close> and
  \<open>server_runner\<close>).
\<close>

section \<open>Commands and their registration\<close>

record flag =
  fg_name :: string
  fg_default :: bool
  fg_usage :: string

record server_options =
  so_app_name :: string
  so_app_ver :: string

text \<open>\<open>web\<close> runs the worker; \<open>health\<close> probes a path of it.\<close>

datatype action = RunWeb | Probe string server_options

record command =
  cm_use :: string
  cm_short :: string
  cm_flags :: "flag list"
  cm_action :: action

text \<open>The calls of \<open>cli.Register\<close> in their order, each with whether it passes \<open>cli.AsDefault()\<close>.\<close>

type_synonym registrations = "(command \<times> bool) list"

definition version :: string where
  "version = ''1.0.0-dev''"

definition app_options :: "string \<Rightarrow> server_options" where
  "app_options v = \<lparr>so_app_name = ''Trust Cache Worker'', so_app_ver = v\<rparr>"

definition web_command :: command where
  "web_command =
     \<lparr>cm_use = ''web'', cm_short = ''Start the trust-cache worker'',
      cm_flags = [\<lparr>fg_name = ''allow-cold-start'', fg_default = False,
        fg_usage = ''boot even if the trust service is unreachable at startup''\<rparr>],
      cm_action = RunWeb\<rparr>"

text \<open>\<open>server.HealthCommand\<close> makes the command; its name and text are the library's (\<open>use\<close>, \<open>short\<close>).\<close>

definition health_command :: "string \<Rightarrow> string \<Rightarrow> command" where
  "health_command use short =
     \<lparr>cm_use = use, cm_short = short, cm_flags = [], cm_action = Probe ''/healthz'' (app_options version)\<rparr>"

text \<open>The \<open>init\<close> functions of the package, in file order.\<close>

definition registered :: "string \<Rightarrow> string \<Rightarrow> registrations" where
  "registered use short = [(health_command use short, False), (web_command, True)]"

section \<open>The entry point\<close>

record cli_options =
  co_use :: string
  co_short :: string
  co_long :: string
  co_version :: string

definition listen_env :: "(string \<rightharpoonup> string) \<Rightarrow> (string \<rightharpoonup> string)" where
  "listen_env env =
     (case env ''SERVER_URLS'' of
        None \<Rightarrow> env(''SERVER_URLS'' \<mapsto> ''http://0.0.0.0:8080'')
      | Some _ \<Rightarrow> env)"

text \<open>\<open>run\<close> is \<open>cli.Run\<close>: it selects a registered command by the arguments and runs it in the environment.\<close>

definition main_fn :: "(cli_options \<Rightarrow> registrations \<Rightarrow> (string \<rightharpoonup> string) \<Rightarrow> 'x) \<Rightarrow> registrations \<Rightarrow> (string \<rightharpoonup> string) \<Rightarrow> 'x" where
  "main_fn run cl env =
     run \<lparr>co_use = ''server'', co_short = ''Trust cache worker'',
        co_long = ''EUDI verifier trust-cache worker: materializes trust anchors and status lists into Valkey.'',
        co_version = version\<rparr> cl (listen_env env)"

section \<open>The web command\<close>

text \<open>What the command comes to: an error, a panic, or a server that ran, with what it answered.\<close>

datatype ('s, 'c) outcome =
    Stopped gerr
  | Panicked
  | Served "response_of list" "('s, 'c) world"

text \<open>\<open>get_bool flags given n\<close> is \<open>Flags().GetBool(n)\<close> for the flags a command declares and the arguments
  \<open>given\<close>; \<open>None\<close> is its error. \<open>rc\<close> is \<open>server.RunContext\<close>: it is given the application's \<open>Start\<close> and its
  routes.\<close>

definition run_web ::
  "('s, 'c, 'b) platform \<Rightarrow> ('b \<Rightarrow> bool) \<Rightarrow> (flag list \<Rightarrow> 'a \<Rightarrow> string \<Rightarrow> bool option)
   \<Rightarrow> ((('s, 'c) world \<Rightarrow> gerr option \<times> ('s, 'c) world) \<Rightarrow> ('s, 'c) handler \<Rightarrow> ('s, 'c) world \<Rightarrow> response_of list \<times> ('s, 'c) world)
   \<Rightarrow> (string \<Rightarrow> string) \<Rightarrow> gerr \<Rightarrow> nat \<Rightarrow> 'b app_config \<Rightarrow> registry \<Rightarrow> 's \<Rightarrow> 'c \<Rightarrow> command \<Rightarrow> 'a \<Rightarrow> ('s, 'c) outcome" where
  "run_web L loaded get_bool rc sha ua ident cfg rg s c cmd given =
     (case fst (new_app L ident cfg (get_bool (cm_flags cmd) given ''allow-cold-start'') rg) of
        Inl e \<Rightarrow> Stopped e
      | Inr a \<Rightarrow>
          (case app_config_of loaded a of
             None \<Rightarrow> Panicked
           | Some _ \<Rightarrow>
               (let (table, w) = routes_init (app_router L sha ua a) (start_world a s c);
                    (answers, w') = rc (app_start L a) (serve table) w
                in Served answers w')))"

locale flag_set =
  fixes get_bool :: "flag list \<Rightarrow> 'a \<Rightarrow> string \<Rightarrow> bool option" and given :: "'a \<Rightarrow> string \<Rightarrow> bool"
  assumes default_law: "f \<in> set fs \<Longrightarrow> distinct (map fg_name fs) \<Longrightarrow> \<not> given args (fg_name f) \<Longrightarrow>
      get_bool fs args (fg_name f) = Some (fg_default f)"
    and undeclared_law: "n \<notin> fg_name ` set fs \<Longrightarrow> get_bool fs args n = None"
begin

lemma web_flag_default: "\<not> given args ''allow-cold-start'' \<Longrightarrow> get_bool (cm_flags web_command) args ''allow-cold-start'' = Some False"
  using default_law [of "hd (cm_flags web_command)" "cm_flags web_command" args] by (simp add: web_command_def)

end

text \<open>An application whose \<open>Start\<close> fails is never served. The law of a started one is not needed: what
  the server does then is any sequence of the steps of the running worker.\<close>

locale server_runner =
  fixes rc :: "('w \<Rightarrow> gerr option \<times> 'w) \<Rightarrow> (http_request \<Rightarrow> 'w \<Rightarrow> response_of \<times> 'w) \<Rightarrow> 'w \<Rightarrow> response_of list \<times> 'w"
  assumes start_failed: "start w = (Some e, w1) \<Longrightarrow> rc start handle w = ([], w1)"

text \<open>Reference instances: arguments as the list of flags that were given with their values, and a
  server that answers the requests of a fixed list.\<close>

definition ref_bool :: "flag list \<Rightarrow> (string \<times> bool) list \<Rightarrow> string \<Rightarrow> bool option" where
  "ref_bool fs args n =
     (case map_of (map (\<lambda>f. (fg_name f, fg_default f)) fs) n of
        None \<Rightarrow> None
      | Some d \<Rightarrow> Some (case map_of args n of None \<Rightarrow> d | Some b \<Rightarrow> b))"

fun answer_all :: "(http_request \<Rightarrow> 'w \<Rightarrow> response_of \<times> 'w) \<Rightarrow> http_request list \<Rightarrow> 'w \<Rightarrow> response_of list \<times> 'w" where
  "answer_all h [] w = ([], w)"
| "answer_all h (r # rs) w = (let (x, w1) = h r w; (xs, w2) = answer_all h rs w1 in (x # xs, w2))"

definition ref_run ::
  "http_request list \<Rightarrow> ('w \<Rightarrow> gerr option \<times> 'w) \<Rightarrow> (http_request \<Rightarrow> 'w \<Rightarrow> response_of \<times> 'w) \<Rightarrow> 'w \<Rightarrow> response_of list \<times> 'w" where
  "ref_run reqs start h w = (case start w of (Some e, w1) \<Rightarrow> ([], w1) | (None, w1) \<Rightarrow> answer_all h reqs w1)"

interpretation ref_flags: flag_set ref_bool "\<lambda>args n. n \<in> fst ` set args"
proof unfold_locales
  fix f :: flag and fs args
  assume "f \<in> set fs" "distinct (map fg_name fs)" "fg_name f \<notin> fst ` set (args :: (string \<times> bool) list)"
  then have "map_of (map (\<lambda>f. (fg_name f, fg_default f)) fs) (fg_name f) = Some (fg_default f)" "map_of args (fg_name f) = None"
    by (auto intro!: map_of_is_SomeI simp: comp_def map_of_eq_None_iff)
  then show "ref_bool fs args (fg_name f) = Some (fg_default f)" by (simp add: ref_bool_def)
next
  fix n and fs :: "flag list" and args
  assume "n \<notin> fg_name ` set fs"
  then show "ref_bool fs args n = None"
    by (simp add: ref_bool_def map_of_eq_None_iff [THEN iffD2] image_image)
qed

interpretation ref_run: server_runner "ref_run reqs"
  by unfold_locales (simp add: ref_run_def)

section \<open>Lemmas\<close>

text \<open>The operator's address is kept, the empty one too; \<open>web\<close> alone is registered as the default; and
  the probe asks a path that the worker always serves.\<close>

lemma listen_env_lookup:
  "listen_env env n = (if n = ''SERVER_URLS'' \<and> env n = None then Some ''http://0.0.0.0:8080'' else env n)"
  by (auto simp: listen_env_def split: option.splits)

lemma default_command: "map fst (filter snd (registered use short)) = [web_command]"
  by (simp add: registered_def)

lemma probed_path_is_served:
  assumes "Probe path opts \<in> cm_action ` fst ` set (registered use short)" "hq_method req = ''GET''" "hq_path req = path"
  shows "serve (fst (routes_init R w0)) req w = (\<lparr>ra_answer = Fields 200 [(''status'', ''ok'')], ra_skip_log = True\<rparr>, w)"
  using assms
  by (auto simp: registered_def health_command_def web_command_def serve_def routes_init_def healthz_def Let_def)

lemma routes_init_frame [simp]:
  "wd_store (snd (routes_init R w)) = wd_store w" "wd_env (snd (routes_init R w)) = wd_env w"
  "wd_health (snd (routes_init R w)) = wd_health w"
  by (simp_all add: routes_init_def Let_def)

lemma app_start_fails:
  assumes "lb_start L \<noteq> None \<or> \<not> is_ok (fst (tc_snapshot (ap_client a) (wd_env w))) \<and> \<not> ap_allow_cold_start a"
  obtains e w' where "app_start L a w = (Some e, w')" "wd_store w' = wd_store w" "wd_health w' = wd_health w"
proof -
  obtain r c where q: "tc_snapshot (ap_client a) (wd_env w) = (r, c)" by force
  have "fst (app_start L a w) \<noteq> None \<and> wd_store (snd (app_start L a w)) = wd_store w \<and>
      wd_health (snd (app_start L a w)) = wd_health w"
    using assms q by (cases r) (auto simp: app_start_def startup_check_def Let_def)
  with that show ?thesis by (cases "app_start L a w") auto
qed

lemma web_runs:
  assumes "run_web L loaded get_bool rc sha ua ident cfg rg s c cmd args = Served answers w"
  obtains a rg' where
    "new_app L ident cfg (get_bool (cm_flags cmd) args ''allow-cold-start'') rg = (Inr a, rg')" "loaded (cf_base cfg)"
    "rc (app_start L a) (serve (fst (routes_init (app_router L sha ua a) (start_world a s c))))
      (snd (routes_init (app_router L sha ua a) (start_world a s c))) = (answers, w)"
proof -
  obtain r rg' where n: "new_app L ident cfg (get_bool (cm_flags cmd) args ''allow-cold-start'') rg = (r, rg')" by force
  from assms n obtain a where r: "r = Inr a" by (auto simp: run_web_def split: sum.splits)
  have "ap_config a = cfg" using new_app_parts(2) n r by metis
  with assms n r that [of a rg'] show ?thesis
    by (auto simp: run_web_def app_config_of_def Let_def case_prod_unfold split: if_splits)
qed

section \<open>Properties\<close>

text \<open>
  C15. The default command fails closed: it serves only an application that \<open>New\<close> built from a loaded
  configuration, and when the server cannot start, or the trust service cannot be reached and
  \<open>--allow-cold-start\<close> is not among the arguments, it answers no request at all and leaves the cache as it
  was, not ready.
\<close>

theorem web_command_fails_closed:
  assumes "flag_set get_bool given" "server_runner rc"
    and "run_web L loaded get_bool rc sha ua ident cfg rg s c web_command args = Served answers w"
  shows "\<exists>a rg'. new_app L ident cfg (get_bool (cm_flags web_command) args ''allow-cold-start'') rg = (Inr a, rg') \<and>
    loaded (cf_base cfg) \<and>
    (lb_start L \<noteq> None \<or> \<not> is_ok (fst (tc_snapshot (ap_client a) c)) \<and> \<not> given args ''allow-cold-start'' \<longrightarrow>
       answers = [] \<and> wd_store w = s \<and> \<not> fst (ready (wd_health w) now))"
proof (rule web_runs [OF assms(3)], goal_cases ran)
  case (ran a rg')
  let ?w = "snd (routes_init (app_router L sha ua a) (start_world a s c))"
  have allow: "ap_allow_cold_start a \<longleftrightarrow> get_bool (cm_flags web_command) args ''allow-cold-start'' = Some True"
    by (rule app_init_ok [OF new_app_init [OF ran(1)]]) simp
  have nr: "\<not> fst (ready (ap_health a) now)"
    using new_app_parts(3) [OF ran(1)] by (cases "sc_types (cf_sync cfg)") (simp_all add: fst_ready new_state_def live_def)
  have "answers = [] \<and> wd_store w = s \<and> \<not> fst (ready (wd_health w) now)"
    if "lb_start L \<noteq> None \<or> \<not> is_ok (fst (tc_snapshot (ap_client a) c)) \<and> \<not> given args ''allow-cold-start''"
  proof -
    have "lb_start L \<noteq> None \<or> \<not> is_ok (fst (tc_snapshot (ap_client a) (wd_env ?w))) \<and> \<not> ap_allow_cold_start a"
      using that flag_set.web_flag_default [OF assms(1)] allow by (auto simp: start_world_def)
    then obtain e w' where st: "app_start L a ?w = (Some e, w')" and w': "wd_store w' = wd_store ?w" "wd_health w' = wd_health ?w"
      by (rule app_start_fails)
    from st have "rc (app_start L a) h ?w = ([], w')" for h by (rule server_runner.start_failed [OF assms(2)])
    with ran(3) w' nr show ?thesis by (simp add: start_world_def)
  qed
  with ran show ?case by blast
qed

definition probe_request :: http_request where
  "probe_request = \<lparr>hq_method = ''GET'', hq_path = ''/healthz'', hq_api_key = []\<rparr>"

theorem web_command_fails_closed_witness:
  "\<exists>w. run_web (ref_platform False) (\<lambda>_. True) ref_bool (ref_run [probe_request]) rev (ErrMsg ''unauthorized'') 0 ref_config
     empty_registry ref_srv \<lparr>re_time = 0, re_replies = []\<rparr> web_command [] = Served [] w \<and> wd_store w = ref_srv"
proof -
  let ?c = "\<lparr>re_time = 0, re_replies = []\<rparr>"
  obtain a where a: "new_app (ref_platform False) 0 ref_config (ref_bool (cm_flags web_command) [] ''allow-cold-start'') empty_registry =
      (Inr a, register_metrics 0 empty_registry)" and down: "\<not> is_ok (fst (tc_snapshot (ap_client a) ?c))"
    by (rule ref_init [of False False ?c]) (simp add: new_app_def ref_bool_def web_command_def)
  then obtain answers w where run: "run_web (ref_platform False) (\<lambda>_. True) ref_bool (ref_run [probe_request]) rev
      (ErrMsg ''unauthorized'') 0 ref_config empty_registry ref_srv ?c web_command [] = Served answers w"
    by (simp add: run_web_def app_config_of_def case_prod_unfold Let_def)
  from web_command_fails_closed [OF ref_flags.flag_set_axioms ref_run.server_runner_axioms run, of "time_unix 0"] a down
  have "answers = []" "wd_store w = ref_srv" by auto
  with run show ?thesis by blast
qed

end
