(* ===== verification/Test_App.thy ===== *)
theory Test_App
  imports Running_App
begin

text \<open>
  \<open>testing.go\<close>: the application the tests run, built from an environment the helper sets. How a setting
  gets from the process environment into \<open>Configuration\<close> is Azugo's \<open>server.New\<close>, viper and
  \<open>mapstructure\<close>; they call the worker's \<open>Bind\<close> and \<open>Validate\<close> (the locale \<open>configuration_loader\<close>).
\<close>

section \<open>Reading the whole configuration\<close>

definition app_config_from :: "'b \<Rightarrow> (string \<Rightarrow> setting option) \<Rightarrow> 'b app_config" where
  "app_config_from b get =
     \<lparr>cf_base = b, cf_valkey_url = as_str (get ''valkey_url''), cf_valkey_password = as_str (get ''valkey_password''),
      cf_valkey_key_prefix = as_str (get ''valkey_key_prefix''), cf_trust_service_url = as_str (get ''trust_service_url''),
      cf_sync = sync_config_of get ''trust_sync'', cf_prefetch = prefetch_config_of get ''status_prefetch'',
      cf_auth = auth_config_of get ''trust_auth'', cf_admin_key = as_str (get ''trust_admin_key'')\<rparr>"

text \<open>\<open>dec n s\<close> is the setting that the text \<open>s\<close> of the variable \<open>n\<close> decodes to: durations as
  \<open>time.ParseDuration\<close> reads them, other text as it is. \<open>bs\<close> is the base configuration.\<close>

definition read_env :: "(string \<Rightarrow> string \<Rightarrow> setting) \<Rightarrow> (string \<rightharpoonup> string) \<Rightarrow> string \<Rightarrow> setting option" where
  "read_env dec env n = map_option (dec n) (env n)"

locale configuration_loader = tag_validator vl url + viper_reader get
  for vl :: "field list \<Rightarrow> gerr option" and url :: "string \<Rightarrow> bool"
    and get :: "(string \<Rightarrow> setting option) \<Rightarrow> viper \<Rightarrow> string \<Rightarrow> setting option" +
  fixes lc :: "(string \<rightharpoonup> string) \<Rightarrow> 'b app_config result" and dec :: "string \<Rightarrow> string \<Rightarrow> setting"
    and base :: "'b \<Rightarrow> gerr option" and bs :: 'b and bind :: "viper \<Rightarrow> viper" and load :: "string \<Rightarrow> string result"
    and all :: "string list" and vp0 :: viper
  assumes load_law: "lc env =
      (let cfg = app_config_from bs (get (read_env dec env) (bind_config bind load all vp0))
       in case validate_config base vl cfg of Some e \<Rightarrow> Inl e | None \<Rightarrow> Inr cfg)"
    and own_keys: "distinct (map fst (vp_env (bind vp0) @ settings))"
    and text_law: "n \<in> {''VALKEY_URL'', ''TRUST_SERVICE_URL'', ''TRUST_AUTH_MODE''} \<Longrightarrow> dec n s = VStr s"
    and second_law: "n \<in> {''TRUST_POLL_INTERVAL'', ''TRUST_SNAPSHOT_POLL_INTERVAL'', ''STATUS_PREFETCH_INTERVAL''} \<Longrightarrow>
      dec n ''1s'' = VInt second"
    and days_law: "dec ''TRUST_CACHE_TTL'' ''48h'' = VInt (48 * hour)"

section \<open>The test helpers\<close>

text \<open>\<open>os.Getenv\<close> gives the empty text for a variable that is not set.\<close>

definition getenv :: "(string \<rightharpoonup> string) \<Rightarrow> string \<Rightarrow> string" where
  "getenv env n = (case env n of None \<Rightarrow> [] | Some v \<Rightarrow> v)"

definition test_env :: "string \<Rightarrow> string \<Rightarrow> string \<Rightarrow> (string \<rightharpoonup> string) \<Rightarrow> (string \<rightharpoonup> string)" where
  "test_env trust_url valkey_addr interval env =
     (let e = env(''ENVIRONMENT'' \<mapsto> ''development'', ''SERVICE_NAME'' \<mapsto> ''trust-cache-worker'', ''METRICS_ENABLED'' \<mapsto> ''false'',
            ''VALKEY_URL'' \<mapsto> valkey_addr, ''TRUST_SERVICE_URL'' \<mapsto> trust_url, ''TRUST_AUTH_MODE'' \<mapsto> ''internal'',
            ''TRUST_POLL_INTERVAL'' \<mapsto> interval);
          e1 = (if getenv e ''TRUST_CACHE_TTL'' = [] then e(''TRUST_CACHE_TTL'' \<mapsto> ''48h'') else e)
      in e1(''TRUST_SNAPSHOT_POLL_INTERVAL'' \<mapsto> ''1s'', ''STATUS_PREFETCH_INTERVAL'' \<mapsto> ''1s''))"

text \<open>\<open>None\<close> is a failed assertion. \<open>New\<close> gets no command, so no flag.\<close>

definition test_app_with_poll ::
  "('s, 'c, 'b) platform \<Rightarrow> ((string \<rightharpoonup> string) \<Rightarrow> 'b app_config result) \<Rightarrow> nat \<Rightarrow> registry \<Rightarrow> (string \<rightharpoonup> string)
   \<Rightarrow> string \<Rightarrow> string \<Rightarrow> string \<Rightarrow> ('s, 'c, 'b) app option" where
  "test_app_with_poll L lc ident rg env trust_url valkey_addr interval =
     (case lc (test_env trust_url valkey_addr interval env) of
        Inl e \<Rightarrow> None
      | Inr cfg \<Rightarrow> (case fst (new_app L ident cfg None rg) of Inl e \<Rightarrow> None | Inr a \<Rightarrow> Some a))"

definition test_app_with ::
  "('s, 'c, 'b) platform \<Rightarrow> ((string \<rightharpoonup> string) \<Rightarrow> 'b app_config result) \<Rightarrow> nat \<Rightarrow> registry \<Rightarrow> (string \<rightharpoonup> string)
   \<Rightarrow> string \<Rightarrow> string \<Rightarrow> ('s, 'c, 'b) app option" where
  "test_app_with L lc ident rg env trust_url valkey_addr =
     test_app_with_poll L lc ident rg env trust_url valkey_addr ''1s''"

text \<open>\<open>mini\<close> is the address of the in-process server.\<close>

definition test_app ::
  "('s, 'c, 'b) platform \<Rightarrow> ((string \<rightharpoonup> string) \<Rightarrow> 'b app_config result) \<Rightarrow> nat \<Rightarrow> registry \<Rightarrow> (string \<rightharpoonup> string)
   \<Rightarrow> string \<Rightarrow> ('s, 'c, 'b) app option" where
  "test_app L lc ident rg env mini = test_app_with L lc ident rg env ''http://127.0.0.1:1'' mini"

section \<open>Lemmas\<close>

definition helper_variables :: "string list" where
  "helper_variables =
     [''ENVIRONMENT'', ''SERVICE_NAME'', ''METRICS_ENABLED'', ''VALKEY_URL'', ''TRUST_SERVICE_URL'', ''TRUST_AUTH_MODE'',
      ''TRUST_POLL_INTERVAL'', ''TRUST_CACHE_TTL'', ''TRUST_SNAPSHOT_POLL_INTERVAL'', ''STATUS_PREFETCH_INTERVAL'']"

text \<open>The process environment sets no variable of the worker itself.\<close>

definition clean_env :: "(string \<rightharpoonup> string) \<Rightarrow> bool" where
  "clean_env env \<longleftrightarrow> (\<forall>n \<in> set (map snd settings). env n = None)"

lemma settings_list: "settings =
  [(''valkey_url'', ''VALKEY_URL''), (''valkey_password'', ''VALKEY_PASSWORD''), (''valkey_key_prefix'', ''VALKEY_KEY_PREFIX''),
   (''trust_service_url'', ''TRUST_SERVICE_URL''), (''trust_admin_key'', ''TRUST_ADMIN_KEY''),
   (''trust_sync.poll_interval'', ''TRUST_POLL_INTERVAL''), (''trust_sync.cache_ttl'', ''TRUST_CACHE_TTL''),
   (''trust_sync.snapshot_poll_interval'', ''TRUST_SNAPSHOT_POLL_INTERVAL''), (''trust_sync.types'', ''TRUST_SYNC_TYPES''),
   (''status_prefetch.top_n'', ''STATUS_PREFETCH_TOP_N''), (''status_prefetch.interval'', ''STATUS_PREFETCH_INTERVAL''),
   (''status_prefetch.default_ttl'', ''STATUS_PREFETCH_DEFAULT_TTL''), (''status_prefetch.min_ttl'', ''STATUS_PREFETCH_MIN_TTL''),
   (''status_prefetch.max_ttl'', ''STATUS_PREFETCH_MAX_TTL''), (''status_prefetch.max_bytes'', ''STATUS_PREFETCH_MAX_BYTES''),
   (''trust_auth.mode'', ''TRUST_AUTH_MODE''), (''trust_auth.issuer_url'', ''AUTH_ISSUER_URL''),
   (''trust_auth.audience'', ''TRUST_AUTH_AUDIENCE''), (''trust_auth.scope'', ''TRUST_AUTH_SCOPE''),
   (''trust_auth.client_id'', ''TRUST_AUTH_CLIENT_ID''), (''trust_auth.client_secret'', ''TRUST_AUTH_CLIENT_SECRET''),
   (''trust_auth.timeout'', ''TRUST_AUTH_TIMEOUT'')]"
  by (simp add: settings_def bind_config_def bind_sync_def bind_prefetch_def bind_auth_def)

lemma other_keys: "map fst (filter (\<lambda>(k, e). e \<notin> set helper_variables) settings) =
  [''valkey_password'', ''valkey_key_prefix'', ''trust_admin_key'', ''trust_sync.types'', ''status_prefetch.top_n'',
   ''status_prefetch.default_ttl'', ''status_prefetch.min_ttl'', ''status_prefetch.max_ttl'', ''status_prefetch.max_bytes'',
   ''trust_auth.issuer_url'', ''trust_auth.audience'', ''trust_auth.scope'', ''trust_auth.client_id'',
   ''trust_auth.client_secret'', ''trust_auth.timeout'']"
  by (simp add: settings_list helper_variables_def)

lemma test_env_lookup:
  assumes "env ''TRUST_CACHE_TTL'' = None"
  shows "test_env trust_url valkey_addr interval env n =
    (if n = ''STATUS_PREFETCH_INTERVAL'' \<or> n = ''TRUST_SNAPSHOT_POLL_INTERVAL'' then Some ''1s''
     else if n = ''TRUST_CACHE_TTL'' then Some ''48h'' else if n = ''TRUST_POLL_INTERVAL'' then Some interval
     else if n = ''TRUST_AUTH_MODE'' then Some ''internal'' else if n = ''TRUST_SERVICE_URL'' then Some trust_url
     else if n = ''VALKEY_URL'' then Some valkey_addr else if n = ''METRICS_ENABLED'' then Some ''false''
     else if n = ''SERVICE_NAME'' then Some ''trust-cache-worker'' else if n = ''ENVIRONMENT'' then Some ''development''
     else env n)"
proof -
  have "getenv (env(''ENVIRONMENT'' \<mapsto> a, ''SERVICE_NAME'' \<mapsto> b, ''METRICS_ENABLED'' \<mapsto> c, ''VALKEY_URL'' \<mapsto> valkey_addr,
      ''TRUST_SERVICE_URL'' \<mapsto> trust_url, ''TRUST_AUTH_MODE'' \<mapsto> d, ''TRUST_POLL_INTERVAL'' \<mapsto> interval)) ''TRUST_CACHE_TTL'' = []" for a b c d
    using assms by (simp add: getenv_def)
  then show ?thesis by (simp only: test_env_def Let_def if_True fun_upd_apply if_bool_eq_conj) simp
qed

context configuration_loader
begin

lemma get_bound:
  assumes "(k, e) \<in> set settings"
  shows "get (read_env dec env) (bind_config bind load all vp0) k =
    (case env e of Some s \<Rightarrow> Some (dec e s) | None \<Rightarrow> vp_default (bind_config bind load all vp0) k)"
proof -
  let ?vp = "bind_config bind load all vp0"
  have d: "distinct (map fst (vp_env ?vp))" and m: "(k, e) \<in> set (vp_env ?vp)"
    using own_keys assms by (simp_all add: settings_bound)
  show ?thesis
  proof (cases "env e")
    case None
    have "e' = e" if "(k, e') \<in> set (vp_env ?vp)" for e' using d m that by (metis eq_key_imp_eq_value)
    with None show ?thesis by (auto simp: read_env_def intro!: get_default)
  next
    case (Some s)
    then show ?thesis using get_env [OF d m] by (simp add: read_env_def)
  qed
qed

text \<open>The settings of the test environment, read with the worker's own defaults.\<close>

lemma test_settings:
  fixes trust_url valkey_addr interval :: string
  assumes "clean_env env"
  defines "g \<equiv> get (read_env dec (test_env trust_url valkey_addr interval env)) (bind_config bind load all vp0)"
  shows "g ''valkey_url'' = Some (VStr valkey_addr)" "g ''trust_service_url'' = Some (VStr trust_url)"
    "g ''trust_sync.poll_interval'' = Some (dec ''TRUST_POLL_INTERVAL'' interval)"
    "g ''trust_sync.cache_ttl'' = Some (VInt (48 * hour))" "g ''trust_sync.snapshot_poll_interval'' = Some (VInt second)"
    "g ''status_prefetch.interval'' = Some (VInt second)" "g ''trust_auth.mode'' = Some (VStr mode_internal)"
    "k \<in> set (map fst (filter (\<lambda>(k, e). e \<notin> set helper_variables) settings)) \<Longrightarrow>
      g k = vp_default (bind_config bind load all vp0) k"
proof -
  note unset = assms(1) [unfolded clean_env_def settings_list, simplified]
  have ttl: "env ''TRUST_CACHE_TTL'' = None" using unset by simp
  note env_simps = test_env_lookup [of env, OF ttl]
  have look: "g k = (case test_env trust_url valkey_addr interval env e of
      Some t \<Rightarrow> Some (dec e t) | None \<Rightarrow> vp_default (bind_config bind load all vp0) k)"
    if "(k, e) \<in> set settings" for k e
    unfolding g_def by (rule get_bound [OF that])
  show "g ''valkey_url'' = Some (VStr valkey_addr)"
    using look [where e = "''VALKEY_URL''"] by (simp add: settings_list env_simps text_law)
  show "g ''trust_service_url'' = Some (VStr trust_url)"
    using look [where e = "''TRUST_SERVICE_URL''"] by (simp add: settings_list env_simps text_law)
  show "g ''trust_sync.poll_interval'' = Some (dec ''TRUST_POLL_INTERVAL'' interval)"
    using look [where e = "''TRUST_POLL_INTERVAL''"] by (simp add: settings_list env_simps )
  show "g ''trust_sync.cache_ttl'' = Some (VInt (48 * hour))"
    using look [where e = "''TRUST_CACHE_TTL''"] by (simp add: settings_list env_simps days_law)
  show "g ''trust_sync.snapshot_poll_interval'' = Some (VInt second)"
    using look [where e = "''TRUST_SNAPSHOT_POLL_INTERVAL''"] by (simp add: settings_list env_simps second_law)
  show "g ''status_prefetch.interval'' = Some (VInt second)"
    using look [where e = "''STATUS_PREFETCH_INTERVAL''"] by (simp add: settings_list env_simps second_law)
  show "g ''trust_auth.mode'' = Some (VStr mode_internal)"
    using look [where e = "''TRUST_AUTH_MODE''"] by (simp add: settings_list env_simps text_law mode_internal_def)
  show "g k = vp_default (bind_config bind load all vp0) k"
    if "k \<in> set (map fst (filter (\<lambda>(k, e). e \<notin> set helper_variables) settings))"
  proof -
    from that obtain e where e: "(k, e) \<in> set settings" "e \<notin> set helper_variables" by auto
    then have "env e = None" using assms(1) by (force simp: clean_env_def)
    with e(2) show ?thesis using look [OF e(1)] by (simp add: env_simps helper_variables_def)
  qed
qed

lemma test_config_loads:
  assumes "clean_env env" "parse_types all = Inr ts" "all \<noteq> []" "base bs = None" "valkey_addr \<noteq> []" "trust_url \<noteq> []" "url trust_url"
    and "dec ''TRUST_POLL_INTERVAL'' interval = VInt iv" "vp_default (bind vp0) ''trust_auth.issuer_url'' = None"
  shows "is_ok (lc (test_env trust_url valkey_addr interval env)) \<longleftrightarrow> 0 < iv \<and> iv < 48 * hour"
    "lc (test_env trust_url valkey_addr interval env) = Inr cfg \<Longrightarrow>
      cf_trust_service_url cfg = trust_url \<and> cf_valkey_url cfg = valkey_addr \<and> ac_mode (cf_auth cfg) = mode_internal \<and>
      cf_sync cfg = \<lparr>sc_poll_interval = iv, sc_cache_ttl = 48 * hour, sc_snapshot_poll_interval = second, sc_types = all\<rparr> \<and>
      pc_interval (cf_prefetch cfg) = second"
proof -
  let ?g = "get (read_env dec (test_env trust_url valkey_addr interval env)) (bind_config bind load all vp0)"
  note g = test_settings [where trust_url = trust_url and valkey_addr = valkey_addr and interval = interval, OF assms(1)]
  note d = g(8) [unfolded other_keys] and vd = bind_config_def bind_sync_def bind_prefetch_def bind_auth_def load_secret_other
  have t: "?g ''trust_sync.types'' = Some (VStrs all)" by (subst d) (simp_all add: vd)
  have p: "?g ''status_prefetch.top_n'' = Some (VInt 50)" "?g ''status_prefetch.default_ttl'' = Some (VInt (5 * minute))"
    "?g ''status_prefetch.min_ttl'' = Some (VInt (30 * second))" "?g ''status_prefetch.max_ttl'' = Some (VInt (24 * hour))"
    "?g ''status_prefetch.max_bytes'' = Some (VInt (2 ^ 20))"
    by (subst d; simp add: vd)+
  have a: "?g ''trust_auth.issuer_url'' = None" "?g ''trust_auth.audience'' = Some (VStr ''svc:trust-anchor'')"
    "?g ''trust_auth.scope'' = Some (VStr ''trust:read'')" "?g ''trust_auth.timeout'' = Some (VInt (15 * second))"
    by (subst d; simp add: vd assms(9))+
  let ?cfg = "app_config_from bs ?g"
  have s: "cf_sync ?cfg = \<lparr>sc_poll_interval = iv, sc_cache_ttl = 48 * hour, sc_snapshot_poll_interval = second, sc_types = all\<rparr>"
    using g assms(8) t by (simp add: app_config_from_def sync_config_of_def)
  have q: "cf_prefetch ?cfg = \<lparr>pc_top_n = 50, pc_interval = second, pc_default_ttl = 5 * minute, pc_min_ttl = 30 * second,
      pc_max_ttl = 24 * hour, pc_max_bytes = 2 ^ 20\<rparr>"
    using g p by (simp add: app_config_from_def prefetch_config_of_def)
  have u: "ac_mode (cf_auth ?cfg) = mode_internal" "ac_issuer_url (cf_auth ?cfg) = []" "ac_audience (cf_auth ?cfg) \<noteq> []"
    "ac_scope (cf_auth ?cfg) \<noteq> []" "0 < ac_timeout (cf_auth ?cfg)"
    using g a by (simp_all add: app_config_from_def auth_config_of_def second_def)
  have c: "cf_valkey_url ?cfg = valkey_addr" "cf_trust_service_url ?cfg = trust_url" "cf_base ?cfg = bs"
    using g by (simp_all add: app_config_from_def)
  have v: "validate_config base vl ?cfg = None \<longleftrightarrow> 0 < iv \<and> iv < 48 * hour"
    using assms(2-7) by (simp add: validate_config_ok validate_sync_ok validate_prefetch_ok validate_auth_ok s q u c is_ok_def
      mode_dpop_def mode_internal_def minute_def second_def hour_def)
  show "is_ok (lc (test_env trust_url valkey_addr interval env)) \<longleftrightarrow> 0 < iv \<and> iv < 48 * hour"
    using v by (auto simp: load_law is_ok_def split: option.splits)
  have "cfg = ?cfg" if "lc (test_env trust_url valkey_addr interval env) = Inr cfg"
    using that by (simp add: load_law Let_def split: option.splits)
  then show "lc (test_env trust_url valkey_addr interval env) = Inr cfg \<Longrightarrow>
      cf_trust_service_url cfg = trust_url \<and> cf_valkey_url cfg = valkey_addr \<and> ac_mode (cf_auth cfg) = mode_internal \<and>
      cf_sync cfg = \<lparr>sc_poll_interval = iv, sc_cache_ttl = 48 * hour, sc_snapshot_poll_interval = second, sc_types = all\<rparr> \<and>
      pc_interval (cf_prefetch cfg) = second"
    using s q u(1) c by simp
qed

end

section \<open>A reference loader\<close>

definition ref_dec :: "string \<Rightarrow> string \<Rightarrow> setting" where
  "ref_dec n s =
     (if n \<in> {''TRUST_POLL_INTERVAL'', ''TRUST_SNAPSHOT_POLL_INTERVAL'', ''STATUS_PREFETCH_INTERVAL'', ''TRUST_CACHE_TTL''}
      then VInt (if s = ''1s'' then second else if s = ''24h'' then 24 * hour else if s = ''48h'' then 48 * hour else 0)
      else VStr s)"

definition no_viper :: viper where
  "no_viper = \<lparr>vp_default = Map.empty, vp_env = []\<rparr>"

definition ref_loader :: "(string \<rightharpoonup> string) \<Rightarrow> unit app_config result" where
  "ref_loader env =
     (let cfg = app_config_from () (ref_get (read_env ref_dec env)
            (bind_config (\<lambda>vp. vp) (\<lambda>_. Inl ValkeyNil) [''pid_provider''] no_viper))
      in case validate_config (\<lambda>_. None) ref_validator cfg of Some e \<Rightarrow> Inl e | None \<Rightarrow> Inr cfg)"

interpretation ref_loader: configuration_loader ref_validator ref_url ref_get ref_loader ref_dec "\<lambda>_. None" "()" "\<lambda>vp. vp"
    "\<lambda>_. Inl ValkeyNil" "[''pid_provider'']" no_viper
proof unfold_locales
  show "ref_loader env = (let cfg = app_config_from () (ref_get (read_env ref_dec env)
            (bind_config (\<lambda>vp. vp) (\<lambda>_. Inl ValkeyNil) [''pid_provider''] no_viper))
      in case validate_config (\<lambda>_. None) ref_validator cfg of Some e \<Rightarrow> Inl e | None \<Rightarrow> Inr cfg)" for env
    by (rule ref_loader_def)
  show "distinct (map fst (vp_env no_viper @ settings))" using settings_distinct(1) by (simp add: no_viper_def)
qed (auto simp: ref_dec_def)

text \<open>The test application with a daily poll: it builds, against a trust service that is not there.\<close>

lemma test_app_instance: "is_ok (ref_loader (test_env ''http://127.0.0.1:1'' ''127.0.0.1:6379'' ''24h'' Map.empty))"
  by (subst ref_loader.test_config_loads [where iv = "24 * hour" and ts = "[PIDProvider]"])
    (simp_all add: clean_env_def ref_parse ref_url_def ref_dec_def no_viper_def second_def minute_def hour_def)

end
