(* ===== verification/Metric_Labels.thy ===== *)
theory Metric_Labels
  imports Running_App
begin

text \<open>
  What the worker exports: the events of every step against the README's metrics table, and the names in
  the gauge registry.
\<close>

section \<open>The table\<close>

fun event_listed :: "metric_event \<Rightarrow> bool" where
  "event_listed (IncCounter n ls) =
     (n = ''trust_cache_sync_total'' \<and>
        (\<exists>k \<in> set wire_names. \<exists>v \<in> {''updated'', ''not_modified'', ''error''}. ls = [(''type'', k), (''outcome'', v)]) \<or>
      n = ''trust_cache_snapshot_poll_total'' \<and> (\<exists>v \<in> {''success'', ''error''}. ls = [(''outcome'', v)]) \<or>
      n = ''trust_cache_statuslist_prefetch_total'' \<and> (\<exists>v \<in> {''hit'', ''refreshed'', ''error''}. ls = [(''outcome'', v)]))"
| "event_listed (ObserveSeconds n ls d) =
     (n = ''trust_cache_sync_duration_seconds'' \<and> (\<exists>k \<in> set wire_names. ls = [(''type'', k)]))"

text \<open>\<open>codes\<close> are the territory codes that can occur.\<close>

fun gauge_listed :: "string set \<Rightarrow> gauge_name \<Rightarrow> bool" where
  "gauge_listed codes (FixedName n) =
     (n \<in> {''trust_cache_lotl_sequence'', ''trust_cache_upstream_stale'', ''trust_cache_pending_bootstrap''})"
| "gauge_listed codes (LabelName n l v) =
     (n = ''trust_cache_anchor_staleness_seconds'' \<and> l = ''type'' \<and> v \<in> set wire_names \<or>
      n = ''trust_cache_territory_stale'' \<and> l = ''territory'' \<and> v \<in> codes)"

section \<open>The events of a step\<close>

lemma sync_type_metrics:
  assumes "sync_type S t w = (r, w')" "wire_type t = Inr k"
  obtains d v where "v \<in> {''updated'', ''not_modified'', ''error''}" "v = ''error'' \<longleftrightarrow> \<not> is_ok r"
    "ob_metrics (wd_obs w') = ob_metrics (wd_obs w) @
      [ObserveSeconds ''trust_cache_sync_duration_seconds'' [(''type'', k)] d, IncCounter ''trust_cache_sync_total'' (sync_labels k v)]"
proof -
  have p: "ob_metrics (wd_obs (polled S t k c w)) = ob_metrics (wd_obs w) @
      [ObserveSeconds ''trust_cache_sync_duration_seconds'' [(''type'', k)]
        (time_sub (fst (sy_now S (snd (anchors_call S t w)))) (fst (sy_now S (wd_env w))))]" for c
    by (simp add: polled_def)
  show ?thesis
    by (rule sync_type_cases [OF assms(2,1)]; rule that) (simp_all add: p)
qed

lemma prefetch_one_metrics:
  obtains v where "v \<in> {''hit'', ''refreshed'', ''error''}"
    "ob_metrics (wd_obs (prefetch_one P u w)) =
       ob_metrics (wd_obs w) @ [IncCounter ''trust_cache_statuslist_prefetch_total'' [outcome v]]"
proof (rule prefetch_one_cases [of P u w], goal_cases ttl_error hit fetch_error written)
  case (written x s body c now c2 q s2)
  then show ?case by (cases q) (simp_all add: that [of "''error''"] that [of "''refreshed''"])
qed (simp_all add: that [of "''error''"] that [of "''hit''"])

lemma poll_metrics:
  assumes "poll P w = (r, w')"
  obtains v where "v \<in> {''success'', ''error''}"
    "ob_metrics (wd_obs w') = ob_metrics (wd_obs w) @ [IncCounter ''trust_cache_snapshot_poll_total'' [outcome v]]"
  by (rule poll_cases [OF assms]; rule that) (simp_all add: count_poll_def)

lemma trim_refs_metrics [simp]: "ob_metrics (wd_obs (trim_refs P w)) = ob_metrics (wd_obs w)"
  by (simp add: trim_refs_def Let_def split: sum.splits prod.splits)

lemma app_step_metrics:
  assumes "app_step we wi wfr W w w'"
  obtains ms where "ob_metrics (wd_obs w') = ob_metrics (wd_obs w) @ ms" "list_all event_listed ms"
  using assms
proof cases
  case (sync t r)
  show ?thesis
  proof (cases "wire_type t")
    case (Inl e)
    with sync that [of "[]"] show ?thesis by (simp add: sync_type_def)
  next
    case (Inr k)
    obtain d v where v: "v \<in> {''updated'', ''not_modified'', ''error''}"
      "ob_metrics (wd_obs w') = ob_metrics (wd_obs w) @ [ObserveSeconds ''trust_cache_sync_duration_seconds'' [(''type'', k)] d,
         IncCounter ''trust_cache_sync_total'' (sync_labels k v)]"
      by (rule sync_type_metrics [OF sync(1) Inr])
    from that [OF v(2)] v(1) wire_type_in_names [OF Inr] show ?thesis by (simp add: sync_labels_def outcome_def)
  qed
next
  case (snapshot r)
  show ?thesis by (rule poll_metrics [OF snapshot]) (rule that, assumption, simp add: outcome_def)
next
  case (one_list u)
  show ?thesis
    by (rule prefetch_one_metrics [of "wk_prefetcher W" u w]) (rule that, simp add: one_list, simp add: outcome_def)
qed (rule that [of "[]"], simp_all)+

section \<open>The gauges of a step\<close>

definition names_listed :: "string set \<Rightarrow> registry \<Rightarrow> bool" where
  "names_listed codes rg \<longleftrightarrow> (\<forall>n \<in> fst ` set (rg_gauges rg). gauge_listed codes n)"

lemma names_listed_simps [simp]:
  "names_listed codes (rg\<lparr>rg_current := a\<rparr>) = names_listed codes rg" "names_listed codes (rg\<lparr>rg_once := b\<rparr>) = names_listed codes rg"
  "names_listed codes (rg\<lparr>rg_labels := ls\<rparr>) = names_listed codes rg"
  by (simp_all add: names_listed_def)

lemma names_listed_create:
  "names_listed codes rg \<Longrightarrow> gauge_listed codes n \<Longrightarrow> names_listed codes (get_or_create_gauge n g rg)"
  by (auto simp: names_listed_def get_or_create_gauge_def)

lemma names_listed_label: "names_listed codes rg \<Longrightarrow> gauge_listed codes n \<Longrightarrow> names_listed codes (register_label n g rg)"
  by (simp add: register_label_def names_listed_create)

lemma names_listed_type:
  "names_listed codes rg \<Longrightarrow> k \<in> set wire_names \<Longrightarrow> names_listed codes (register_type_gauge k rg)"
  unfolding register_type_gauge_def by (rule names_listed_label) (simp_all add: type_gauge_name_def)

lemma names_listed_territories:
  "names_listed codes rg \<Longrightarrow> set cs \<subseteq> codes \<Longrightarrow> names_listed codes (fold register_territory_gauge cs rg)"
proof (induction cs arbitrary: rg)
  case (Cons c cs)
  have "names_listed codes (register_territory_gauge c rg)"
    unfolding register_territory_gauge_def using Cons.prems by (intro names_listed_label) (simp_all add: territory_gauge_name_def)
  with Cons show ?case by simp
qed simp

lemma names_listed_metrics: "names_listed codes rg \<Longrightarrow> names_listed codes (register_metrics a rg)"
  by (simp add: register_metrics_def Let_def names_listed_create)

lemma prefetch_one_reg [simp]: "wd_reg (prefetch_one P u w) = wd_reg w"
  by (simp add: prefetch_one_def Let_def count_prefetch_def warn_list_def split: sum.splits prod.splits)

lemma trim_refs_reg [simp]: "wd_reg (trim_refs P w) = wd_reg w"
  by (simp add: trim_refs_def Let_def split: sum.splits prod.splits)

lemma app_step_names:
  assumes "app_step we wi wfr W w w'" "\<forall>c. iteration_order (po_order (wk_poller W) c)"
    and "\<forall>c meta. fst (tc_snapshot (po_client (wk_poller W)) c) = Inr meta \<longrightarrow> ts_code ` set (sm_territories meta) \<subseteq> A"
    and "names_listed (normalize_territory (po_keys (wk_poller W)) ` A) (wd_reg w)"
  shows "names_listed (normalize_territory (po_keys (wk_poller W)) ` A) (wd_reg w')"
  using assms(1)
proof cases
  case (sync t r)
  show ?thesis
  proof (cases "wire_type t")
    case (Inl e)
    with sync assms(4) show ?thesis by (simp add: sync_type_def)
  next
    case (Inr k)
    show ?thesis
      by (rule sync_type_cases [OF Inr sync(1)]) (use assms(4) wire_type_in_names [OF Inr] in \<open>simp_all add: names_listed_type\<close>)
  qed
next
  case (snapshot r)
  show ?thesis
  proof (rule poll_cases [OF snapshot], goal_cases upstream unpublished published)
    case (published meta s c ls)
    have "set (po_order (wk_poller W) c cs) = set cs" for cs using assms(2) iteration_orderD(1) by blast
    moreover have "ts_code ` set (sm_territories meta) \<subseteq> A"
      using assms(3) published(1) by (simp add: snapshot_call_def)
    ultimately have "set (po_order (wk_poller W) c (territory_codes (normalize_territory (po_keys (wk_poller W)))
        (sm_territories meta))) \<subseteq> normalize_territory (po_keys (wk_poller W)) ` A"
      by (auto simp: territory_codes_def)
    from names_listed_territories [OF assms(4) this] published(6) show ?case by simp
  qed (use assms(4) in \<open>simp_all add: count_poll_def\<close>)
qed (use assms(4) in simp_all)

lemma poll_registers_codes:
  assumes "poll P w = (Inr (), w')" "fst (snapshot_call P w) = Inr meta" "registry_ok (wd_reg w)"
    and "\<forall>c. iteration_order (po_order P c)" "t \<in> set (sm_territories meta)"
  shows "has_gauge (wd_reg w') (GTerritory (normalize_territory (po_keys P) (ts_code t)))"
proof (rule poll_cases [OF assms(1)], goal_cases upstream unpublished published)
  case (published meta' s c ls)
  have "set (po_order P c cs) = set cs" for cs using assms(4) iteration_orderD(1) by blast
  moreover from published(1) assms(2,5) have "normalize_territory (po_keys P) (ts_code t) \<in>
      set (territory_codes (normalize_territory (po_keys P)) (sm_territories meta'))"
    by (simp add: territory_codes_def)
  ultimately show ?case using register_territories_ok [OF assms(3)] published(6) by simp
qed simp_all

section \<open>Properties\<close>

text \<open>
  C23. Metric labels other than the territory's come from closed sets, and that one is only as closed as what the trust
  service sends: whatever the loops meet, every counter and histogram event is one of the README's table, its \<open>type\<close> one
  of the taxonomy's names and its \<open>outcome\<close> one of the listed words; every gauge is one of the three fixed ones, or one
  per known type, or, when the snapshots list territories with codes of \<open>A\<close> only, one per normalized code of \<open>A\<close>.
\<close>

theorem metric_labels_closed:
  assumes "new_app L ident cfg flag rg = (Inr a, rg')" "\<forall>c. iteration_order (lb_order L c)"
    and "\<forall>c meta. fst (tc_snapshot (po_client (wk_poller (ap_worker a))) c) = Inr meta \<longrightarrow>
      ts_code ` set (sm_territories meta) \<subseteq> A"
    and "names_listed (normalize_territory (lb_keys L) ` A) rg"
    and "(app_step we wi wfr (ap_worker a))\<^sup>*\<^sup>* (start_world a s c) w"
  shows "list_all event_listed (ob_metrics (wd_obs w)) \<and>
    (\<forall>n \<in> fst ` set (rg_gauges (wd_reg w)).
       n \<in> FixedName ` {''trust_cache_lotl_sequence'', ''trust_cache_upstream_stale'', ''trust_cache_pending_bootstrap''} \<or>
       n \<in> LabelName ''trust_cache_anchor_staleness_seconds'' ''type'' ` set wire_names \<or>
       n \<in> LabelName ''trust_cache_territory_stale'' ''territory'' ` normalize_territory (lb_keys L) ` A)"
proof -
  have wired: "po_order (wk_poller (ap_worker a)) = lb_order L" "po_keys (wk_poller (ap_worker a)) = lb_keys L"
    "ap_reg a = register_metrics ident rg"
    by (rule app_init_ok [OF new_app_init [OF assms(1)]], simp add: wire_worker_def new_poller_def)+
  from assms(5) have "list_all event_listed (ob_metrics (wd_obs w)) \<and>
    names_listed (normalize_territory (lb_keys L) ` A) (wd_reg w)"
  proof (induction rule: rtranclp_induct)
    case base
    show ?case using assms(4) by (simp add: start_world_def no_obs_def wired names_listed_metrics)
  next
    case (step w1 w2)
    obtain ms where "ob_metrics (wd_obs w2) = ob_metrics (wd_obs w1) @ ms" "list_all event_listed ms"
      by (rule app_step_metrics [OF step(2)])
    moreover have "names_listed (normalize_territory (lb_keys L) ` A) (wd_reg w2)"
      using app_step_names [OF step(2) _ assms(3)] assms(2) step.IH wired by simp
    ultimately show ?case using step.IH by simp
  qed
  then show ?thesis
    unfolding names_listed_def by (auto elim!: gauge_listed.elims(2) dest!: bspec)
qed

lemma ref_platform_codes:
  assumes "new_app (ref_platform False) 0 ref_config (Some True) empty_registry = (Inr a, rg')"
  shows "fst (tc_snapshot (po_client (wk_poller (ap_worker a))) c) \<noteq> Inr meta"
  by (rule app_init_ok [OF new_app_init [OF assms]])
    (auto simp: wire_worker_def new_poller_def ref_platform_def ref_client_def)

theorem metric_labels_closed_witness:
  "\<exists>(a :: (refsrv, ref_env, unit) app) w.
     (app_step (\<lambda>_. True) (\<lambda>_. True) (\<lambda>_. True) (ap_worker a))\<^sup>*\<^sup>* (start_world a ref_srv cold_env) w \<and>
     ob_metrics (wd_obs w) \<noteq> [] \<and> list_all event_listed (ob_metrics (wd_obs w))"
proof -
  obtain a w where a: "new_app (ref_platform False) 0 ref_config (Some True) empty_registry = (Inr a, register_metrics 0 empty_registry)"
    and run: "sync_type ref_syncer PIDProvider (start_world a ref_srv cold_env) = (Inr (), w)"
    and step: "app_step (\<lambda>_. True) (\<lambda>_. True) (\<lambda>_. True) (ap_worker a) (start_world a ref_srv cold_env) w"
    by (rule cold_run)
  have steps: "(app_step (\<lambda>_. True) (\<lambda>_. True) (\<lambda>_. True) (ap_worker a))\<^sup>*\<^sup>* (start_world a ref_srv cold_env) w"
    using step by (rule r_into_rtranclp)
  have "ob_metrics (wd_obs w) \<noteq> []" by (rule sync_type_metrics [OF run wire_pid]) simp
  with metric_labels_closed [where A = "{}", OF a _ _ _ steps] ref_platform_codes [OF a] steps show ?thesis
    by (intro exI [of _ a] exI [of _ w]) (simp add: iteration_order_rev names_listed_def empty_registry_def)
qed

text \<open>
  The territory label is not bounded by the worker: whatever code a snapshot lists, one successful poll leaves a
  gauge labelled with its normalization in the registry; neither the configuration nor the worker knows a list of codes.
\<close>

lemma any_listed_code_becomes_label:
  assumes "poll P w = (Inr (), w')" "fst (tc_snapshot (po_client P) (wd_env w)) = Inr meta" "t \<in> set (sm_territories meta)"
    and "registry_ok (wd_reg w)" "\<forall>c. iteration_order (po_order P c)"
  shows "(LabelName ''trust_cache_territory_stale'' ''territory'' (normalize_territory (po_keys P) (ts_code t)),
    GTerritory (normalize_territory (po_keys P) (ts_code t))) \<in> set (rg_gauges (wd_reg w'))"
  using poll_registers_codes [OF assms(1) _ assms(4,5,3)] assms(2)
  by (simp add: snapshot_call_def has_gauge_def territory_gauge_name_def)

definition stray_meta :: snapshot_meta where
  "stray_meta = sample_meta\<lparr>sm_territories :=
     [\<lparr>ts_code = ''HTTPS://ISSUER.EXAMPLE/1'', ts_tl_sequence = 1, ts_stale = False, ts_next_update = None\<rparr>]\<rparr>"

lemma any_listed_code_becomes_label_instance:
  "\<exists>w'. poll (ref_poller (Inr stray_meta)) poller_world = (Inr (), w') \<and>
     LabelName ''trust_cache_territory_stale'' ''territory'' ''HTTPS://ISSUER.EXAMPLE/1''
       \<in> fst ` set (rg_gauges (wd_reg w'))"
proof -
  obtain r w' where run: "poll (ref_poller (Inr stray_meta)) poller_world = (r, w')" by force
  have ok: "r = Inr ()"
  proof (rule poll_cases [OF run], goal_cases upstream unpublished published)
    case (unpublished meta e s c)
    then have "\<exists>k h. set_json ref_store (enc_health ref_codec) k h (15 * minute) ref_srv = (Inl e, s)"
      by (auto simp: ref_poller_def valkey_snapshots_def poller_world_def)
    then show ?case using ref_set_json_ok by (metis fst_conv sum.distinct(1))
  qed (simp_all add: snapshot_call_def ref_poller_def)
  from run ok have poll: "poll (ref_poller (Inr stray_meta)) poller_world = (Inr (), w')" by simp
  have s: "fst (tc_snapshot (po_client (ref_poller (Inr stray_meta))) (wd_env poller_world)) = Inr stray_meta"
    "hd (sm_territories stray_meta) \<in> set (sm_territories stray_meta)" "registry_ok (wd_reg poller_world)"
    "\<forall>c. iteration_order (po_order (ref_poller (Inr stray_meta)) c)"
    by (simp_all add: ref_poller_def stray_meta_def poller_world_def registry_ok_def empty_registry_def iteration_order_rev)
  have code: "normalize_territory ref_keys ''HTTPS://ISSUER.EXAMPLE/1'' = ''HTTPS://ISSUER.EXAMPLE/1''"
    by (simp add: ref_keys_def readme_keys_def upper_char_def)
  from any_listed_code_becomes_label [OF poll s] poll show ?thesis
    by (force simp: stray_meta_def ref_poller_def code)
qed

end
