(* ===== verification/Outage.thy ===== *)
theory Outage
  imports Metric_Labels
begin

text \<open>
  What an outage of the trust service comes to: readiness is a lease of one cache TTL that only a
  successful poll renews. The steps are those of \<open>Worker_Loops\<close> together with any passage of time, during
  which the server may also expire or lose keys (\<open>idle\<close>). What the worker has achieved is read off its own
  counters.
\<close>

section \<open>Counters\<close>

definition counter :: "string \<Rightarrow> (string \<times> string) list \<Rightarrow> obs \<Rightarrow> nat" where
  "counter name labels ob = count_list (ob_metrics ob) (IncCounter name labels)"

text \<open>The polls of a type that ended well.\<close>

definition synced_polls :: "string \<Rightarrow> obs \<Rightarrow> nat" where
  "synced_polls k ob =
     counter ''trust_cache_sync_total'' (sync_labels k ''updated'') ob +
     counter ''trust_cache_sync_total'' (sync_labels k ''not_modified'') ob"

lemma synced_polls_log [simp]: "synced_polls k (add_log l s fs ob) = synced_polls k ob"
  by (simp add: synced_polls_def counter_def)

text \<open>Events other than the end of a poll of the type leave the count.\<close>

lemma synced_polls_same:
  assumes "ob_metrics ob' = ob_metrics ob @ ms" "\<forall>v \<in> {''updated'', ''not_modified''}.
      IncCounter ''trust_cache_sync_total'' (sync_labels k v) \<notin> set ms"
  shows "synced_polls k ob' = synced_polls k ob"
  using assms by (simp add: synced_polls_def counter_def)

definition idle :: "('c \<Rightarrow> int) \<Rightarrow> ('s, 'c) world \<Rightarrow> ('s, 'c) world \<Rightarrow> bool" where
  "idle clk w w' \<longleftrightarrow>
     clk (wd_env w) \<le> clk (wd_env w') \<and> wd_health w' = wd_health w \<and> wd_reg w' = wd_reg w \<and>
     wd_etags w' = wd_etags w \<and> wd_obs w' = wd_obs w"

definition life_step ::
  "(anchor_set_entry \<Rightarrow> bool) \<Rightarrow> (string list \<Rightarrow> bool) \<Rightarrow> (type_freshness \<Rightarrow> bool) \<Rightarrow> ('c \<Rightarrow> int) \<Rightarrow> ('s, 'c) worker
   \<Rightarrow> ('s, 'c) world \<Rightarrow> ('s, 'c) world \<Rightarrow> bool" where
  "life_step we wi wfr clk W w w' \<longleftrightarrow> app_step we wi wfr W w w' \<or> idle clk w w'"

section \<open>What a step does to the lease\<close>

text \<open>A poll of type \<open>j\<close> touches the record of \<open>j\<close> only, and only together with the counter.\<close>

lemma sync_type_lease:
  assumes "sync_type S t w = (r, w')"
  shows "synced_polls k (wd_obs w) \<le> synced_polls k (wd_obs w') \<and>
    (synced_polls k (wd_obs w') = synced_polls k (wd_obs w) \<longrightarrow> hs_fresh (wd_health w') k = hs_fresh (wd_health w) k)"
proof (cases "wire_type t")
  case (Inl e)
  with assms show ?thesis by (simp add: sync_type_def)
next
  case (Inr j)
  obtain d v where v: "v \<in> {''updated'', ''not_modified'', ''error''}" "v = ''error'' \<longleftrightarrow> \<not> is_ok r"
    and m: "ob_metrics (wd_obs w') = ob_metrics (wd_obs w) @ [ObserveSeconds ''trust_cache_sync_duration_seconds'' [(''type'', j)] d,
       IncCounter ''trust_cache_sync_total'' (sync_labels j v)]"
    by (rule sync_type_metrics [OF assms Inr])
  have n: "synced_polls k (wd_obs w') = synced_polls k (wd_obs w) + (if j = k \<and> v \<noteq> ''error'' then 1 else 0)"
    using v(1) m by (auto simp: synced_polls_def counter_def sync_labels_def outcome_def)
  have "hs_fresh (wd_health w') k = hs_fresh (wd_health w) k" if "j \<noteq> k \<or> \<not> is_ok r"
    by (rule sync_type_record [OF Inr assms]) (use that in auto)
  with n v(2) show ?thesis by auto
qed

lemma lease_step:
  assumes "life_step we wi wfr clk W w w'"
  shows "synced_polls k (wd_obs w) \<le> synced_polls k (wd_obs w') \<and>
    (synced_polls k (wd_obs w') = synced_polls k (wd_obs w) \<longrightarrow> hs_fresh (wd_health w') k = hs_fresh (wd_health w) k)"
  using assms unfolding life_step_def
proof (elim disjE)
  assume "app_step we wi wfr W w w'"
  then show ?thesis
  proof cases
    case (sync t r)
    then show ?thesis using sync_type_lease by blast
  next
    case (snapshot r)
    have "hs_fresh (wd_health w') = hs_fresh (wd_health w)" by (rule poll_cases [OF snapshot]) auto
    moreover have "synced_polls k (wd_obs w') = synced_polls k (wd_obs w)"
      by (rule poll_metrics [OF snapshot], rule synced_polls_same, assumption) simp
    ultimately show ?thesis by simp
  next
    case (one_list u)
    have "synced_polls k (wd_obs w') = synced_polls k (wd_obs w)"
      unfolding one_list by (rule prefetch_one_metrics, rule synced_polls_same, assumption) simp
    with one_list show ?thesis by simp
  next
    case trim
    have "synced_polls k (wd_obs w') = synced_polls k (wd_obs w)"
      unfolding trim by (rule synced_polls_same [where ms = "[]"]) simp_all
    with trim show ?thesis by simp
  qed simp_all
qed (simp add: idle_def)

lemma lease_steps:
  assumes "(life_step we wi wfr clk W)\<^sup>*\<^sup>* w w'"
  shows "synced_polls k (wd_obs w) \<le> synced_polls k (wd_obs w') \<and>
    (synced_polls k (wd_obs w') = synced_polls k (wd_obs w) \<longrightarrow> hs_fresh (wd_health w') k = hs_fresh (wd_health w) k)"
  using assms
proof (induction rule: rtranclp_induct)
  case (step w1 w2)
  with lease_step [OF step(2), of k] show ?case by force
qed simp

lemma life_steps_required:
  "(life_step we wi wfr clk W)\<^sup>*\<^sup>* w w' \<Longrightarrow> hs_required (wd_health w') = hs_required (wd_health w)"
proof (induction rule: rtranclp_induct)
  case (step w1 w2)
  then show ?case
    using app_steps_required [OF r_into_rtranclp, of we wi wfr W w1 w2] by (auto simp: life_step_def idle_def)
qed simp

text \<open>No horizon is further away than one TTL.\<close>

definition horizons_ok :: "('c \<Rightarrow> int) \<Rightarrow> duration \<Rightarrow> ('s, 'c) world \<Rightarrow> bool" where
  "horizons_ok clk ttl w \<longleftrightarrow>
     (\<forall>k fr. hs_fresh (wd_health w) k = Some fr \<longrightarrow>
        valid_time (validUntil fr) \<and> nanos (validUntil fr) \<le> clk (wd_env w) + ttl)"

lemma horizons_mono:
  "horizons_ok clk ttl w \<Longrightarrow> hs_fresh (wd_health w') = hs_fresh (wd_health w) \<Longrightarrow> clk (wd_env w) \<le> clk (wd_env w') \<Longrightarrow>
     horizons_ok clk ttl w'"
  by (force simp: horizons_ok_def)

context worker_clock
begin

lemma sync_type_horizons:
  assumes "sync_type S t w = (r, w')" "horizons_ok clk (sc_cache_ttl (sy_cfg S)) w"
  shows "horizons_ok clk (sc_cache_ttl (sy_cfg S)) w'"
proof (cases "wire_type t")
  case (Inl e)
  with assms show ?thesis by (simp add: sync_type_def)
next
  case (Inr k)
  note mono = horizons_mono [OF assms(2) _ sync_type_clock [OF assms(1)]]
  have new: "horizons_ok clk (sc_cache_ttl (sy_cfg S)) w'"
    if "wd_env w' = poll_end S t w" "\<forall>j fr. hs_fresh (wd_health w') j = Some fr \<longrightarrow>
      hs_fresh (wd_health w) j = Some fr \<or> validUntil fr = time_add (poll_now S t w) (sc_cache_ttl (sy_cfg S))"
    using that poll_clock [where w = w and t = t] assms(2) by (force simp: horizons_ok_def)
  show ?thesis
  proof (rule sync_type_cases [OF Inr assms(1)], goal_cases failed refresh_failed refreshed swap_failed swapped)
    case (refreshed aset s')
    then show ?case by (intro new) (auto simp: record_freshness_def poll_fresh_def)
  next
    case (swapped aset s' fs)
    then show ?case by (intro new) (auto simp: record_freshness_def poll_fresh_def)
  qed (intro mono, simp)+
qed

end

context app_clock
begin

lemma life_horizons:
  assumes "life_step we wi wfr clk W w w'" "horizons_ok clk (sc_cache_ttl (sy_cfg (wk_syncer W))) w"
  shows "horizons_ok clk (sc_cache_ttl (sy_cfg (wk_syncer W))) w'"
  using assms(1) unfolding life_step_def
proof (elim disjE)
  note mono = horizons_mono [OF assms(2)]
  assume "app_step we wi wfr W w w'"
  then show ?thesis
  proof cases
    case (sync t r)
    then show ?thesis using sync_type_horizons assms(2) by blast
  next
    case (snapshot r)
    have "hs_fresh (wd_health w') = hs_fresh (wd_health w)" by (rule poll_cases [OF snapshot]) auto
    then show ?thesis using poll_clock_mono [OF snapshot] by (rule mono)
  next
    case (one_list u)
    then show ?thesis by (intro mono) (simp_all add: prefetch_clock_mono)
  next
    case look
    then show ?thesis by (intro mono) (simp_all add: now_bounds(5))
  qed (auto intro!: mono)
qed (auto simp: idle_def intro: horizons_mono [OF assms(2)])

end

section \<open>Properties\<close>

lemma lease_bounds:
  assumes "app_clock W clk" "hs_fresh (wd_health w0) = Map.empty"
    and "(life_step we wi wfr clk W)\<^sup>*\<^sup>* w0 w1" "(life_step we wi wfr clk W)\<^sup>*\<^sup>* w1 w2"
    and "synced_polls k (wd_obs w2) = synced_polls k (wd_obs w1)"
    and "valid_time now" "clk (wd_env w1) + sc_cache_ttl (sy_cfg (wk_syncer W)) \<le> nanos now"
  shows "\<not> live (wd_health w2) now k"
proof -
  have "horizons_ok clk (sc_cache_ttl (sy_cfg (wk_syncer W))) w1"
    using assms(3)
  proof (induction rule: rtranclp_induct)
    case base
    show ?case by (simp add: horizons_ok_def assms(2))
  next
    case (step v1 v2)
    show ?case by (rule app_clock.life_horizons [OF assms(1) step(2,3)])
  qed
  moreover have "hs_fresh (wd_health w2) k = hs_fresh (wd_health w1) k" using lease_steps [OF assms(4), of k] assms(5) by simp
  ultimately show ?thesis
    using assms(6,7) by (force simp: live_def horizons_ok_def nanos_before split: option.splits)
qed

text \<open>
  C5. Readiness is a lease that only success renews: take any moment \<open>w1\<close> in the life of an application built by
  \<open>New\<close>, and let it go on in any way, with time passing and requests answered, in which no poll of the
  configured type \<open>k\<close> succeeds (its success counters stand still). From one cache TTL after \<open>w1\<close> on, \<open>GET /readyz\<close>
  answers 503 and names a configured type that is not live; and if no poll of \<open>k\<close> has ever succeeded, it does so
  from the start.
\<close>

theorem outage_fails_closed:
  assumes "app_clock (ap_worker a) clk" "new_app L ident cfg flag rg = (Inr a, rg')" "k \<in> set (sc_types (cf_sync cfg))"
    and "(life_step we wi wfr clk (ap_worker a))\<^sup>*\<^sup>* (start_world a s c) w1"
    and "(life_step we wi wfr clk (ap_worker a))\<^sup>*\<^sup>* w1 w2"
    and "synced_polls k (wd_obs w2) = synced_polls k (wd_obs w1)"
    and "synced_polls k (wd_obs w1) = 0 \<or> clk (wd_env w1) + sc_cache_ttl (cf_sync cfg) \<le> nanos (fst (lb_now L (wd_env w2)))"
    and "hq_method req = ''GET''" "hq_path req = ''/readyz''"
  shows "\<exists>t \<in> set (sc_types (cf_sync cfg)). \<not> live (wd_health w2) (fst (lb_now L (wd_env w2))) t \<and>
    (\<exists>why \<in> {''anchor type never synced: '', ''anchor cache expired for type: ''}.
       fst (serve (fst (routes_init (app_router L sha ua a) w0)) req w2) =
         \<lparr>ra_answer = Fields 503 [(''status'', ''not-ready''), (''reason'', why @ t)], ra_skip_log = True\<rparr>)"
proof -
  note init = new_app_init [OF assms(2)]
  let ?now = "fst (lb_now L (wd_env w2))"
  have sy: "sy_now (wk_syncer (ap_worker a)) = lb_now L" "sy_cfg (wk_syncer (ap_worker a)) = cf_sync cfg"
    by (rule app_init_ok [OF init], simp add: wire_worker_def new_syncer_def)+
  have start: "hs_fresh (wd_health (start_world a s c)) = Map.empty" "synced_polls k (wd_obs (start_world a s c)) = 0"
    "hs_required (wd_health (start_world a s c)) = sc_types (cf_sync cfg)"
    by (simp_all add: start_world_def new_app_parts(3) [OF assms(2)] new_state_def no_obs_def synced_polls_def counter_def)
  have all: "(life_step we wi wfr clk (ap_worker a))\<^sup>*\<^sup>* (start_world a s c) w2" using assms(4,5) by simp
  have dead: "\<not> live (wd_health w2) ?now k"
  proof (cases "synced_polls k (wd_obs w1) = 0")
    case True
    with lease_steps [OF all, of k] assms(6) start show ?thesis by (simp add: live_def)
  next
    case False
    have "valid_time ?now"
      using worker_clock.now_bounds(1) [of "wk_syncer (ap_worker a)" clk "wd_env w2"] assms(1) sy(1) by (simp add: app_clock_def)
    with False assms(7) sy(2) lease_bounds [OF assms(1) start(1) assms(4-6)] show ?thesis by simp
  qed
  have req: "hs_required (wd_health w2) = sc_types (cf_sync cfg)"
    using life_steps_required [OF all] start(3) by simp
  define bad where "bad = filter (\<lambda>t. \<not> live (wd_health w2) ?now t) (sc_types (cf_sync cfg))"
  have "k \<in> set bad" using dead assms(3) by (simp add: bad_def)
  then obtain t ts where bad: "bad = t # ts" by (cases bad) auto
  then have t: "t \<in> set (sc_types (cf_sync cfg))" "\<not> live (wd_health w2) ?now t"
    using list.set_intros(1) [of t ts] unfolding bad [symmetric] by (simp_all add: bad_def)
  have ready: "ready (wd_health w2) ?now =
      (False, (if hs_fresh (wd_health w2) t = None then ''anchor type never synced: '' else ''anchor cache expired for type: '') @ t)"
    using bad t(1) by (auto simp: ready_filter req bad_def [symmetric])
  obtain why where why: "why \<in> {''anchor type never synced: '', ''anchor cache expired for type: ''}"
    "ready (wd_health w2) ?now = (False, why @ t)"
    by (rule that [OF _ ready]) simp
  have "fst (serve (fst (routes_init (app_router L sha ua a) w0)) req w2) =
      \<lparr>ra_answer = Fields 503 [(''status'', ''not-ready''), (''reason'', why @ t)], ra_skip_log = True\<rparr>"
    using assms(8,9) why(2) by (simp add: serve_def routes_init_def readyz_def clock_at_def Let_def)
  with t why(1) show ?thesis by blast
qed

text \<open>The reference application polls once with success; then 45 minutes pass.\<close>

theorem outage_fails_closed_witness:
  "\<exists>(a :: (refsrv, ref_env, unit) app) w1 w2 req why.
     app_step (\<lambda>_. True) (\<lambda>_. True) (\<lambda>_. True) (ap_worker a) (start_world a ref_srv cold_env) w1 \<and>
     w2 = w1\<lparr>wd_env := (wd_env w1)\<lparr>re_time := 1783169100\<rparr>\<rparr> \<and>
     ra_answer (fst (serve (fst (routes_init (app_router (ref_platform False) rev (ErrMsg ''unauthorized'') a) w1)) req w2)) =
       Fields 503 [(''status'', ''not-ready''), (''reason'', why @ ''pid_provider'')]"
proof -
  let ?clk = "\<lambda>c. nanos (time_unix (re_time c mod 4000000000))"
  let ?req = "\<lparr>hq_method = ''GET'', hq_path = ''/readyz'', hq_api_key = []\<rparr>"
  obtain a w1 where a: "new_app (ref_platform False) 0 ref_config (Some True) empty_registry = (Inr a, register_metrics 0 empty_registry)"
    and clk: "app_clock (ap_worker a) ?clk"
    and step: "app_step (\<lambda>_. True) (\<lambda>_. True) (\<lambda>_. True) (ap_worker a) (start_world a ref_srv cold_env) w1"
    and env: "re_time (wd_env w1) = 1783166400"
    by (rule cold_run)
  let ?w2 = "w1\<lparr>wd_env := (wd_env w1)\<lparr>re_time := 1783169100\<rparr>\<rparr>"
  have k: "''pid_provider'' \<in> set (sc_types (cf_sync ref_config))" by (simp add: ref_config_def)
  have steps: "(life_step (\<lambda>_. True) (\<lambda>_. True) (\<lambda>_. True) ?clk (ap_worker a))\<^sup>*\<^sup>* (start_world a ref_srv cold_env) w1"
    "(life_step (\<lambda>_. True) (\<lambda>_. True) (\<lambda>_. True) ?clk (ap_worker a))\<^sup>*\<^sup>* w1 ?w2"
    using step env by (auto intro!: r_into_rtranclp simp: life_step_def idle_def nanos_def time_unix_def i64_def)
  have now: "?clk (wd_env w1) + sc_cache_ttl (cf_sync ref_config) \<le> nanos (fst (lb_now (ref_platform False) (wd_env ?w2)))"
    using env by (simp add: ref_config_def ref_syncer_def nanos_def time_unix_def i64_def minute_def second_def)
  have same: "synced_polls ''pid_provider'' (wd_obs ?w2) = synced_polls ''pid_provider'' (wd_obs w1)" by simp
  from outage_fails_closed [where req = ?req and sha = rev and ua = "ErrMsg ''unauthorized''" and ?w0.0 = w1,
      OF clk a k steps same disjI2 [OF now]] k step
  show ?thesis by (intro exI [of _ a] exI [of _ w1] exI [of _ ?w2] exI [of _ ?req]) (auto simp: ref_config_def)
qed

end
