(* ===== verification/Served_Anchors.thy ===== *)
theory Served_Anchors
  imports Outage
begin

text \<open>
  What readiness promises to the readers of the cache, with the server's clock in the picture: keys expire when
  their life is over, polls and requests come in any order, writes fail with or without effect, and whenever the
  probe says ready, every configured type's entries are there and are those of one published snapshot.
\<close>

section \<open>The keys of one type\<close>

definition type_keys :: "key_contract \<Rightarrow> string \<Rightarrow> string set" where
  "type_keys K k = {territory_index_key K k, etag_key K k, freshness_key K k} \<union> range (anchor_set_key K k)"

lemma type_keys_in [simp, intro]:
  "territory_index_key K k \<in> type_keys K k" "etag_key K k \<in> type_keys K k" "freshness_key K k \<in> type_keys K k"
  "anchor_set_key K k x \<in> type_keys K k"
  by (simp_all add: type_keys_def)

definition all_absent :: "key_contract \<Rightarrow> string \<Rightarrow> string \<Rightarrow> keyspace \<Rightarrow> bool" where
  "all_absent K p k ks \<longleftrightarrow> (\<forall>j \<in> type_keys K k. ks_val ks (p @ j) = None)"

text \<open>Every key that is there has \<open>l\<close> milliseconds to live.\<close>

definition common_life :: "key_contract \<Rightarrow> string \<Rightarrow> string \<Rightarrow> int \<Rightarrow> keyspace \<Rightarrow> bool" where
  "common_life K p k l ks \<longleftrightarrow> (\<forall>j \<in> type_keys K k. \<forall>v q. ks_val ks (p @ j) = Some (v, q) \<longrightarrow> q = Some l)"

text \<open>A reader sees values only.\<close>

definition same_values :: "key_contract \<Rightarrow> string \<Rightarrow> string \<Rightarrow> keyspace \<Rightarrow> keyspace \<Rightarrow> bool" where
  "same_values K p k ks ks' \<longleftrightarrow> (\<forall>j \<in> type_keys K k. map_option fst (ks_val ks' (p @ j)) = map_option fst (ks_val ks (p @ j)))"

lemma same_values_type:
  assumes "same_values K p k ks ks'"
  shows "abs_type K C p ks' k = abs_type K C p ks k \<and> index_covers K C p ks' k = index_covers K C p ks k"
proof -
  have v: "map_option fst (ks_val ks' (p @ j)) = map_option fst (ks_val ks (p @ j))" if "j \<in> type_keys K k" for j
    using assms that by (simp add: same_values_def)
  have c: "(case ks_val ks' (p @ j) of None \<Rightarrow> a | Some (b, q) \<Rightarrow> f b) = (case ks_val ks (p @ j) of None \<Rightarrow> a | Some (b, q) \<Rightarrow> f b)"
    if "j \<in> type_keys K k" for j f and a :: 'z
    using v [OF that] by (auto split: option.splits)
  have n: "ks_val ks' (p @ j) = None \<longleftrightarrow> ks_val ks (p @ j) = None" if "j \<in> type_keys K k" for j
    using v [OF that] by (cases "ks_val ks' (p @ j)"; cases "ks_val ks (p @ j)") auto
  have "entry_at K C p ks' k = entry_at K C p ks k" "freshness_at K C p ks' k = freshness_at K C p ks k"
    "etag_at K p ks' k = etag_at K p ks k" "index_at K C p ks' k = index_at K C p ks k"
    by (simp_all add: fun_eq_iff entry_at_def freshness_at_def etag_at_def index_at_def c v)
  then show ?thesis by (simp add: abs_type_def index_covers_def n)
qed

lemma absent_covers: "all_absent K p k ks \<Longrightarrow> index_covers K C p ks k"
  by (simp add: all_absent_def index_covers_def index_at_def)

lemma absent_fresh: "all_absent K p k ks \<Longrightarrow> tc_freshness (abs_type K C p ks k) = None"
  by (simp add: abs_type_def freshness_at_def all_absent_def)

section \<open>Lives after a write\<close>

definition same_keys :: "key_contract \<Rightarrow> string \<Rightarrow> string \<Rightarrow> keyspace \<Rightarrow> keyspace \<Rightarrow> bool" where
  "same_keys K p k ks ks' \<longleftrightarrow> (\<forall>j \<in> type_keys K k. ks_val ks' (p @ j) = ks_val ks (p @ j))"

lemma same_keys_values: "same_keys K p k ks ks' \<Longrightarrow> same_values K p k ks ks'"
  by (simp add: same_keys_def same_values_def)

context valkey_store
begin

lemma swap_lives:
  assumes wf: "swap_wf wire wf_entry wf_index wf_freshness sw"
    and cov: "index_covers K C (st_prefix st) (view s) (sw_key_type sw)"
    and run: "swap_anchor_type st K C sw s = (r, s')"
  shows "\<not> is_ok r \<and> view s' = view s \<or>
    abs_type K C (st_prefix st) (view s') (sw_key_type sw) = spec_swap sw \<and>
    index_covers K C (st_prefix st) (view s') (sw_key_type sw) \<and>
    common_life K (st_prefix st) (sw_key_type sw) (ex_ms (sw_ttl sw)) (view s')"
proof -
  note w = wf [unfolded swap_wf_def list_all_iff]
  from w have wire: "sw_key_type sw \<in> wire" and ttl: "second \<le> sw_ttl sw" and dist: "distinct (map en_territory (sw_entries sw))"
    by simp_all
  show ?thesis
  proof (cases rule: swap_run [OF wire ttl run])
    case 1
    then show ?thesis by simp
  next
    case (2 prev sets idx fr)
    let ?ks = "fold (cmd_effect ex_ms) (swap_cmds st K sw prev sets idx fr) (view s)"
    have abs: "abs_type K C (st_prefix st) ?ks (sw_key_type sw) = spec_swap sw \<and>
        index_covers K C (st_prefix st) ?ks (sw_key_type sw)"
      by (rule swap_batch_abs [OF 2(2-4) wire dist _ _ _ 2(1) cov]) (use w in auto)
    have gone: "ks_val ?ks (st_prefix st @ anchor_set_key K (sw_key_type sw) y) = None"
      if y: "y \<notin> en_territory ` set (sw_entries sw)" for y
    proof -
      have "y \<notin> set prev \<Longrightarrow> ks_val (view s) (st_prefix st @ anchor_set_key K (sw_key_type sw) y) = None"
        using cov 2(1) unfolding index_covers_def by (metis option.inject)
      with swap_gone [OF 2(2) wire y, of ex_ms prev idx fr "view s"] show ?thesis by (simp add: st_key_def)
    qed
    have entry: "ks_val ?ks (st_prefix st @ anchor_set_key K (sw_key_type sw) (en_territory e)) =
        Some (projr (enc_entry C e), Some (ex_ms (sw_ttl sw)))" if "e \<in> set (sw_entries sw)" for e
      using swap_entry [OF 2(2) wire dist that, of ex_ms prev idx fr "view s"] by (simp add: st_key_def)
    have life: "q = Some (ex_ms (sw_ttl sw))" if "ks_val ?ks (st_prefix st @ anchor_set_key K (sw_key_type sw) y) = Some (v, q)"
      for y v q
      using that gone entry by (cases "y \<in> en_territory ` set (sw_entries sw)") auto
    have "common_life K (st_prefix st) (sw_key_type sw) (ex_ms (sw_ttl sw)) ?ks"
      using swap_meta [OF 2(2) wire, of ex_ms prev idx fr "view s"] life
      by (auto simp: common_life_def type_keys_def st_key_def)
    with 2(5) abs show ?thesis by auto
  qed
qed

lemma swap_same_keys:
  assumes "sw_key_type sw \<in> wire" "second \<le> sw_ttl sw" "swap_anchor_type st K C sw s = (r, s')" "u \<in> wire" "u \<noteq> sw_key_type sw"
  shows "same_keys K (st_prefix st) u (view s) (view s')"
proof (cases rule: swap_run [OF assms(1-3)])
  case 1
  then show ?thesis by (simp add: same_keys_def)
next
  case (2 prev sets idx fr)
  have "ks_val (fold (cmd_effect ex_ms) (swap_cmds st K sw prev sets idx fr) (view s)) (st_key st j) = ks_val (view s) (st_key st j)"
    if "j \<in> type_keys K u" for j
    by (rule swap_cmds_frame [OF 2(2)]) (use that assms(1,4,5) in \<open>auto simp: type_keys_def key_neq key_inj\<close>)
  with 2(5) show ?thesis by (auto simp: same_keys_def st_key_def)
qed

lemma refresh_lives:
  assumes wire: "k \<in> wire" and ttl: "second \<le> ttl" and wf: "wf_freshness f"
    and cov: "index_covers K C (st_prefix st) (view s) k" and life: "go_div ttl second * 1000 = ex_ms ttl"
    and run: "refresh_anchor_type st K C k f ttl s = (r, s')"
  shows "\<not> is_ok r \<and> view s' = view s \<or>
    abs_type K C (st_prefix st) (view s') k = spec_refresh f (abs_type K C (st_prefix st) (view s) k) \<and>
    index_covers K C (st_prefix st) (view s') k \<and> common_life K (st_prefix st) k (ex_ms ttl) (view s')"
proof (cases rule: refresh_run [OF wire ttl run])
  case 1
  then show ?thesis by simp
next
  case (2 prev m fr)
  let ?ks = "fold (cmd_effect ex_ms) (refresh_cmds st K k ttl prev m fr) (view s)"
  note abs = refresh_batch_abs [OF wire 2(4) wf 2(1) cov 2(2,3), of ex_ms ttl]
  note vals = refresh_values [OF wire, where x = ex_ms and prev = prev and m = m and fr = fr and ks = "view s" and ttl = ttl,
      unfolded life st_key_def]
  have none: "ks_val (view s) (st_prefix st @ anchor_set_key K k y) = None" if "y \<notin> set prev" for y
    using cov 2(1) that unfolding index_covers_def by (metis option.inject)
  have "common_life K (st_prefix st) k (ex_ms ttl) ?ks"
    using vals none by (auto simp: common_life_def type_keys_def split: if_splits option.splits)
  with abs 2(5) show ?thesis by auto
qed

lemma refresh_same_keys:
  assumes "k \<in> wire" "second \<le> ttl" "refresh_anchor_type st K C k f ttl s = (r, s')" "u \<in> wire" "u \<noteq> k"
  shows "same_keys K (st_prefix st) u (view s) (view s')"
proof (cases rule: refresh_run [OF assms(1-3)])
  case 1
  then show ?thesis by (simp add: same_keys_def)
next
  case (2 prev m fr)
  have "ks_val (fold (cmd_effect ex_ms) (refresh_cmds st K k ttl prev m fr) (view s)) (st_key st j) = ks_val (view s) (st_key st j)"
    if "j \<in> type_keys K u" for j
    by (rule refresh_cmds_frame) (use that assms(1,4,5) in \<open>auto simp: type_keys_def key_neq key_inj\<close>)
  with 2(5) show ?thesis by (auto simp: same_keys_def st_key_def)
qed

end

section \<open>Time on the server\<close>

text \<open>After \<open>n\<close> milliseconds a key is gone when they are more than it had left.\<close>

fun expire_after :: "int \<Rightarrow> (string \<times> int option) option \<Rightarrow> (string \<times> int option) option" where
  "expire_after n (Some (v, Some l)) = (if l < n then None else Some (v, Some (l - n)))"
| "expire_after n x = x"

definition expires :: "int \<Rightarrow> keyspace \<Rightarrow> keyspace \<Rightarrow> bool" where
  "expires n ks ks' \<longleftrightarrow> (\<forall>k. ks_val ks' k = expire_after n (ks_val ks k))"

lemma expire_after_none: "expire_after n None = None"
  by simp

lemma expires_absent: "expires n ks ks' \<Longrightarrow> all_absent K p k ks \<Longrightarrow> all_absent K p k ks'"
  by (simp add: expires_def all_absent_def)

lemma expires_life:
  assumes "expires n ks ks'" "common_life K p k l ks" "j \<in> type_keys K k"
  shows "ks_val ks' (p @ j) = (if l < n then None else map_option (\<lambda>(v, q). (v, Some (l - n))) (ks_val ks (p @ j)))"
proof (cases "ks_val ks (p @ j)")
  case (Some vq)
  obtain v q where vq: "vq = (v, q)" by force
  with Some assms(2,3) have "q = Some l" by (auto simp: common_life_def)
  with Some vq assms(1) show ?thesis by (simp add: expires_def)
qed (use assms(1) in \<open>simp add: expires_def\<close>)

section \<open>Runs on the server's clock\<close>

text \<open>
  \<open>m\<close> is the server's clock in milliseconds. What the environment keeps to at a poll of a known type: the writes at
  its end do not reach the server before the worker's clock says; \<open>published t i\<close> are the anchors of type \<open>t\<close> that the
  trust service has published under the snapshot id \<open>i\<close>; and a 304 comes while the type's freshness record
  is still in the cache (after an outage longer than the TTL it need not be).
\<close>

definition sound_poll ::
  "'s store \<Rightarrow> ('s \<Rightarrow> keyspace) \<Rightarrow> key_contract \<Rightarrow> codec \<Rightarrow> ('c \<Rightarrow> int) \<Rightarrow> (anchor_type \<Rightarrow> string \<Rightarrow> trust_anchor list)
   \<Rightarrow> ('s, 'c) syncer \<Rightarrow> int \<Rightarrow> anchor_type \<Rightarrow> ('s, 'c) world \<Rightarrow> ('s, 'c) world \<Rightarrow> bool" where
  "sound_poll st view K C clk published S m t w w' \<longleftrightarrow>
     (\<forall>k. wire_type t = Inr k \<longrightarrow>
        clk (wd_env w') < (m + 1) * millisecond \<and>
        (\<forall>aset. fst (anchors_call S t w) = Inr (aset, True) \<longrightarrow> as_anchors aset = published t (as_snapshot aset)) \<and>
        (\<forall>aset. fst (anchors_call S t w) = Inr (aset, False) \<longrightarrow>
           tc_freshness (abs_type K C (st_prefix st) (view (wd_store w)) k) \<noteq> None))"

text \<open>A step of the worker, or time passing on both clocks.\<close>

inductive timed_step ::
  "'s store \<Rightarrow> ('s \<Rightarrow> keyspace) \<Rightarrow> key_contract \<Rightarrow> codec \<Rightarrow> ('c \<Rightarrow> int) \<Rightarrow> (anchor_type \<Rightarrow> string \<Rightarrow> trust_anchor list)
   \<Rightarrow> (anchor_set_entry \<Rightarrow> bool) \<Rightarrow> (string list \<Rightarrow> bool) \<Rightarrow> (type_freshness \<Rightarrow> bool) \<Rightarrow> ('s, 'c) worker
   \<Rightarrow> int \<times> ('s, 'c) world \<Rightarrow> int \<times> ('s, 'c) world \<Rightarrow> bool"
  for st view K C clk published we wi wfr W where
  work: "app_step we wi wfr W w w' \<Longrightarrow>
    \<forall>t r. sync_type (wk_syncer W) t w = (r, w') \<longrightarrow> sound_poll st view K C clk published (wk_syncer W) m t w w' \<Longrightarrow>
    timed_step st view K C clk published we wi wfr W (m, w) (m, w')"
| pass: "0 \<le> n \<Longrightarrow> expires n (view (wd_store w)) (view (wd_store w')) \<Longrightarrow> idle clk w w' \<Longrightarrow>
    timed_step st view K C clk published we wi wfr W (m, w) (m + n, w')"

lemma timed_steps_required:
  "(timed_step st view K C clk pub we wi wfr W)\<^sup>*\<^sup>* z z' \<Longrightarrow> hs_required (wd_health (snd z')) = hs_required (wd_health (snd z))"
proof (induction rule: rtranclp_induct)
  case (step y z)
  from step(2) have "hs_required (wd_health (snd z)) = hs_required (wd_health (snd y))"
    by cases (auto dest!: app_steps_required [OF r_into_rtranclp] simp: idle_def)
  with step.IH show ?case by simp
qed simp

section \<open>What holds of a type\<close>

text \<open>The entries are those of the anchors \<open>as\<close>, grouped by territory, all under the id \<open>i\<close> and the horizon \<open>v\<close>.\<close>

definition holds_anchors ::
  "(string \<Rightarrow> string) \<Rightarrow> string \<Rightarrow> trust_anchor list \<Rightarrow> string \<Rightarrow> gotime \<Rightarrow> (string \<rightharpoonup> anchor_set_entry) \<Rightarrow> bool" where
  "holds_anchors nrm k as i v entries \<longleftrightarrow>
     (\<forall>x. case filter (\<lambda>a. nrm (ta_country a) = x) as of
        [] \<Rightarrow> entries x = None
      | bs \<Rightarrow> \<exists>e. entries x = Some e \<and> en_anchors e = map (cached_of nrm) bs \<and> en_snapshot_id e = i \<and>
          en_type e = k \<and> en_territory e = x \<and> en_valid_until e = v)"

lemma holds_anchors_refresh:
  "holds_anchors nrm k as i v (tc_entries tc) \<Longrightarrow> holds_anchors nrm k as i (fr_valid_until f) (tc_entries (spec_refresh f tc))"
  unfolding holds_anchors_def
proof (intro allI)
  fix x
  assume "\<forall>x. case filter (\<lambda>a. nrm (ta_country a) = x) as of
        [] \<Rightarrow> tc_entries tc x = None
      | bs \<Rightarrow> \<exists>e. tc_entries tc x = Some e \<and> en_anchors e = map (cached_of nrm) bs \<and> en_snapshot_id e = i \<and>
          en_type e = k \<and> en_territory e = x \<and> en_valid_until e = v"
  from this [THEN spec, of x]
  show "case filter (\<lambda>a. nrm (ta_country a) = x) as of
        [] \<Rightarrow> tc_entries (spec_refresh f tc) x = None
      | bs \<Rightarrow> \<exists>e. tc_entries (spec_refresh f tc) x = Some e \<and> en_anchors e = map (cached_of nrm) bs \<and> en_snapshot_id e = i \<and>
          en_type e = k \<and> en_territory e = x \<and> en_valid_until e = fr_valid_until f"
    by (auto split: list.splits)
qed

lemma holds_anchors_swap:
  assumes "syncer_on st K C S"
  shows "holds_anchors (sy_normalize S) k (as_anchors aset) (as_snapshot aset)
    (time_add (poll_now S t w) (sc_cache_ttl (sy_cfg S))) (tc_entries (spec_swap (poll_swap S t k aset w)))"
  unfolding holds_anchors_def spec_poll_swap [OF assms]
proof (intro allI)
  fix x
  show "case filter (\<lambda>a. sy_normalize S (ta_country a) = x) (as_anchors aset) of
      [] \<Rightarrow> (if x \<in> (\<lambda>a. sy_normalize S (ta_country a)) ` set (as_anchors aset)
             then Some (entry_of (sy_normalize S) k aset (poll_now S t w) (time_add (poll_now S t w) (sc_cache_ttl (sy_cfg S))) x)
             else None) = None
    | bs \<Rightarrow> \<exists>e. (if x \<in> (\<lambda>a. sy_normalize S (ta_country a)) ` set (as_anchors aset)
             then Some (entry_of (sy_normalize S) k aset (poll_now S t w) (time_add (poll_now S t w) (sc_cache_ttl (sy_cfg S))) x)
             else None) = Some e \<and> en_anchors e = map (cached_of (sy_normalize S)) bs \<and> en_snapshot_id e = as_snapshot aset \<and>
          en_type e = k \<and> en_territory e = x \<and> en_valid_until e = time_add (poll_now S t w) (sc_cache_ttl (sy_cfg S))"
  proof (cases "filter (\<lambda>a. sy_normalize S (ta_country a) = x) (as_anchors aset)")
    case Nil
    then show ?thesis by (auto simp: filter_empty_conv)
  next
    case (Cons b bs)
    then have "b \<in> set (as_anchors aset)" "sy_normalize S (ta_country b) = x"
      by (auto dest: filter_eq_ConsD)
    then have "x \<in> (\<lambda>a. sy_normalize S (ta_country a)) ` set (as_anchors aset)" by blast
    with Cons show ?thesis by (simp add: entry_of_def)
  qed
qed

text \<open>
  The invariant of one type at the server's time \<open>m\<close>: nothing of it is in the cache and no horizon the readiness state
  holds is ahead, or all of it is there for the same time, long enough for its horizon. \<open>n\<close> bounds every horizon.
\<close>

definition served ::
  "key_contract \<Rightarrow> codec \<Rightarrow> string \<Rightarrow> (string \<Rightarrow> string) \<Rightarrow> (string \<Rightarrow> trust_anchor list) \<Rightarrow> string \<Rightarrow> int \<Rightarrow> int \<Rightarrow> keyspace
   \<Rightarrow> fresh_record option \<Rightarrow> bool" where
  "served K C p nrm published k m n ks hf \<longleftrightarrow>
     index_covers K C p ks k \<and> (\<forall>fr. hf = Some fr \<longrightarrow> valid_time (validUntil fr) \<and> nanos (validUntil fr) \<le> n) \<and>
     (all_absent K p k ks \<and> (\<forall>fr. hf = Some fr \<longrightarrow> nanos (validUntil fr) < m * millisecond) \<or>
      (\<exists>l i f. common_life K p k l ks \<and> tc_etag (abs_type K C p ks k) = Some i \<and> tc_freshness (abs_type K C p ks k) = Some f \<and>
         holds_anchors nrm k (published i) i (fr_valid_until f) (tc_entries (abs_type K C p ks k)) \<and>
         valid_time (fr_valid_until f) \<and> nanos (fr_valid_until f) \<le> n \<and> nanos (fr_valid_until f) < (m + l + 1) * millisecond \<and>
         (\<forall>fr. hf = Some fr \<longrightarrow> nanos (validUntil fr) \<le> nanos (fr_valid_until f))))"

lemma served_mono: "served K C p nrm pub k m n ks hf \<Longrightarrow> n \<le> n' \<Longrightarrow> served K C p nrm pub k m n' ks hf"
  unfolding served_def by (elim conjE disjE exE) (simp, force)+

lemma served_same_keys:
  assumes "served K C p nrm pub k m n ks hf" "same_keys K p k ks ks'"
  shows "served K C p nrm pub k m n ks' hf"
proof -
  note v = same_values_type [OF same_keys_values [OF assms(2)], of C]
  have "all_absent K p k ks' = all_absent K p k ks" "\<And>l. common_life K p k l ks' = common_life K p k l ks"
    using assms(2) by (simp_all add: same_keys_def all_absent_def common_life_def)
  with v assms(1) show ?thesis by (simp add: served_def)
qed

text \<open>A write gives every key of the type the same new life.\<close>

lemma served_write:
  assumes "served K C p nrm pub k m n ks hf" "index_covers K C p ks' k" "common_life K p k l ks'"
    and "tc_etag (abs_type K C p ks' k) = Some i" "tc_freshness (abs_type K C p ks' k) = Some f"
    and "holds_anchors nrm k (pub i) i (fr_valid_until f) (tc_entries (abs_type K C p ks' k))"
    and "valid_time (fr_valid_until f)" "n \<le> nanos (fr_valid_until f)" "nanos (fr_valid_until f) \<le> n'"
    and "nanos (fr_valid_until f) < (m + l + 1) * millisecond"
    and "hf' = hf \<or> (\<exists>fr. hf' = Some fr \<and> validUntil fr = fr_valid_until f)"
  shows "served K C p nrm pub k m n' ks' hf'"
proof -
  have hf: "valid_time (validUntil fr) \<and> nanos (validUntil fr) \<le> nanos (fr_valid_until f)" if "hf' = Some fr" for fr
    using assms(1,7,8,11) that by (auto simp: served_def)
  moreover have "nanos (validUntil fr) \<le> n'" if "hf' = Some fr" for fr using hf [OF that] assms(9) by linarith
  ultimately show ?thesis unfolding served_def using assms(2-7,9,10) by blast
qed

lemma served_expires:
  assumes "served K C p nrm pub k m n ks hf" "expires d ks ks'" "0 \<le> d"
  shows "served K C p nrm pub k (m + d) n ks' hf"
proof -
  have later: "a * millisecond \<le> b * millisecond" if "a \<le> b" for a b using that by (simp add: millisecond_def)
  have hf: "\<forall>fr. hf = Some fr \<longrightarrow> valid_time (validUntil fr) \<and> nanos (validUntil fr) \<le> n"
    using assms(1) by (simp add: served_def)
  have gone: ?thesis if "all_absent K p k ks'" "\<forall>fr. hf = Some fr \<longrightarrow> nanos (validUntil fr) < (m + d) * millisecond"
    using that hf absent_covers by (simp add: served_def)
  from assms(1) consider (absent) "all_absent K p k ks" "\<forall>fr. hf = Some fr \<longrightarrow> nanos (validUntil fr) < m * millisecond"
    | (there) l i f where "index_covers K C p ks k" "common_life K p k l ks" "tc_etag (abs_type K C p ks k) = Some i"
      "tc_freshness (abs_type K C p ks k) = Some f"
      "holds_anchors nrm k (pub i) i (fr_valid_until f) (tc_entries (abs_type K C p ks k))"
      "valid_time (fr_valid_until f)" "nanos (fr_valid_until f) \<le> n" "nanos (fr_valid_until f) < (m + l + 1) * millisecond"
      "\<forall>fr. hf = Some fr \<longrightarrow> nanos (validUntil fr) \<le> nanos (fr_valid_until f)"
    unfolding served_def by blast
  then show ?thesis
  proof cases
    case absent
    with later [of m "m + d"] assms(3) show ?thesis
      by (intro gone expires_absent [OF assms(2)]) (auto intro: less_le_trans)
  next
    case there
    note life = expires_life [OF assms(2) there(2)]
    show ?thesis
    proof (cases "l < d")
      case True
      have "all_absent K p k ks'" using life True by (simp add: all_absent_def)
      moreover have "nanos (validUntil fr) < (m + d) * millisecond" if "hf = Some fr" for fr
        using there(8,9) that later [of "m + l + 1" "m + d"] True by fastforce
      ultimately show ?thesis by (intro gone) auto
    next
      case False
      have "same_values K p k ks ks'"
        using life False by (auto simp: same_values_def option.map_comp comp_def case_prod_unfold)
      note v = same_values_type [OF this, of C]
      have "common_life K p k (l - d) ks'" using life False by (auto simp: common_life_def)
      moreover have "m + d + (l - d) + 1 = m + l + 1" by simp
      ultimately show ?thesis unfolding served_def v [THEN conjunct1] v [THEN conjunct2] using there hf by metis
    qed
  qed
qed

section \<open>Every step keeps it\<close>

text \<open>The lifetime of the configuration is the same in all its uses: in \<open>EX\<close>, in \<open>EXPIRE\<close> and on the worker's clock.\<close>

lemma whole_life:
  assumes "second \<le> ttl" "second dvd ttl" "ex_ms ttl * millisecond = ttl"
  shows "go_div ttl second * 1000 = (ex_ms ttl :: int)"
proof -
  obtain q where q: "ttl = second * q" using assms(2) by blast
  with assms(1) have "go_div ttl second = q" by (simp add: go_div_pos second_def)
  moreover have "ex_ms ttl * millisecond = (q * 1000) * millisecond" using assms(3) q by (simp add: second_def millisecond_def)
  ultimately show ?thesis by (simp add: millisecond_def)
qed

context valkey_store
begin

abbreviation served_in ::
  "(string \<Rightarrow> string) \<Rightarrow> (anchor_type \<Rightarrow> string \<Rightarrow> trust_anchor list) \<Rightarrow> ('c \<Rightarrow> int) \<Rightarrow> duration \<Rightarrow> anchor_type \<Rightarrow> string \<Rightarrow> int
   \<Rightarrow> ('s, 'c) world \<Rightarrow> bool" where
  "served_in nrm pub clk ttl t k m w \<equiv>
     served K C (st_prefix st) nrm (pub t) k m (clk (wd_env w) + ttl) (view (wd_store w)) (hs_fresh (wd_health w) k)"

lemma own_poll_served:
  assumes clock: "worker_clock S clk" and S: "syncer_on st K C S" and wire: "wire = set wire_names"
    and t: "wire_type t = Inr k" and rep: "poll_ok wf_entry wf_index wf_freshness S t w" and run: "sync_type S t w = (r, w')"
    and sound: "sound_poll st view K C clk pub S m t w w'"
    and ttl: "second dvd sc_cache_ttl (sy_cfg S)" "ex_ms (sc_cache_ttl (sy_cfg S)) * millisecond = sc_cache_ttl (sy_cfg S)"
    and inv: "served_in (sy_normalize S) pub clk (sc_cache_ttl (sy_cfg S)) t k m w"
  shows "served_in (sy_normalize S) pub clk (sc_cache_ttl (sy_cfg S)) t k m w'"
proof -
  let ?ttl = "sc_cache_ttl (sy_cfg S)" and ?h = "time_add (poll_now S t w) (sc_cache_ttl (sy_cfg S))"
  have k: "k \<in> wire" using wire_type_in_names [OF t] by (simp add: wire)
  have I: "sy_store S = valkey_iface st K C" "second \<le> ?ttl" using S by (simp_all add: syncer_on_def)
  have life: "go_div ?ttl second * 1000 = ex_ms ?ttl" by (rule whole_life [where ex_ms = ex_ms, OF I(2) ttl])
  note mono = worker_clock.sync_type_clock [OF clock run]
  note pc = worker_clock.poll_clock [OF clock, where t = t and w = w]
  have cov: "index_covers K C (st_prefix st) (view (wd_store w)) k" using inv by (simp add: served_def)
  have soon: "clk (wd_env w') < (m + 1) * millisecond" using sound t by (simp add: sound_poll_def)
  have kept: ?thesis if "view (wd_store w') = view (wd_store w)" "wd_health w' = wd_health w"
    using served_mono [OF inv, of "clk (wd_env w') + ?ttl"] that mono by simp
  have wrote: ?thesis if "index_covers K C (st_prefix st) (view (wd_store w')) k"
      "common_life K (st_prefix st) k (ex_ms ?ttl) (view (wd_store w'))"
      "tc_etag (abs_type K C (st_prefix st) (view (wd_store w')) k) = Some i"
      "tc_freshness (abs_type K C (st_prefix st) (view (wd_store w')) k) = Some f" "fr_valid_until f = ?h"
      "holds_anchors (sy_normalize S) k (pub t i) i (fr_valid_until f)
         (tc_entries (abs_type K C (st_prefix st) (view (wd_store w')) k))"
      "wd_env w' = poll_end S t w"
      "hs_fresh (wd_health w') k = hs_fresh (wd_health w) k \<or> (\<exists>fr. hs_fresh (wd_health w') k = Some fr \<and> validUntil fr = ?h)"
    for i f
  proof (rule served_write [OF inv that(1-4,6)])
    show "valid_time (fr_valid_until f)" "clk (wd_env w) + ?ttl \<le> nanos (fr_valid_until f)"
      "nanos (fr_valid_until f) \<le> clk (wd_env w') + ?ttl"
      using pc that(5,7) by simp_all
    have "nanos (fr_valid_until f) < (m + 1) * millisecond + ex_ms ?ttl * millisecond"
      using pc(3,5) that(5,7) soon ttl(2) by simp
    then show "nanos (fr_valid_until f) < (m + ex_ms ?ttl + 1) * millisecond" by (simp add: algebra_simps)
    show "hs_fresh (wd_health w') k = hs_fresh (wd_health w) k \<or>
        (\<exists>fr. hs_fresh (wd_health w') k = Some fr \<and> validUntil fr = fr_valid_until f)"
      using that(5,8) by simp
  qed
  note swap = swap_lives [OF poll_swap_wf [OF S t, folded wire], unfolded poll_swap_simps, OF _ cov]
  have repr: "representable wf_entry wf_index wf_freshness (poll_swap S t k aset w)"
    if "fst (anchors_call S t w) = Inr (aset, True)" for aset
    using rep t that by (simp add: poll_ok_def)
  have pub: "as_anchors aset = pub t (as_snapshot aset)" if "fst (anchors_call S t w) = Inr (aset, True)" for aset
    using sound t that by (simp add: sound_poll_def)
  let ?f = "poll_fresh S t (etag t w) False w"
  have wf: "wf_freshness ?f" using rep by (simp add: poll_ok_def)
  note refresh = refresh_lives [OF k I(2) wf cov life]
  have there: "\<exists>i v. tc_etag (abs_type K C (st_prefix st) (view (wd_store w)) k) = Some i \<and>
      holds_anchors (sy_normalize S) k (pub t i) i v (tc_entries (abs_type K C (st_prefix st) (view (wd_store w)) k))"
    if "fst (anchors_call S t w) = Inr (aset, False)" for aset
  proof -
    have "tc_freshness (abs_type K C (st_prefix st) (view (wd_store w)) k) \<noteq> None"
      using sound t that by (simp add: sound_poll_def)
    then have "\<not> all_absent K (st_prefix st) k (view (wd_store w))"
      using absent_fresh [of K "st_prefix st" k "view (wd_store w)" C] by auto
    with inv obtain i v where "tc_etag (abs_type K C (st_prefix st) (view (wd_store w)) k) = Some i"
      "holds_anchors (sy_normalize S) k (pub t i) i v (tc_entries (abs_type K C (st_prefix st) (view (wd_store w)) k))"
      by (auto simp: served_def)
    then show ?thesis by blast
  qed
  show ?thesis
  proof (rule sync_type_cases [OF t run], goal_cases failed refresh_failed refreshed swap_failed swapped)
    case (failed e)
    then show ?case by (intro kept) simp_all
  next
    case (refresh_failed aset e s')
    obtain i v where i: "tc_etag (abs_type K C (st_prefix st) (view (wd_store w)) k) = Some i"
      "holds_anchors (sy_normalize S) k (pub t i) i v (tc_entries (abs_type K C (st_prefix st) (view (wd_store w)) k))"
      using there [OF refresh_failed(1)] by blast
    have "refresh_anchor_type st K C k ?f ?ttl (wd_store w) = (Inl e, s')"
      using refresh_failed(2) I(1) by (simp add: valkey_iface_def)
    from refresh [OF this] show ?case
    proof (elim disjE conjE)
      assume "view s' = view (wd_store w)"
      with refresh_failed(4) show ?case by (intro kept) simp_all
    next
      assume a: "abs_type K C (st_prefix st) (view s') k = spec_refresh ?f (abs_type K C (st_prefix st) (view (wd_store w)) k)"
        "index_covers K C (st_prefix st) (view s') k" "common_life K (st_prefix st) k (ex_ms ?ttl) (view s')"
      show ?case
        by (rule wrote [of i ?f]) (use a i holds_anchors_refresh [OF i(2), of ?f] refresh_failed(4) in simp_all)
    qed
  next
    case (refreshed aset s')
    obtain i v where i: "tc_etag (abs_type K C (st_prefix st) (view (wd_store w)) k) = Some i"
      "holds_anchors (sy_normalize S) k (pub t i) i v (tc_entries (abs_type K C (st_prefix st) (view (wd_store w)) k))"
      using there [OF refreshed(1)] by blast
    have "refresh_anchor_type st K C k ?f ?ttl (wd_store w) = (Inr (), s')"
      using refreshed(2) I(1) by (simp add: valkey_iface_def)
    from refresh [OF this] have a:
      "abs_type K C (st_prefix st) (view s') k = spec_refresh ?f (abs_type K C (st_prefix st) (view (wd_store w)) k)"
      "index_covers K C (st_prefix st) (view s') k" "common_life K (st_prefix st) k (ex_ms ?ttl) (view s')"
      by simp_all
    show ?case
      by (rule wrote [of i ?f]) (use a i holds_anchors_refresh [OF i(2), of ?f] refreshed(4) in simp_all)
  next
    case (swap_failed aset e s')
    have "swap_anchor_type st K C (poll_swap S t k aset w) (wd_store w) = (Inl e, s')"
      using swap_failed(2) I(1) by (simp add: valkey_iface_def)
    from swap [OF repr [OF swap_failed(1)] this] show ?case
    proof (elim disjE conjE)
      assume "view s' = view (wd_store w)"
      with swap_failed(4) show ?case by (intro kept) simp_all
    next
      assume a: "abs_type K C (st_prefix st) (view s') k = spec_swap (poll_swap S t k aset w)"
        "index_covers K C (st_prefix st) (view s') k" "common_life K (st_prefix st) k (ex_ms ?ttl) (view s')"
      show ?case
        by (rule wrote [of "as_snapshot aset" "poll_fresh S t (as_snapshot aset) (as_stale aset) w"])
          (use a holds_anchors_swap [OF S, of k aset t w] pub [OF swap_failed(1)] swap_failed(4) in simp_all)
    qed
  next
    case (swapped aset s' fs)
    have "swap_anchor_type st K C (poll_swap S t k aset w) (wd_store w) = (Inr (), s')"
      using swapped(2) I(1) by (simp add: valkey_iface_def)
    from swap [OF repr [OF swapped(1)] this] have a:
      "abs_type K C (st_prefix st) (view s') k = spec_swap (poll_swap S t k aset w)"
      "index_covers K C (st_prefix st) (view s') k" "common_life K (st_prefix st) k (ex_ms ?ttl) (view s')"
      by simp_all
    show ?case
      by (rule wrote [of "as_snapshot aset" "poll_fresh S t (as_snapshot aset) (as_stale aset) w"])
        (use a holds_anchors_swap [OF S, of k aset t w] pub [OF swapped(1)] swapped(4) in simp_all)
  qed
qed

lemma other_poll_served:
  assumes clock: "worker_clock S clk" and S: "syncer_on st K C S" and wire: "wire = set wire_names"
    and t: "wire_type t = Inr j" "wire_type u = Inr k" "j \<noteq> k" and run: "sync_type S t w = (r, w')"
    and inv: "served_in (sy_normalize S) pub clk (sc_cache_ttl (sy_cfg S)) u k m w"
  shows "served_in (sy_normalize S) pub clk (sc_cache_ttl (sy_cfg S)) u k m w'"
proof -
  have jk: "j \<in> wire" "k \<in> wire" using wire_type_in_names t(1,2) by (auto simp: wire)
  have I: "sy_store S = valkey_iface st K C" "second \<le> sc_cache_ttl (sy_cfg S)" using S by (simp_all add: syncer_on_def)
  have keys: "same_keys K (st_prefix st) k (view (wd_store w)) (view (wd_store w'))"
  proof (rule sync_type_cases [OF t(1) run], goal_cases failed refresh_failed refreshed swap_failed swapped)
    case (failed e)
    then show ?case by (simp add: same_keys_def)
  next
    case (refresh_failed aset e s')
    with refresh_same_keys [OF jk(1) I(2) _ jk(2)] t(3) I(1) show ?case by (simp add: valkey_iface_def)
  next
    case (refreshed aset s')
    with refresh_same_keys [OF jk(1) I(2) _ jk(2)] t(3) I(1) show ?case by (simp add: valkey_iface_def)
  next
    case (swap_failed aset e s')
    with swap_same_keys [of "poll_swap S t j aset w"] jk t(3) I show ?case by (simp add: valkey_iface_def)
  next
    case (swapped aset s' fs)
    with swap_same_keys [of "poll_swap S t j aset w"] jk t(3) I show ?case by (simp add: valkey_iface_def)
  qed
  have "hs_fresh (wd_health w') k = hs_fresh (wd_health w) k"
    by (rule sync_type_record [OF t(1) run]) (use t(3) in auto)
  with served_mono [OF served_same_keys [OF inv keys], of "clk (wd_env w') + sc_cache_ttl (sy_cfg S)"]
    worker_clock.sync_type_clock [OF clock run] show ?thesis by simp
qed

lemma frame_served:
  assumes "served_in nrm pub clk ttl t k m w" "foreign_change K wire (st_prefix st) (view (wd_store w)) (view (wd_store w'))"
    and "k \<in> wire" "hs_fresh (wd_health w') = hs_fresh (wd_health w)" "clk (wd_env w) \<le> clk (wd_env w')"
  shows "served_in nrm pub clk ttl t k m w'"
proof -
  have "same_keys K (st_prefix st) k (view (wd_store w)) (view (wd_store w'))"
    using assms(2,3) by (fastforce simp: same_keys_def foreign_change_def foreign_key_def type_keys_def)
  from served_mono [OF served_same_keys [OF assms(1) this], of "clk (wd_env w') + ttl"] assms(4,5) show ?thesis by simp
qed

lemma app_step_served:
  assumes clock: "app_clock W clk" and W: "worker_on st K C W" and wire: "wire = set wire_names" and keys: "worker_keys K wire"
    and step: "app_step wf_entry wf_index wf_freshness W w w'"
    and sound: "\<forall>t r. sync_type (wk_syncer W) t w = (r, w') \<longrightarrow> sound_poll st view K C clk pub (wk_syncer W) m t w w'"
    and ttl: "ttl = sc_cache_ttl (sy_cfg (wk_syncer W))" "second dvd ttl" "ex_ms ttl * millisecond = ttl"
    and u: "wire_type u = Inr k" and inv: "served_in (sy_normalize (wk_syncer W)) pub clk ttl u k m w"
  shows "served_in (sy_normalize (wk_syncer W)) pub clk ttl u k m w'"
proof -
  have wc: "worker_clock (wk_syncer W) clk" using clock by (simp add: app_clock_def)
  have k: "k \<in> wire" using wire_type_in_names [OF u] by (simp add: wire)
  note foreign = worker_keys.list_foreign [OF keys] worker_keys.health_foreign [OF keys]
  note on = W [unfolded worker_on_def]
  note frame = frame_served [where nrm = "sy_normalize (wk_syncer W)" and pub = pub and clk = clk and ttl = ttl and m = m and
      w = w and w' = w' and t = u and k = k, OF inv _ k]
  from step show ?thesis
  proof cases
    case (sync t r)
    have S: "syncer_on st K C (wk_syncer W)" using on by simp
    show ?thesis
    proof (cases "wire_type t")
      case (Inl e)
      with sync(1) inv show ?thesis by (simp add: sync_type_def)
    next
      case (Inr j)
      show ?thesis
      proof (cases "j = k")
        case True
        with Inr have "t = u" using wire_type_inj [OF _ u] by simp
        moreover have "sound_poll st view K C clk pub (wk_syncer W) m t w w'" using sound sync(1) by blast
        ultimately show ?thesis using own_poll_served [where w = w and w' = w' and r = r and m = m and pub = pub, OF wc S wire u] sync ttl inv by simp
      next
        case False
        show ?thesis using other_poll_served [where m = m and pub = pub, OF wc S wire Inr u False sync(1)] ttl(1) inv by simp
      qed
    qed
  next
    case (snapshot r)
    then have e: "bounded_change {st_key st (snapshot_health_key K)} (po_fresh_for (wk_poller W)) (view (wd_store w))
        (view (wd_store w'))" "hs_fresh (wd_health w') = hs_fresh (wd_health w)"
      using poll_effect on by blast+
    from frame [OF bounded_is_foreign [OF e(1) [unfolded st_key_def] foreign(2)] e(2)]
      app_clock.poll_clock_mono [OF clock snapshot] show ?thesis by blast
  next
    case (list_refs n q s)
    then have "view (wd_store w') = view (wd_store w)" using top_view on by (auto simp: valkey_refs_def)
    with list_refs show ?thesis by (intro frame) (auto intro: same_is_foreign)
  next
    case (one_list u)
    have "bounded_change {st_key st (status_list_key K u)} (pc_max_ttl (pf_cfg (wk_prefetcher W))) (view (wd_store w))
        (view (wd_store w'))"
      using prefetch_one_bounded [of "wk_prefetcher W" u w] on one_list by simp
    from frame [OF bounded_is_foreign [OF this [unfolded st_key_def] foreign(1)]] one_list
      app_clock.prefetch_clock_mono [OF clock] show ?thesis by simp
  next
    case trim
    with trim_refs_val on show ?thesis by (intro frame) (auto intro: same_is_foreign)
  next
    case (report lvl msg fs)
    then show ?thesis by (intro frame) (auto intro: same_is_foreign)
  next
    case look
    with worker_clock.now_bounds(5) [OF wc, of "wd_env w"] show ?thesis
      by (intro frame) (auto intro: same_is_foreign)
  qed
qed

lemma timed_steps_served:
  assumes clock: "app_clock W clk" and W: "worker_on st K C W" and wire: "wire = set wire_names" and keys: "worker_keys K wire"
    and run: "(timed_step st view K C clk pub wf_entry wf_index wf_freshness W)\<^sup>*\<^sup>* z z'"
    and ttl: "ttl = sc_cache_ttl (sy_cfg (wk_syncer W))" "second dvd ttl" "ex_ms ttl * millisecond = ttl"
    and u: "wire_type u = Inr k" and inv: "served_in (sy_normalize (wk_syncer W)) pub clk ttl u k (fst z) (snd z)"
  shows "served_in (sy_normalize (wk_syncer W)) pub clk ttl u k (fst z') (snd z')"
  using run
proof (induction rule: rtranclp_induct)
  case base
  show ?case by (rule inv)
next
  case (step y z)
  from step(2) show ?case
  proof cases
    case (work w w' m)
    with app_step_served [OF clock W wire keys _ _ ttl u, of w w' pub m] step.IH show ?thesis by simp
  next
    case (pass n w w' m)
    have "served K C (st_prefix st) (sy_normalize (wk_syncer W)) (pub u) k (m + n) (clk (wd_env w) + ttl) (view (wd_store w'))
        (hs_fresh (wd_health w) k)"
      using served_expires [OF _ pass(4,3)] step.IH pass(1) by simp
    from served_mono [OF this, of "clk (wd_env w') + ttl"] pass show ?thesis by (simp add: idle_def)
  qed
qed

end

section \<open>Properties\<close>

text \<open>
  C1. The worker fails closed end to end. Take an application built by \<open>New\<close> from a valid configuration with a TTL of
  whole seconds, over a cache without keys of the taxonomy's types, and let its loops and routes run in any order, with
  any answers and failures, writes lost or made without an answer, and time passing, with keys expiring as their
  lives run out. Whenever \<open>GET /readyz\<close> answers 200, types are configured, and of each of them a reader of the cache at
  that moment finds a freshness record with a horizon ahead, an etag, and for every territory exactly the anchors
  the trust service published under that snapshot id (no entry where there are none, nothing missing), with the
  record's horizon. Assumed of the environment: the server drops a key only when its life is over and not before, the
  two clocks run at one rate, and a 304 comes only while the type's freshness record is in the cache.
\<close>

theorem ready_app_serves_published_anchors:
  assumes "valkey_store (ap_store a) view ex_ms (lb_keys L) (set wire_names) (lb_codec L) we wi wfr"
    and "worker_keys (lb_keys L) (set wire_names)" "app_clock (ap_worker a) clk" "\<forall>c. iteration_order (lb_order L c)"
    and "tag_validator vl url" "validate_config base vl cfg = None" "new_app L ident cfg flag rg = (Inr a, rg')"
    and "second \<le> sc_cache_ttl (cf_sync cfg)" "second dvd sc_cache_ttl (cf_sync cfg)"
    and "ex_ms (sc_cache_ttl (cf_sync cfg)) * millisecond = sc_cache_ttl (cf_sync cfg)"
    and "\<forall>k \<in> set wire_names. all_absent (lb_keys L) (st_prefix (ap_store a)) k (view s)"
    and "(timed_step (ap_store a) view (lb_keys L) (lb_codec L) clk published we wi wfr (ap_worker a))\<^sup>*\<^sup>*
      (m0, start_world a s c) (m, w)"
    and "fst (serve (fst (routes_init (app_router L sha ua a) w0)) req w) = \<lparr>ra_answer = Fields 200 body, ra_skip_log = skip\<rparr>"
    and "hq_method req = ''GET''" "hq_path req = ''/readyz''"
    and "fst (lb_now L (wd_env w)) = now" "m * millisecond \<le> nanos now"
    and "cache = (\<lambda>k. abs_type (lb_keys L) (lb_codec L) (st_prefix (ap_store a)) (view (wd_store w)) k)"
  shows "sc_types (cf_sync cfg) \<noteq> [] \<and>
    (\<forall>k \<in> set (sc_types (cf_sync cfg)). \<exists>t i f. wire_type t = Inr k \<and> tc_etag (cache k) = Some i \<and>
       tc_freshness (cache k) = Some f \<and> time_before now (fr_valid_until f) \<and>
       (\<forall>x. case filter (\<lambda>a. normalize_territory (lb_keys L) (ta_country a) = x) (published t i) of
           [] \<Rightarrow> tc_entries (cache k) x = None
         | bs \<Rightarrow> \<exists>e. tc_entries (cache k) x = Some e \<and> en_anchors e = map (cached_of (normalize_territory (lb_keys L))) bs \<and>
             en_snapshot_id e = i \<and> en_type e = k \<and> en_territory e = x \<and> en_valid_until e = fr_valid_until f))"
proof -
  let ?R = "app_router L sha ua a"
  note parts = new_app_parts [OF assms(7)]
  note wired = app_wired [OF assms(5-7,4,8)]
  have sy: "sy_cfg (wk_syncer (ap_worker a)) = cf_sync cfg"
    "sy_normalize (wk_syncer (ap_worker a)) = normalize_territory (lb_keys L)"
    by (rule app_init_ok [OF new_app_init [OF assms(7)]], simp add: wire_worker_def new_syncer_def)+
  obtain ts where "parse_types (sc_types (cf_sync cfg)) = Inr ts"
    using assms(6) tag_validator.validate_config_ok [OF assms(5), of base cfg] tag_validator.validate_sync_ok [OF assms(5)]
    by (auto simp: is_ok_def)
  then have ts: "map wire_type ts = map Inr (sc_types (cf_sync cfg))" by (simp add: parse_types_ok)
  have "map_of (fst (routes_init ?R w0)) (''GET'', ''/readyz'') = Some (readyz ?R)"
    by (simp add: routes_init_def Let_def)
  with assms(13-16) have "fst (ready (wd_health w) now)"
    by (cases "ready (wd_health w) now") (auto simp: serve_def readyz_def clock_at_def split: if_splits)
  then have live: "hs_required (wd_health w) \<noteq> []" "list_all (live (wd_health w) now) (hs_required (wd_health w))"
    by (simp_all add: fst_ready)
  have req: "hs_required (wd_health w) = sc_types (cf_sync cfg)"
    using timed_steps_required [OF assms(12)] parts(3) by (simp add: start_world_def new_state_def)
  have now: "valid_time now"
    using worker_clock.now_bounds(1) [of "wk_syncer (ap_worker a)" clk "wd_env w"] assms(3,16) parts(1)
    by (simp add: app_clock_def)
  note run = valkey_store.timed_steps_served [OF assms(1,3) wired refl assms(2,12), unfolded sy, OF refl assms(9,10)]
  have start: "served (lb_keys L) (lb_codec L) (st_prefix (ap_store a)) nrm pub k n m (view (wd_store (start_world a s c)))
      (hs_fresh (wd_health (start_world a s c)) k)" if "k \<in> set wire_names" for k nrm pub n m
    using that assms(11) absent_covers by (auto simp: served_def start_world_def parts(3) new_state_def)
  have "\<exists>t i f. wire_type t = Inr k \<and> tc_etag (cache k) = Some i \<and> tc_freshness (cache k) = Some f \<and>
      time_before now (fr_valid_until f) \<and>
      holds_anchors (normalize_territory (lb_keys L)) k (published t i) i (fr_valid_until f) (tc_entries (cache k))"
    if k: "k \<in> set (sc_types (cf_sync cfg))" for k
  proof -
    from k have "Inr k \<in> wire_type ` set ts" using arg_cong [OF ts, of set] by auto
    then obtain t where t: "wire_type t = Inr k" by auto
    from live(2) req k obtain fr where fr: "hs_fresh (wd_health w) k = Some fr" "time_before now (validUntil fr)"
      by (auto simp: list_all_iff live_def split: option.splits)
    from run [OF t] start [OF wire_type_in_names [OF t]]
    have inv: "served (lb_keys L) (lb_codec L) (st_prefix (ap_store a)) (normalize_territory (lb_keys L)) (published t) k m
        (clk (wd_env w) + sc_cache_ttl (cf_sync cfg)) (view (wd_store w)) (hs_fresh (wd_health w) k)" by simp
    then have "nanos now < nanos (validUntil fr)" using fr now by (auto simp: served_def nanos_before)
    with assms(17) inv fr(1) obtain i f where "tc_etag (cache k) = Some i" "tc_freshness (cache k) = Some f"
      "holds_anchors (normalize_territory (lb_keys L)) k (published t i) i (fr_valid_until f) (tc_entries (cache k))"
      "valid_time (fr_valid_until f)" "nanos (validUntil fr) \<le> nanos (fr_valid_until f)"
      by (fastforce simp: served_def assms(18))
    with t now \<open>nanos now < nanos (validUntil fr)\<close> show ?thesis by (auto simp: nanos_before)
  qed
  with live(1) req show ?thesis unfolding holds_anchors_def by simp
qed

text \<open>The reference application's first poll brings three anchors of two territories; a minute later it is ready, and the
  two anchors of \<open>LV\<close> are there.\<close>

definition aged :: "int \<Rightarrow> refsrv \<Rightarrow> refsrv" where
  "aged n s = s\<lparr>rs_ks := (rs_ks s)\<lparr>ks_val := (\<lambda>k. expire_after n (ks_val (rs_ks s) k))\<rparr>\<rparr>"

definition ref_millis :: int where
  "ref_millis = 63918763200000"

lemma ref_millis: "nanos (time_unix 1783166400) = ref_millis * millisecond"
  "nanos (time_unix 1783166460) = (ref_millis + 60000) * millisecond"
  by (simp_all add: nanos_def time_unix_def i64_def second_def millisecond_def ref_millis_def)

theorem ready_app_serves_published_anchors_witness:
  "\<exists>a w resp e.
     (timed_step ref_store rs_ks ref_keys ref_codec (\<lambda>c. nanos (time_unix (re_time c mod 4000000000)))
        (\<lambda>t i. as_anchors sample_set) (\<lambda>_. True) (\<lambda>_. True) (\<lambda>_. True) (ap_worker a))\<^sup>*\<^sup>*
       (ref_millis, start_world a ref_srv cold_env) (ref_millis + 60000, w) \<and>
     fst (serve (fst (routes_init (app_router (ref_platform False) rev (ErrMsg ''unauthorized'') a) w))
       \<lparr>hq_method = ''GET'', hq_path = ''/readyz'', hq_api_key = []\<rparr> w) = resp \<and>
     ra_answer resp = Fields 200 [(''status'', ''ok'')] \<and>
     tc_entries (abs_type ref_keys ref_codec (st_prefix ref_store) (rs_ks (wd_store w)) ''pid_provider'') ''LV'' = Some e \<and>
     length (en_anchors e) = 2 \<and> time_before (time_unix 1783166460) (en_valid_until e)"
proof -
  let ?clk = "\<lambda>c. nanos (time_unix (re_time c mod 4000000000))" and ?pub = "\<lambda>(t :: anchor_type) (i :: string). as_anchors sample_set"
  let ?req = "\<lparr>hq_method = ''GET'', hq_path = ''/readyz'', hq_api_key = []\<rparr>"
  obtain a w1 where a: "new_app (ref_platform False) 0 ref_config (Some True) empty_registry = (Inr a, register_metrics 0 empty_registry)"
    "ap_store a = ref_store" "wk_syncer (ap_worker a) = ref_syncer"
    and clk: "app_clock (ap_worker a) ?clk"
    and run: "sync_type ref_syncer PIDProvider (start_world a ref_srv cold_env) = (Inr (), w1)"
    and step: "app_step (\<lambda>_. True) (\<lambda>_. True) (\<lambda>_. True) (ap_worker a) (start_world a ref_srv cold_env) w1"
    and env: "re_time (wd_env w1) = 1783166400"
    by (rule cold_run)
  let ?new = "start_world a ref_srv cold_env"
  let ?w = "w1\<lparr>wd_store := aged 60000 (wd_store w1), wd_env := (wd_env w1)\<lparr>re_time := 1783166460\<rparr>\<rparr>"
  let ?step = "timed_step ref_store rs_ks ref_keys ref_codec ?clk ?pub (\<lambda>_. True) (\<lambda>_. True) (\<lambda>_. True) (ap_worker a)"
  have reply: "fst (anchors_call ref_syncer t ?new) = Inr (sample_set, True)" for t
    by (simp add: anchors_call_def ref_syncer_def ref_client_def start_world_def cold_env_def)
  have "sound_poll ref_store rs_ks ref_keys ref_codec ?clk ?pub ref_syncer ref_millis t ?new w1" for t
    using env ref_millis(1) by (simp add: sound_poll_def reply millisecond_def)
  then have 1: "?step (ref_millis, ?new) (ref_millis, w1)" using step a(3) by (intro timed_step.work) simp_all
  have "idle ?clk w1 ?w"
    using env by (simp add: idle_def ref_millis millisecond_def)
  then have "?step (ref_millis, w1) (ref_millis + 60000, ?w)"
    by (intro timed_step.pass) (simp_all add: expires_def aged_def)
  with 1 have steps: "?step\<^sup>*\<^sup>* (ref_millis, ?new) (ref_millis + 60000, ?w)"
    by (intro converse_rtranclp_into_rtranclp [OF _ r_into_rtranclp])
  have health: "wd_health ?new = new_state [''pid_provider'']"
    using new_app_parts(3) [OF a(1)] by (simp add: start_world_def ref_config_def)
  have now: "fst (lb_now (ref_platform False) (wd_env ?w)) = time_unix 1783166460" by (simp add: ref_syncer_def)
  have "time_before (time_unix 1783166460) (time_add (time_unix 1783166400) (45 * minute))" by code_simp
  then have ahead: "time_before (time_unix 1783166460)
      (time_add (fst (sy_now ref_syncer (poll_env ref_syncer PIDProvider ?new))) (sc_cache_ttl (sy_cfg ref_syncer)))"
    by (simp add: poll_env_def anchors_call_def ref_syncer_def ref_client_def start_world_def cold_env_def)
  have "fst (ready (wd_health ?w) (time_unix 1783166460))"
    by (rule sync_type_cases [OF wire_pid run])
      (use ahead in \<open>auto simp: fst_ready health new_state_def live_def poll_now_def\<close>)
  moreover have "map_of (fst (routes_init (app_router (ref_platform False) rev (ErrMsg ''unauthorized'') a) ?w)) (''GET'', ''/readyz'') =
      Some (readyz (app_router (ref_platform False) rev (ErrMsg ''unauthorized'') a))"
    by (simp add: routes_init_def Let_def)
  ultimately have ok: "fst (serve (fst (routes_init (app_router (ref_platform False) rev (ErrMsg ''unauthorized'') a) ?w)) ?req ?w) =
      \<lparr>ra_answer = Fields 200 [(''status'', ''ok'')], ra_skip_log = True\<rparr>"
    using now by (cases "ready (wd_health ?w) (time_unix 1783166460)") (simp add: serve_def readyz_def clock_at_def)
  have valid: "validate_config (\<lambda>_. None) ref_validator ref_config = None" by (rule ref_config_valid)
  have keys: "worker_keys ref_keys (set wire_names)" unfolding ref_keys_def by (rule readme_worker.worker_keys_axioms)
  have start: "\<forall>k \<in> set wire_names. all_absent ref_keys (st_prefix ref_store) k (rs_ks ref_srv)"
    by (simp add: all_absent_def ref_srv_def empty_ks_def)
  have cfg: "second \<le> sc_cache_ttl (cf_sync ref_config)" "second dvd sc_cache_ttl (cf_sync ref_config)"
    "ref_ex_ms (sc_cache_ttl (cf_sync ref_config)) * millisecond = sc_cache_ttl (cf_sync ref_config)"
    "sc_types (cf_sync ref_config) = [''pid_provider'']"
    by (simp_all add: ref_config_def minute_def second_def ref_ex_ms_def go_div_def millisecond_def)
  have clock: "(ref_millis + 60000) * millisecond \<le> nanos (time_unix 1783166460)" by (simp add: ref_millis)
  have order: "\<forall>c. iteration_order (lb_order (ref_platform False) c)" by (simp add: iteration_order_rev)
  have route: "hq_method ?req = ''GET''" "hq_path ?req = ''/readyz''" by simp_all
  have pid: "''pid_provider'' \<in> set (sc_types (cf_sync ref_config))" by (simp add: cfg(4))
  note served = ready_app_serves_published_anchors [where L = "ref_platform False" and a = a and view = rs_ks and s = ref_srv,
      unfolded a(2) ref_platform_simps, OF ref_store.valkey_store_axioms keys clk order [unfolded ref_platform_simps] ref_validator.tag_validator_axioms valid
      a(1) cfg(1-3) start steps ok route now [unfolded ref_platform_simps] clock refl, THEN conjunct2, THEN bspec, OF pid]
  have lv: "filter (\<lambda>a. normalize_territory ref_keys (ta_country a) = ''LV'') (as_anchors sample_set) =
      [sample_anchor ''lv'', sample_anchor ''LV'']"
    by (simp add: sample_set_def sample_anchor_def)
  from served obtain i and f :: type_freshness where f: "time_before (time_unix 1783166460) (fr_valid_until f)"
    and e: "\<forall>x. case filter (\<lambda>a. normalize_territory ref_keys (ta_country a) = x) (as_anchors sample_set) of
           [] \<Rightarrow> tc_entries (abs_type ref_keys ref_codec (st_prefix ref_store) (rs_ks (wd_store ?w)) ''pid_provider'') x = None
         | bs \<Rightarrow> \<exists>e. tc_entries (abs_type ref_keys ref_codec (st_prefix ref_store) (rs_ks (wd_store ?w)) ''pid_provider'') x = Some e \<and>
             en_anchors e = map (cached_of (normalize_territory ref_keys)) bs \<and>
             en_snapshot_id e = i \<and> en_type e = ''pid_provider'' \<and> en_territory e = x \<and> en_valid_until e = fr_valid_until f"
    by blast
  from e [THEN spec, of "''LV''", unfolded lv, simplified] obtain e where
    "tc_entries (abs_type ref_keys ref_codec (st_prefix ref_store) (rs_ks (wd_store ?w)) ''pid_provider'') ''LV'' = Some e"
    "length (en_anchors e) = 2" "en_valid_until e = fr_valid_until f" by auto
  with f steps ok show ?thesis by (intro exI [of _ a] exI [of _ ?w] exI [of _ e] exI conjI) (rule refl | simp)+
qed

end
