(* ===== verification/Keyspace.thy ===== *)
theory Keyspace
  imports Running_App
begin

text \<open>
  Which part of the shared Valkey the worker touches: the keys of the README's table under its own prefix.
  The argument goes through the commands: every batch the store builds consists of commands on such keys
  (\<open>own_cmd\<close>), and such commands change nothing else (\<open>own_change\<close>).
\<close>

section \<open>The table of keys\<close>

definition table_key :: "key_contract \<Rightarrow> string \<Rightarrow> bool" where
  "table_key K j \<longleftrightarrow>
     (\<exists>t \<in> set wire_names. (\<exists>x. j = anchor_set_key K t x) \<or> j = territory_index_key K t \<or> j = etag_key K t \<or>
        j = freshness_key K t) \<or>
     j = snapshot_health_key K \<or> (\<exists>u. j = status_list_key K u)"

definition own_change :: "key_contract \<Rightarrow> string \<Rightarrow> keyspace \<Rightarrow> keyspace \<Rightarrow> bool" where
  "own_change K p ks ks' \<longleftrightarrow>
     (\<forall>k. ks_val ks' k = ks_val ks k \<or> (\<exists>j. table_key K j \<and> k = p @ j)) \<and>
     (\<forall>k. ks_zset ks' k = ks_zset ks k \<or> (\<exists>j. (table_key K j \<or> j = status_refs_key K) \<and> k = p @ j)) \<and>
     (\<forall>k. set (ks_zset ks' k) \<subseteq> set (ks_zset ks k))"

lemma own_change_refl [simp, intro]: "own_change K p ks ks"
  by (simp add: own_change_def)

lemma own_change_trans:
  assumes "own_change K p a b" "own_change K p b c"
  shows "own_change K p a c"
  unfolding own_change_def
proof (intro conjI allI)
  fix k
  show "ks_val c k = ks_val a k \<or> (\<exists>j. table_key K j \<and> k = p @ j)"
    "ks_zset c k = ks_zset a k \<or> (\<exists>j. (table_key K j \<or> j = status_refs_key K) \<and> k = p @ j)"
    using assms unfolding own_change_def by metis+
  show "set (ks_zset c k) \<subseteq> set (ks_zset a k)" using assms unfolding own_change_def by blast
qed

section \<open>Commands\<close>

fun own_cmd :: "key_contract \<Rightarrow> string \<Rightarrow> cmd \<Rightarrow> bool" where
  "own_cmd K p (CSetEx k v ttl) = (\<exists>j. table_key K j \<and> k = p @ j)"
| "own_cmd K p (CDel k) = (\<exists>j. table_key K j \<and> k = p @ j)"
| "own_cmd K p (CExpire k n) = (\<exists>j. table_key K j \<and> k = p @ j)"
| "own_cmd K p (CZremrangebyrank k a b) = (k = p @ status_refs_key K)"
| "own_cmd K p _ = True"

lemma out_of_range_subset: "set (out_of_range a b xs) \<subseteq> set xs"
  by (auto simp: out_of_range_def Let_def dest: in_set_takeD in_set_dropD)

lemma own_cmd_change: "own_cmd K p c \<Longrightarrow> own_change K p ks (cmd_effect x c ks)"
  by (cases c) (auto simp: own_change_def split: option.splits dest: subsetD [OF out_of_range_subset])

lemma own_cmds_change: "list_all (own_cmd K p) cs \<Longrightarrow> own_change K p ks (fold (cmd_effect x) cs ks)"
proof (induction cs arbitrary: ks)
  case (Cons c cs)
  then show ?case using own_change_trans [OF own_cmd_change [of K p c ks x]] by simp
qed simp

section \<open>The operations of the store\<close>

lemma type_keys:
  "t \<in> set wire_names \<Longrightarrow> table_key K (anchor_set_key K t x)" "t \<in> set wire_names \<Longrightarrow> table_key K (territory_index_key K t)"
  "t \<in> set wire_names \<Longrightarrow> table_key K (etag_key K t)" "t \<in> set wire_names \<Longrightarrow> table_key K (freshness_key K t)"
  "table_key K (snapshot_health_key K)" "table_key K (status_list_key K u)"
  by (auto simp: table_key_def)

context valkey_store
begin

lemma own_swap_cmds:
  assumes "entry_cmds st K C (sw_key_type sw) (sw_ttl sw) (sw_entries sw) = Inr sets" "sw_key_type sw \<in> set wire_names"
  shows "list_all (own_cmd K (st_prefix st)) (swap_cmds st K sw prev sets idx fr)"
  unfolding list_all_iff
  by (intro ballI, erule swap_cmds_cases [OF assms(1)]) (use type_keys assms(2) in \<open>auto simp: st_key_def\<close>)

lemma own_refresh_cmds:
  assumes "t \<in> set wire_names"
  shows "list_all (own_cmd K (st_prefix st)) (refresh_cmds st K t ttl prev m fr)"
  unfolding list_all_iff
  by (intro ballI, erule refresh_cmds_cases) (use type_keys assms in \<open>auto simp: st_key_def split: option.splits\<close>)

lemma own_swap:
  assumes "swap_anchor_type st K C sw s = (r, s')" "sw_key_type sw \<in> set wire_names" "wire = set wire_names" "second \<le> sw_ttl sw"
  shows "own_change K (st_prefix st) (view s) (view s')"
proof (rule swap_run [OF _ assms(4,1)], goal_cases known early batch)
  case (batch prev sets idx fr)
  from own_cmds_change [OF own_swap_cmds [OF batch(2) assms(2)]] batch(5) show ?case by auto
qed (use assms in simp_all)

lemma own_refresh:
  assumes "refresh_anchor_type st K C t f ttl s = (r, s')" "t \<in> set wire_names" "wire = set wire_names" "second \<le> ttl"
  shows "own_change K (st_prefix st) (view s) (view s')"
proof (rule refresh_run [OF _ assms(4,1)], goal_cases known early batch)
  case (batch prev m fr)
  from own_cmds_change [OF own_refresh_cmds [OF assms(2)]] batch(5) show ?case by auto
qed (use assms in simp_all)

lemma own_set_bytes:
  assumes "set_bytes st k v ttl s = (r, s')" "table_key K k"
  shows "own_change K (st_prefix st) (view s) (view s')"
proof -
  have "own_cmd K (st_prefix st) (CSetEx (st_key st k) v ttl)" using assms(2) by (auto simp: st_key_def)
  note own = own_cmd_change [OF this]
  show ?thesis
    by (rule set_bytes_cases [OF assms(1)]) (use own in auto)
qed

lemma own_trim:
  assumes "trim_status_refs st K n s = (r, s')"
  shows "own_change K (st_prefix st) (view s) (view s')"
proof -
  have "own_cmd K (st_prefix st) (CZremrangebyrank (st_key st (status_refs_key K)) a b)" for a b by (simp add: st_key_def)
  note own = own_cmd_change [OF this]
  show ?thesis
    by (rule trim_cases [OF assms]) (use own in auto)
qed

section \<open>The steps of the worker\<close>

lemma own_sync:
  assumes S: "syncer_on st K C S" and wire: "wire = set wire_names" and run: "sync_type S t w = (r, w')"
  shows "own_change K (st_prefix st) (view (wd_store w)) (view (wd_store w'))"
proof (cases "wire_type t")
  case (Inl e)
  with run show ?thesis by (simp add: sync_type_def)
next
  case (Inr k)
  have I: "sy_store S = valkey_iface st K C" "second \<le> sc_cache_ttl (sy_cfg S)"
    using S by (simp_all add: syncer_on_def)
  have k: "k \<in> set wire_names" by (rule wire_type_in_names [OF Inr])
  have swap: "own_change K (st_prefix st) (view (wd_store w)) (view s')"
    if "si_swap (sy_store S) (poll_swap S t k aset w) (wd_store w) = (q, s')" for aset q s'
    using own_swap [of "poll_swap S t k aset w" "wd_store w" q s'] that I k wire by (simp add: valkey_iface_def poll_swap_def)
  have refresh: "own_change K (st_prefix st) (view (wd_store w)) (view s')"
    if "si_refresh (sy_store S) k f (sc_cache_ttl (sy_cfg S)) (wd_store w) = (q, s')" for f q s'
    using own_refresh [of k f _ "wd_store w" q s'] that I k wire by (simp add: valkey_iface_def)
  show ?thesis
    by (rule sync_type_cases [OF Inr run]) (use swap refresh in auto)
qed

lemma own_step:
  assumes W: "worker_on st K C W" and wire: "wire = set wire_names" and step: "app_step we wi wfr W w w'"
  shows "own_change K (st_prefix st) (view (wd_store w)) (view (wd_store w'))"
  using step
proof cases
  case (sync t r)
  with own_sync [OF _ wire sync(1)] W show ?thesis by (simp add: worker_on_def)
next
  case (snapshot r)
  have set: "own_change K (st_prefix st) (view (wd_store w)) (view s)"
    if "ss_set_json (po_store (wk_poller W)) (snapshot_health_key (po_keys (wk_poller W))) h ttl (wd_store w) = (q, s)" for h ttl q s
    using that W own_set_bytes [OF _ type_keys(5)]
    by (auto simp: worker_on_def valkey_snapshots_def set_json_def split: sum.splits)
  show ?thesis by (rule poll_cases [OF snapshot]) (use set in auto)
next
  case (list_refs n q s)
  with W top_view show ?thesis by (auto simp: worker_on_def valkey_refs_def)
next
  case (one_list u)
  let ?P = "wk_prefetcher W"
  have P: "pf_store ?P = valkey_status st K" "pf_list_key ?P u = status_list_key K u"
    using W by (simp_all add: worker_on_def)
  have g: "view s' = view s" if "su_get_ttl (pf_store ?P) k s = (q, s')" for k s q s'
    using that P(1) get_ttl_view by (simp add: valkey_status_def)
  show ?thesis
    unfolding one_list
  proof (rule prefetch_one_cases [of ?P u w], goal_cases ttl_error hit fetch_error written)
    case (written x s body c now c2 q s2)
    have "own_change K (st_prefix st) (view s) (view s2)"
      using written(5) P own_set_bytes [OF _ type_keys(6)] by (simp add: valkey_status_def)
    with g [OF written(1)] written(6) show ?case by simp
  qed (use g in fastforce)+
next
  case trim
  obtain q s where t: "trim_status_refs st K refs_keep_bound (wd_store w) = (q, s)" by force
  then have "wd_store w' = s"
    using trim W by (auto simp: trim_refs_def worker_on_def valkey_status_def Let_def split: sum.splits)
  with own_trim [OF t] show ?thesis by simp
qed simp_all

end

lemma app_prefix:
  assumes "new_app L ident cfg flag rg = (Inr a, rg')"
  shows "st_prefix (ap_store a) = key_prefix (cf_valkey_key_prefix cfg)"
  by (rule app_init_ok [OF new_app_init [OF assms]])
    (auto simp: new_store_def store_options_def split: sum.splits)

section \<open>Properties\<close>

text \<open>
  C9. The worker stays in its keyspace: whatever its loops meet and in whatever order they run, a key whose value
  they change is one of the README's table under the configured prefix (anchor sets, index, etag and freshness of
  a known type, the snapshot record, a cached status list); of the sorted sets they change only the status
  references under that prefix or remove a set that stood at a key of the table, and no member is ever added:
  references come from the verifiers alone.
\<close>

theorem worker_stays_in_its_keyspace:
  assumes "valkey_store (ap_store a) view ex_ms (lb_keys L) (set wire_names) (lb_codec L) we wi wfr"
    and "tag_validator vl url" "validate_config base vl cfg = None" "new_app L ident cfg flag rg = (Inr a, rg')"
    and "\<forall>c. iteration_order (lb_order L c)" "second \<le> sc_cache_ttl (cf_sync cfg)"
    and "(app_step pe px pf (ap_worker a))\<^sup>*\<^sup>* w0 w"
  shows "(\<forall>k. ks_val (view (wd_store w)) k = ks_val (view (wd_store w0)) k \<or>
      (\<exists>j. table_key (lb_keys L) j \<and> k = key_prefix (cf_valkey_key_prefix cfg) @ j)) \<and>
    (\<forall>k. ks_zset (view (wd_store w)) k = ks_zset (view (wd_store w0)) k \<or>
      (\<exists>j. (table_key (lb_keys L) j \<or> j = status_refs_key (lb_keys L)) \<and> k = key_prefix (cf_valkey_key_prefix cfg) @ j)) \<and>
    (\<forall>k. set (ks_zset (view (wd_store w)) k) \<subseteq> set (ks_zset (view (wd_store w0)) k))"
proof -
  have "own_change (lb_keys L) (st_prefix (ap_store a)) (view (wd_store w0)) (view (wd_store w))"
    using assms(7)
  proof (induction rule: rtranclp_induct)
    case (step w1 w2)
    from own_change_trans [OF step.IH valkey_store.own_step [OF assms(1) app_wired [OF assms(2-6)] refl step(2)]]
    show ?case .
  qed simp
  then show ?thesis unfolding own_change_def app_prefix [OF assms(4)] .
qed

theorem worker_stays_in_its_keyspace_witness:
  "\<exists>(a :: (refsrv, ref_env, unit) app) w.
     (app_step (\<lambda>_. True) (\<lambda>_. True) (\<lambda>_. True) (ap_worker a))\<^sup>*\<^sup>* (start_world a ref_srv cold_env) w \<and>
     wd_health w \<noteq> wd_health (start_world a ref_srv cold_env) \<and>
     (\<forall>k. (\<nexists>j. table_key ref_keys j \<and> k = key_prefix ''verifierdev'' @ j) \<longrightarrow> ks_val (rs_ks (wd_store w)) k = ks_val (rs_ks ref_srv) k)"
proof -
  obtain a w where a: "new_app (ref_platform False) 0 ref_config (Some True) empty_registry = (Inr a, register_metrics 0 empty_registry)"
    and st: "ap_store a = ref_store"
    and run: "sync_type ref_syncer PIDProvider (start_world a ref_srv cold_env) = (Inr (), w)"
    and step: "app_step (\<lambda>_. True) (\<lambda>_. True) (\<lambda>_. True) (ap_worker a) (start_world a ref_srv cold_env) w"
    by (rule cold_run)
  have steps: "(app_step (\<lambda>_. True) (\<lambda>_. True) (\<lambda>_. True) (ap_worker a))\<^sup>*\<^sup>* (start_world a ref_srv cold_env) w"
    using step by (rule r_into_rtranclp)
  have "hs_fresh (wd_health (start_world a ref_srv cold_env)) ''pid_provider'' = None"
    using new_app_parts(3) [OF a] by (simp add: start_world_def new_state_def)
  moreover have "hs_fresh (wd_health w) ''pid_provider'' \<noteq> None"
    by (rule sync_type_cases [OF wire_pid run]) (auto simp: record_freshness_def)
  ultimately have "wd_health w \<noteq> wd_health (start_world a ref_srv cold_env)" by metis
  moreover have "valkey_store (ap_store a) rs_ks ref_ex_ms (lb_keys (ref_platform False)) (set wire_names)
      (lb_codec (ref_platform False)) (\<lambda>_. True) (\<lambda>_. True) (\<lambda>_. True)"
    unfolding st ref_platform_simps by (rule ref_store.valkey_store_axioms)
  note keyspace = worker_stays_in_its_keyspace [OF this ref_validator.tag_validator_axioms ref_config_valid a _ _ steps]
  have "cf_valkey_key_prefix ref_config = ''verifierdev''" "second \<le> sc_cache_ttl (cf_sync ref_config)"
    "wd_store (start_world a ref_srv cold_env) = ref_srv"
    by (simp_all add: ref_config_def minute_def second_def start_world_def)
  ultimately show ?thesis
    using steps keyspace by (intro exI [of _ a] exI [of _ w]) (auto simp: iteration_order_rev)
qed

end
