(* ===== verification/Whole_Worker.thy ===== *)
theory Whole_Worker
  imports Running_App
begin

text \<open>
  The worker as its goroutines run it: three scheduled tasks, each with its ticker and its loop
  (\<open>Schedule\<close>), whose jobs proceed in small steps over the one store, readiness state and registry; the
  syncer's \<open>Run\<close> with its lock (\<open>Sync_Run\<close>), called by the sync task and by any number of resync requests;
  and the handlers that read the clock. The system is shown to refine the looser relations the other theories reason
  about, and to be silent after shutdown.
\<close>

section \<open>State\<close>

datatype job = TrustSync | TrustSnapshot | StatusPrefetch

text \<open>Where a goroutine is inside its job: not in it, in its call of \<open>Run\<close> (by number), about to poll, about to list
  the references, with lists left to do, about to log the job's error, at its end.\<close>

datatype job_pc =
    Outside
  | InRun nat
  | Polling
  | Listing
  | Lists "string list"
  | Failing string gerr
  | Finished

text \<open>\<open>sm_run\<close> holds the shared world with the state of \<open>Run\<close>; \<open>sm_calls\<close> counts the calls of \<open>Run\<close> so far.\<close>

record ('s, 'c) system =
  sm_run :: "('s, 'c) run_state"
  sm_calls :: nat
  sm_task :: "job \<Rightarrow> unit task_state"
  sm_pc :: "job \<Rightarrow> nat \<Rightarrow> job_pc"

abbreviation sm_world :: "('s, 'c) system \<Rightarrow> ('s, 'c) world" where
  "sm_world s \<equiv> rn_world (sm_run s)"

definition system_init :: "('s, 'c) world \<Rightarrow> ('s, 'c) system" where
  "system_init w =
     \<lparr>sm_run = run_init w, sm_calls = 0, sm_task = (\<lambda>_. task_init ()), sm_pc = (\<lambda>_ _. Outside)\<rparr>"

definition set_world :: "('s, 'c) world \<Rightarrow> ('s, 'c) system \<Rightarrow> ('s, 'c) system" where
  "set_world w s = s\<lparr>sm_run := (sm_run s)\<lparr>rn_world := w\<rparr>\<rparr>"

definition set_task :: "job \<Rightarrow> unit task_state \<Rightarrow> ('s, 'c) system \<Rightarrow> ('s, 'c) system" where
  "set_task j t s = s\<lparr>sm_task := (sm_task s)(j := t)\<rparr>"

definition set_pc :: "job \<Rightarrow> nat \<Rightarrow> job_pc \<Rightarrow> ('s, 'c) system \<Rightarrow> ('s, 'c) system" where
  "set_pc j c p s = s\<lparr>sm_pc := (sm_pc s)(j := (sm_pc s j)(c := p))\<rparr>"

lemma system_simps [simp]:
  "sm_run (set_world w s) = (sm_run s)\<lparr>rn_world := w\<rparr>" "sm_calls (set_world w s) = sm_calls s"
  "sm_task (set_world w s) = sm_task s" "sm_pc (set_world w s) = sm_pc s"
  "sm_run (set_task j t s) = sm_run s" "sm_calls (set_task j t s) = sm_calls s"
  "sm_task (set_task j t s) = (sm_task s)(j := t)" "sm_pc (set_task j t s) = sm_pc s"
  "sm_run (set_pc j c p s) = sm_run s" "sm_calls (set_pc j c p s) = sm_calls s"
  "sm_task (set_pc j c p s) = sm_task s" "sm_pc (set_pc j c p s) = (sm_pc s)(j := (sm_pc s j)(c := p))"
  by (simp_all add: set_world_def set_task_def set_pc_def)

section \<open>The tasks of the application\<close>

text \<open>The task of a job; its effect on the world is what the steps below do between its begin and its end.\<close>

fun app_task :: "'b app_config \<Rightarrow> job \<Rightarrow> unit task" where
  "app_task cfg TrustSync = new_task ''trust-sync'' (sc_poll_interval (cf_sync cfg)) (\<lambda>_ u. u)"
| "app_task cfg TrustSnapshot = new_task ''trust-snapshot'' (sc_snapshot_poll_interval (cf_sync cfg)) (\<lambda>_ u. u)"
| "app_task cfg StatusPrefetch = new_task ''status-prefetch'' (pc_interval (cf_prefetch cfg)) (\<lambda>_ u. u)"

lemma app_task_names: "map (\<lambda>j. (tk_name (app_task cfg j), tk_interval (app_task cfg j))) [TrustSync, TrustSnapshot, StatusPrefetch] = app_tasks cfg"
  by (simp add: app_tasks_def new_task_def)

definition in_job :: "'w task_state \<Rightarrow> nat \<Rightarrow> bool" where
  "in_job t c \<longleftrightarrow> (\<exists>cid. tk_loops t c = Some (InJob cid))"

fun job_entry :: "nat \<Rightarrow> job \<Rightarrow> job_pc" where
  "job_entry n TrustSync = InRun n"
| "job_entry n TrustSnapshot = Polling"
| "job_entry n StatusPrefetch = Listing"

section \<open>Steps\<close>

inductive system_step :: "('s, 'c, 'b) app \<Rightarrow> ('s, 'c) system \<Rightarrow> ('s, 'c) system \<Rightarrow> bool" for a :: "('s, 'c, 'b) app" where
  control: "task_step (app_task (ap_config a) j) (sm_task s j) t \<Longrightarrow> \<forall>c. in_job t c \<longleftrightarrow> in_job (sm_task s j) c \<Longrightarrow>
    system_step a s (set_task j t s)"
| begin_job: "task_step (app_task (ap_config a) j) (sm_task s j) t \<Longrightarrow> \<not> in_job (sm_task s j) c \<Longrightarrow> in_job t c \<Longrightarrow>
    system_step a s (set_pc j c (job_entry (sm_calls s) j) (set_task j t
      (s\<lparr>sm_calls := (if j = TrustSync then Suc (sm_calls s) else sm_calls s)\<rparr>)))"
| end_job: "task_step (app_task (ap_config a) j) (sm_task s j) t \<Longrightarrow> in_job (sm_task s j) c \<Longrightarrow> \<not> in_job t c \<Longrightarrow>
    sm_pc s j c = Finished \<Longrightarrow> system_step a s (set_pc j c Outside (set_task j t s))"
| resync_request: "system_step a s (s\<lparr>sm_calls := Suc (sm_calls s)\<rparr>)"
| run: "run_step (app_syncer a) (sm_run s) r \<Longrightarrow> \<forall>b \<ge> sm_calls s. rn_phase r b = rn_phase (sm_run s) b \<Longrightarrow>
    system_step a s (s\<lparr>sm_run := r\<rparr>)"
| run_returned: "sm_pc s j c = InRun n \<Longrightarrow> rn_phase (sm_run s) n = Returned e \<Longrightarrow>
    system_step a s (set_pc j c Finished s)"
| poll: "sm_pc s j c = Polling \<Longrightarrow> poll (wk_poller (ap_worker a)) (sm_world s) = (r, w) \<Longrightarrow>
    system_step a s (set_pc j c (case r of Inl e \<Rightarrow> Failing ''snapshot telemetry poll failed'' e | Inr _ \<Rightarrow> Finished)
      (set_world w s))"
| failing: "sm_pc s j c = Failing m e \<Longrightarrow>
    system_step a s (set_pc j c Finished (set_world (w_log LError m [(''error'', LvErr e)] (sm_world s)) s))"
| prefetch_off: "sm_pc s j c = Listing \<Longrightarrow> pc_top_n (pf_cfg (wk_prefetcher (ap_worker a))) \<le> 0 \<Longrightarrow>
    system_step a s (set_pc j c Finished s)"
| list_refs: "sm_pc s j c = Listing \<Longrightarrow> \<not> pc_top_n (pf_cfg (wk_prefetcher (ap_worker a))) \<le> 0 \<Longrightarrow>
    rf_top (pf_refs (wk_prefetcher (ap_worker a))) (pc_top_n (pf_cfg (wk_prefetcher (ap_worker a)))) (wd_store (sm_world s)) = (q, v) \<Longrightarrow>
    system_step a s (set_pc j c (case q of Inl e \<Rightarrow> Failing ''status-list prefetch failed'' (ErrWrap ''prefetch: list refs: '' e)
        | Inr us \<Rightarrow> Lists us)
      (set_world ((sm_world s)\<lparr>wd_store := v\<rparr>) s))"
| one_list: "sm_pc s j c = Lists (u # us) \<Longrightarrow>
    system_step a s (set_pc j c (Lists us) (set_world (prefetch_one (wk_prefetcher (ap_worker a)) u (sm_world s)) s))"
| trim: "sm_pc s j c = Lists [] \<Longrightarrow>
    system_step a s (set_pc j c Finished (set_world (trim_refs (wk_prefetcher (ap_worker a)) (sm_world s)) s))"
| probe: "system_step a s (set_world ((sm_world s)\<lparr>wd_env := snd (sy_now (app_syncer a) (wd_env (sm_world s)))\<rparr>) s)"

section \<open>The world moves as the loops do\<close>

lemma run_step_world:
  assumes "run_step (wk_syncer W) r r'" "\<forall>t w. poll_ok we wi wfr (wk_syncer W) t w"
  shows "(app_step we wi wfr W)\<^sup>*\<^sup>* (rn_world r) (rn_world r')"
  using assms(1)
proof cases
  case (poll c d t ts)
  with sync_one_steps [of we wi wfr W t "rn_world r"] assms(2) show ?thesis by simp
next
  case (bad_config c e)
  then show ?thesis by (auto intro: app_step.report)
qed simp_all

lemma system_world:
  assumes "system_step a s s'" "\<forall>t w. poll_ok we wi wfr (wk_syncer (ap_worker a)) t w"
  shows "(app_step we wi wfr (ap_worker a))\<^sup>*\<^sup>* (sm_world s) (sm_world s')"
  using assms(1)
proof cases
  case (run r)
  with run_step_world [OF _ assms(2)] show ?thesis by (simp add: app_syncer_def)
next
  case (poll j c r w)
  then show ?thesis by (auto intro: app_step.snapshot)
next
  case (list_refs j c q v)
  then show ?thesis by (auto intro: app_step.list_refs)
next
  case probe
  then show ?thesis by (auto simp: app_syncer_def intro: app_step.look)
qed (auto intro: app_step.report app_step.one_list app_step.trim)

text \<open>Each task moves as its schedule allows.\<close>

lemma system_task:
  assumes "system_step a s s'"
  shows "(task_step (app_task (ap_config a) j))\<^sup>*\<^sup>* (sm_task s j) (sm_task s' j)"
  using assms by cases auto

text \<open>The control state of \<open>Run\<close> moves as if nothing else touched the world.\<close>

lemma run_step_shadow:
  assumes "run_step S r r'"
  shows "\<exists>v'. run_step S (r\<lparr>rn_world := v\<rparr>) (r'\<lparr>rn_world := v'\<rparr>)"
  using assms
proof cases
  case (join c d)
  with run_step.join [of "r\<lparr>rn_world := v\<rparr>" c d S] show ?thesis by (cases r) auto
next
  case (start c ts)
  with run_step.start [of "r\<lparr>rn_world := v\<rparr>" c S ts] show ?thesis by (cases r) auto
next
  case (bad_config c e)
  with run_step.bad_config [of "r\<lparr>rn_world := v\<rparr>" c S e] show ?thesis by (cases r) auto
next
  case (poll c d t ts)
  with run_step.poll [of "r\<lparr>rn_world := v\<rparr>" c d t ts S] show ?thesis by (cases r) auto
next
  case (cycle_end c d)
  with run_step.cycle_end [of "r\<lparr>rn_world := v\<rparr>" c d S] show ?thesis by (cases r) auto
next
  case (clear c d)
  with run_step.clear [of "r\<lparr>rn_world := v\<rparr>" c d S] show ?thesis by (cases r) auto
next
  case (close c d)
  with run_step.close [of "r\<lparr>rn_world := v\<rparr>" c d S] show ?thesis by (cases r) auto
next
  case (joined c d)
  with run_step.joined [of "r\<lparr>rn_world := v\<rparr>" c d S] show ?thesis by (cases r) auto
next
  case (expired c d)
  with run_step.expired [of "r\<lparr>rn_world := v\<rparr>" c d S] show ?thesis by (cases r) auto
qed

lemma system_run:
  assumes "system_step a s s'"
  shows "\<exists>v'. (run_step (app_syncer a))\<^sup>*\<^sup>* ((sm_run s)\<lparr>rn_world := v\<rparr>) ((sm_run s')\<lparr>rn_world := v'\<rparr>)"
  using assms
proof cases
  case (run r)
  with run_step_shadow [OF run(2), of v] show ?thesis by auto
qed (auto intro!: exI [of _ v])

lemma system_steps_refine:
  assumes "(system_step a)\<^sup>*\<^sup>* (system_init w) z" "\<forall>t w. poll_ok we wi wfr (wk_syncer (ap_worker a)) t w"
  shows "(app_step we wi wfr (ap_worker a))\<^sup>*\<^sup>* w (sm_world z)"
    "(task_step (app_task (ap_config a) j))\<^sup>*\<^sup>* (task_init ()) (sm_task z j)"
    "\<exists>v. (run_step (app_syncer a))\<^sup>*\<^sup>* (run_init w) ((sm_run z)\<lparr>rn_world := v\<rparr>)"
  using assms(1)
proof (induction rule: rtranclp_induct)
  case base
  show "(app_step we wi wfr (ap_worker a))\<^sup>*\<^sup>* w (sm_world (system_init w))"
    "(task_step (app_task (ap_config a) j))\<^sup>*\<^sup>* (task_init ()) (sm_task (system_init w) j)"
    by (simp_all add: system_init_def run_init_def)
  show "\<exists>v. (run_step (app_syncer a))\<^sup>*\<^sup>* (run_init w) ((sm_run (system_init w))\<lparr>rn_world := v\<rparr>)"
    by (rule exI [of _ w]) (simp add: system_init_def run_init_def)
next
  case (step y z)
  show "(app_step we wi wfr (ap_worker a))\<^sup>*\<^sup>* w (sm_world z)"
    by (rule rtranclp_trans [OF step(3) system_world [OF step(2) assms(2)]])
  show "(task_step (app_task (ap_config a) j))\<^sup>*\<^sup>* (task_init ()) (sm_task z j)"
    by (rule rtranclp_trans [OF step(4) system_task [OF step(2)]])
  from step(5) obtain v where v: "(run_step (app_syncer a))\<^sup>*\<^sup>* (run_init w) ((sm_run y)\<lparr>rn_world := v\<rparr>)" by blast
  obtain v' where "(run_step (app_syncer a))\<^sup>*\<^sup>* ((sm_run y)\<lparr>rn_world := v\<rparr>) ((sm_run z)\<lparr>rn_world := v'\<rparr>)"
    using system_run [OF step(2)] by blast
  with v show "\<exists>v. (run_step (app_syncer a))\<^sup>*\<^sup>* (run_init w) ((sm_run z)\<lparr>rn_world := v\<rparr>)" by (meson rtranclp_trans)
qed

section \<open>Where a goroutine can be\<close>

lemma one_goroutine:
  assumes "task_step T t t'" "in_job t c \<noteq> in_job t' c" "c' \<noteq> c"
  shows "in_job t' c' = in_job t c'"
  using assms
  by cases (auto simp: in_job_def step_defs split: option.splits if_splits)

text \<open>Only a goroutine inside its job is somewhere in it.\<close>

definition pc_inv :: "('s, 'c) system \<Rightarrow> bool" where
  "pc_inv s \<longleftrightarrow> (\<forall>j c. sm_pc s j c \<noteq> Outside \<longrightarrow> in_job (sm_task s j) c)"

lemma pc_inv_step:
  assumes "system_step a s s'" "pc_inv s" shows "pc_inv s'"
  using assms(1)
proof cases
  case (begin_job j t c)
  with one_goroutine [OF begin_job(2), of c] assms(2) show ?thesis by (fastforce simp: pc_inv_def)
next
  case (end_job j t c)
  with one_goroutine [OF end_job(2), of c] assms(2) show ?thesis by (fastforce simp: pc_inv_def)
qed (use assms(2) in \<open>auto simp: pc_inv_def\<close>)

lemma pc_inv_reach: "(system_step a)\<^sup>*\<^sup>* (system_init w) z \<Longrightarrow> pc_inv z"
proof (induction rule: rtranclp_induct)
  case base
  show ?case by (simp add: pc_inv_def system_init_def)
next
  case (step y z)
  then show ?case by (blast intro: pc_inv_step)
qed

lemma system_mono:
  assumes "(system_step a)\<^sup>*\<^sup>* s s'"
  shows "sm_calls s \<le> sm_calls s'" "tk_next (sm_task s j) \<le> tk_next (sm_task s' j)"
proof -
  have "sm_calls s \<le> sm_calls s' \<and> tk_next (sm_task s j) \<le> tk_next (sm_task s' j)"
    using assms
  proof (induction rule: rtranclp_induct)
    case (step y z)
    from step(2) have "sm_calls y \<le> sm_calls z \<and> tk_next (sm_task y j) \<le> tk_next (sm_task z j)"
      by cases (auto dest: step_next_mono)
    with step.IH show ?case by linarith
  qed simp
  then show "sm_calls s \<le> sm_calls s'" "tk_next (sm_task s j) \<le> tk_next (sm_task s' j)" by simp_all
qed

section \<open>After shutdown\<close>

lemma system_tasks:
  "(system_step a)\<^sup>*\<^sup>* s s' \<Longrightarrow> (task_step (app_task (ap_config a) j))\<^sup>*\<^sup>* (sm_task s j) (sm_task s' j)"
proof (induction rule: rtranclp_induct)
  case (step y z)
  show ?case by (rule rtranclp_trans [OF step(3) system_task [OF step(2)]])
qed simp

lemma wound_down_steps:
  assumes "(task_step T)\<^sup>*\<^sup>* t t'" "0 < tk_interval T" "wound_down T w t" "tk_next t' = tk_next t"
  shows "wound_down T w t' \<and>
    length (tk_runs t') + claimed (tk_loops t' 0) \<le> length (tk_runs t) + claimed (tk_loops t 0)"
  using assms(1,4)
proof (induction rule: rtranclp_induct)
  case base
  show ?case using assms(3) by simp
next
  case (step u v)
  have "tk_next u = tk_next t" "tk_next v = tk_next u"
    using task_steps_next [OF step(1)] step_next_mono [OF step(2)] step.prems by linarith+
  with step.IH wound_down_step [OF step(2) assms(2), of w] show ?case by fastforce
qed

lemma resting_iff: "resting t \<longleftrightarrow> (\<forall>c. claimed (tk_loops t c) = 0 \<and> \<not> in_job t c)"
proof -
  have "rank p \<le> 2 \<longleftrightarrow> claimed p = 0 \<and> (\<forall>cid. p \<noteq> Some (InJob cid))" for p
    by (cases p rule: rank.cases) auto
  then show ?thesis by (auto simp: resting_def in_job_def)
qed

lemma resting_step:
  assumes "task_step T t t'" "0 < tk_interval T" "wound_down T w t" "tk_next t' = tk_next t" "resting t"
  shows "resting t'"
  unfolding resting_def
proof
  fix c
  have "rank (tk_loops t' c) \<le> rank (tk_loops t c)" using wound_down_step [OF assms(1-4)] by blast
  with assms(5) show "rank (tk_loops t' c) \<le> 2" unfolding resting_def using order_trans by blast
qed

text \<open>No goroutine is in its job or about to enter it, and every call of \<open>Run\<close> has returned.\<close>

definition quiet :: "('s, 'c) system \<Rightarrow> bool" where
  "quiet s \<longleftrightarrow> (\<forall>j. resting (sm_task s j)) \<and> (\<forall>b < sm_calls s. \<exists>e. rn_phase (sm_run s) b = Returned e)"

lemma run_step_moves: "run_step S r r' \<Longrightarrow> \<exists>c. rn_phase r' c \<noteq> rn_phase r c \<and> (\<forall>e. rn_phase r c \<noteq> Returned e)"
  by (induction rule: run_step.induct) (rule_tac x = c in exI, simp)+

lemma quiet_step:
  assumes "system_step a s s'" "pc_inv s" "quiet s" "sm_calls s' = sm_calls s"
    and iv: "\<And>j. 0 < tk_interval (app_task (ap_config a) j)" and wd: "\<And>j. wound_down (app_task (ap_config a) j) () (sm_task s j)"
    and nx: "\<And>j. tk_next (sm_task s' j) = tk_next (sm_task s j)"
  shows "quiet s' \<and> (\<exists>env. sm_world s' = (sm_world s)\<lparr>wd_env := env\<rparr>)"
proof -
  have out: "\<not> in_job (sm_task s i) c" "sm_pc s i c = Outside" for i c
    using assms(2,3) by (auto simp: quiet_def resting_iff pc_inv_def)
  have rest: "resting t" if "task_step (app_task (ap_config a) i) (sm_task s i) t" "tk_next t = tk_next (sm_task s i)" for i t
    using resting_step [OF that(1) iv wd that(2)] assms(3) by (simp add: quiet_def)
  from assms(1) show ?thesis
  proof cases
    case (control i t)
    with nx [of i] rest [OF control(2)] assms(3) show ?thesis
      by (auto simp: quiet_def intro: exI [of _ "wd_env (sm_world s)"])
  next
    case (begin_job i t c)
    with nx [of i] rest [OF begin_job(2)] show ?thesis by (simp add: resting_iff)
  next
    case (run r)
    obtain c where "rn_phase r c \<noteq> rn_phase (sm_run s) c" "\<forall>e. rn_phase (sm_run s) c \<noteq> Returned e"
      using run_step_moves [OF run(2)] by blast
    with run(3) assms(3) show ?thesis unfolding quiet_def by (meson not_le)
  next
    case probe
    with assms(3) show ?thesis by (auto simp: quiet_def)
  qed (use out assms(4) in simp_all)
qed

lemma quiet_steps:
  assumes "(system_step a)\<^sup>*\<^sup>* s y" "pc_inv s" "quiet s" "sm_calls y = sm_calls s" "\<And>j. 0 < tk_interval (app_task (ap_config a) j)"
    and "\<And>j. wound_down (app_task (ap_config a) j) () (sm_task s j)" "\<And>j. tk_next (sm_task y j) = tk_next (sm_task s j)"
  shows "\<exists>env. sm_world y = (sm_world s)\<lparr>wd_env := env\<rparr>"
proof -
  have "quiet y \<and> pc_inv y \<and> (\<exists>env. sm_world y = (sm_world s)\<lparr>wd_env := env\<rparr>)"
    using assms(1,4,7)
  proof (induction rule: rtranclp_induct)
    case base
    have "sm_world s = (sm_world s)\<lparr>wd_env := wd_env (sm_world s)\<rparr>" by simp
    with assms(2,3) show ?case by blast
  next
    case (step x y)
    have calls: "sm_calls x = sm_calls s" "sm_calls y = sm_calls x"
      using system_mono(1) [OF step(1)] system_mono(1) [OF r_into_rtranclp, of a x y, OF step(2)] step.prems(1) by linarith+
    have starts: "tk_next (sm_task x j) = tk_next (sm_task s j)" "tk_next (sm_task y j) = tk_next (sm_task x j)" for j
      using system_mono(2) [OF step(1), of j] system_mono(2) [OF r_into_rtranclp, of a x y j, OF step(2)]
        step.prems(2) [of j] by linarith+
    have wd: "wound_down (app_task (ap_config a) j) () (sm_task x j)" for j
      using wound_down_steps [OF system_tasks [OF step(1)] assms(5,6) starts(1)] by blast
    from step.IH calls starts have x: "quiet x" "pc_inv x" "\<exists>env. sm_world x = (sm_world s)\<lparr>wd_env := env\<rparr>" by simp_all
    from quiet_step [OF step(2) x(2,1) calls(2) assms(5) wd starts(2)] x(3) pc_inv_step [OF step(2) x(2)] show ?case by auto
  qed
  then show ?thesis by blast
qed

text \<open>From there every goroutine can leave.\<close>

lemma control_path:
  assumes "(\<lambda>u v. task_step (app_task (ap_config a) j) u v \<and> resting u \<and> resting v)\<^sup>*\<^sup>* (sm_task s j) t"
  shows "(system_step a)\<^sup>*\<^sup>* s (set_task j t s)"
  using assms
proof (induction rule: rtranclp_induct)
  case base
  show ?case by (simp add: set_task_def)
next
  case (step u v)
  have "system_step a (set_task j u s) (set_task j v (set_task j u s))"
    by (rule control) (use step(2) in \<open>simp_all add: resting_iff\<close>)
  moreover have "set_task j v (set_task j u s) = set_task j v s" by (simp add: set_task_def)
  ultimately show ?case using step(3) by simp
qed

lemma goroutine_leaves:
  assumes "wound_down (app_task (ap_config a) j) () (sm_task s j)" "resting (sm_task s j)"
    and "0 < tk_interval (app_task (ap_config a) j)"
  obtains t where "(system_step a)\<^sup>*\<^sup>* s (set_task j t s)" "\<forall>c p. tk_loops t c = Some p \<longrightarrow> p = Exited"
  using wound_down_exits [OF assms] control_path that by blast

lemma all_leave:
  assumes "\<And>j. wound_down (app_task (ap_config a) j) () (sm_task s j)" "\<And>j. resting (sm_task s j)"
    and "\<And>j. 0 < tk_interval (app_task (ap_config a) j)"
  shows "\<exists>y. (system_step a)\<^sup>*\<^sup>* s y \<and> sm_world y = sm_world s \<and>
    (\<forall>j c p. tk_loops (sm_task y j) c = Some p \<longrightarrow> p = Exited)"
proof -
  obtain t where t: "(system_step a)\<^sup>*\<^sup>* s (set_task TrustSync t s)" "\<forall>c p. tk_loops t c = Some p \<longrightarrow> p = Exited"
    by (rule goroutine_leaves [OF assms])
  let ?s1 = "set_task TrustSync t s"
  obtain u where u: "(system_step a)\<^sup>*\<^sup>* ?s1 (set_task TrustSnapshot u ?s1)" "\<forall>c p. tk_loops u c = Some p \<longrightarrow> p = Exited"
    by (rule goroutine_leaves [of a TrustSnapshot ?s1]) (use assms in \<open>simp_all del: app_task.simps\<close>)
  let ?s2 = "set_task TrustSnapshot u ?s1"
  obtain v where v: "(system_step a)\<^sup>*\<^sup>* ?s2 (set_task StatusPrefetch v ?s2)" "\<forall>c p. tk_loops v c = Some p \<longrightarrow> p = Exited"
    by (rule goroutine_leaves [of a StatusPrefetch ?s2]) (use assms in \<open>simp_all del: app_task.simps\<close>)
  let ?s3 = "set_task StatusPrefetch v ?s2"
  have "(system_step a)\<^sup>*\<^sup>* s ?s3" by (rule rtranclp_trans [OF rtranclp_trans [OF t(1) u(1)] v(1)])
  moreover have "tk_loops (sm_task ?s3 j) c = Some p \<Longrightarrow> p = Exited" for j c p
    using t(2) u(2) v(2) by (cases j) auto
  ultimately show ?thesis by (intro exI [of _ ?s3]) auto
qed

section \<open>A job on its own\<close>

text \<open>From its entry, a job whose goroutine alone moves comes to its end, and has done to the world what the
  function of \<open>app.go\<close> does.\<close>

definition completes :: "('s, 'c, 'b) app \<Rightarrow> job \<Rightarrow> nat \<Rightarrow> ('s, 'c) system \<Rightarrow> ('s, 'c) world \<Rightarrow> bool" where
  "completes a j c s w \<longleftrightarrow> (\<exists>z. (system_step a)\<^sup>*\<^sup>* s z \<and> sm_pc z j c = Finished \<and> sm_world z = w \<and>
     sm_task z = sm_task s \<and> sm_calls z = sm_calls s)"

lemma completes_step:
  assumes "system_step a s y" "completes a j c y w" "sm_task y = sm_task s" "sm_calls y = sm_calls s"
  shows "completes a j c s w"
  using assms unfolding completes_def by (metis converse_rtranclp_into_rtranclp)

lemma completes_now: "sm_pc s j c = Finished \<Longrightarrow> completes a j c s (sm_world s)"
  unfolding completes_def by blast

lemma failing_completes:
  assumes "sm_pc s j c = Failing m e"
  shows "completes a j c s (w_log LError m [(''error'', LvErr e)] (sm_world s))"
proof -
  let ?y = "set_pc j c Finished (set_world (w_log LError m [(''error'', LvErr e)] (sm_world s)) s)"
  have "completes a j c ?y (sm_world ?y)" by (rule completes_now) simp
  with completes_step [OF system_step.failing [OF assms]] show ?thesis by simp
qed

lemma snapshot_alone:
  assumes "sm_pc s j c = Polling"
  shows "completes a j c s (snapshot_job a (sm_world s))"
proof -
  obtain r w where p: "Telemetry.poll (wk_poller (ap_worker a)) (sm_world s) = (r, w)" by force
  note step = completes_step [OF system_step.poll [OF assms p]]
  show ?thesis
  proof (cases r)
    case (Inl e)
    have "completes a j c (set_pc j c (Failing ''snapshot telemetry poll failed'' e) (set_world w s)) (snapshot_job a (sm_world s))"
      using failing_completes [of "set_pc j c (Failing ''snapshot telemetry poll failed'' e) (set_world w s)" j c _ e a] p Inl
      by (simp add: snapshot_job_def)
    with Inl show ?thesis by (intro step) simp_all
  next
    case (Inr u)
    have "completes a j c (set_pc j c Finished (set_world w s)) (snapshot_job a (sm_world s))"
      using completes_now [of "set_pc j c Finished (set_world w s)" j c a] p Inr by (simp add: snapshot_job_def)
    with Inr show ?thesis by (intro step) simp_all
  qed
qed

lemma lists_alone:
  assumes "sm_pc s j c = Lists us"
  shows "completes a j c s (trim_refs (wk_prefetcher (ap_worker a)) (prefetch_loop (wk_prefetcher (ap_worker a)) us (sm_world s)))"
  using assms
proof (induction us arbitrary: s)
  case Nil
  let ?y = "set_pc j c Finished (set_world (trim_refs (wk_prefetcher (ap_worker a)) (sm_world s)) s)"
  have "completes a j c ?y (sm_world ?y)" by (rule completes_now) simp
  with completes_step [OF system_step.trim [OF Nil]] show ?case by simp
next
  case (Cons u us)
  let ?y = "set_pc j c (Lists us) (set_world (prefetch_one (wk_prefetcher (ap_worker a)) u (sm_world s)) s)"
  have "sm_pc ?y j c = Lists us" by simp
  from completes_step [OF system_step.one_list [OF Cons.prems] Cons.IH [OF this]] show ?case by simp
qed

lemma prefetch_alone:
  assumes "sm_pc s j c = Listing"
  shows "completes a j c s (prefetch_job a (sm_world s))"
proof -
  let ?P = "wk_prefetcher (ap_worker a)"
  obtain q v where q: "rf_top (pf_refs ?P) (pc_top_n (pf_cfg ?P)) (wd_store (sm_world s)) = (q, v)" by force
  show ?thesis
  proof (cases "pc_top_n (pf_cfg ?P) \<le> 0")
    case True
    then have "prefetch_job a (sm_world s) = sm_world (set_pc j c Finished s)" by (simp add: prefetch_job_def prefetch_run_def)
    moreover have "completes a j c (set_pc j c Finished s) (sm_world (set_pc j c Finished s))" by (rule completes_now) simp
    ultimately show ?thesis using completes_step [OF system_step.prefetch_off [OF assms True]] by simp
  next
    case False
    note step = completes_step [OF system_step.list_refs [OF assms False q]]
    show ?thesis
    proof (cases q)
      case (Inl e)
      let ?y = "set_pc j c (Failing ''status-list prefetch failed'' (ErrWrap ''prefetch: list refs: '' e))
        (set_world ((sm_world s)\<lparr>wd_store := v\<rparr>) s)"
      have "completes a j c ?y (prefetch_job a (sm_world s))"
        using failing_completes [of ?y j c _ _ a] q Inl False by (simp add: prefetch_job_def prefetch_run_def)
      with Inl show ?thesis by (intro step) simp_all
    next
      case (Inr us)
      let ?y = "set_pc j c (Lists us) (set_world ((sm_world s)\<lparr>wd_store := v\<rparr>) s)"
      have "completes a j c ?y (prefetch_job a (sm_world s))"
        using lists_alone [of ?y j c us a] q Inr False by (simp add: prefetch_job_def prefetch_run_def)
      with Inr show ?thesis by (intro step) simp_all
    qed
  qed
qed

text \<open>A call of \<open>Run\<close> that finds no cycle in flight.\<close>

lemma own_call:
  assumes "run_step (app_syncer a) (sm_run s) r" "\<forall>b. b \<noteq> n \<longrightarrow> rn_phase r b = rn_phase (sm_run s) b" "n < sm_calls s"
    and "completes a j c (s\<lparr>sm_run := r\<rparr>) w"
  shows "completes a j c s w"
  by (rule completes_step [OF system_step.run [OF assms(1)] assms(4)]) (use assms(2,3) in auto)

lemma clearing_alone:
  assumes "rn_phase (sm_run s) n = Clearing d" "n < sm_calls s" "sm_pc s j c = InRun n"
  shows "completes a j c s (sm_world s)"
proof (rule own_call [OF run_step.clear [OF assms(1)] _ assms(2)])
  let ?r = "(sm_run s)\<lparr>rn_inflight := None, rn_phase := (rn_phase (sm_run s))(n := Closing d)\<rparr>"
  let ?y = "s\<lparr>sm_run := ?r\<rparr>"
  have c: "rn_phase (sm_run ?y) n = Closing d" by simp
  show "completes a j c ?y (sm_world s)"
  proof (rule own_call [OF run_step.close [OF c], of n])
    let ?z = "?y\<lparr>sm_run := (sm_run ?y)\<lparr>rn_closed := insert d (rn_closed (sm_run ?y)),
      rn_phase := (rn_phase (sm_run ?y))(n := Returned None)\<rparr>\<rparr>"
    have "system_step a ?z (set_pc j c Finished ?z)" by (rule system_step.run_returned [of _ j c n None]) (simp_all add: assms(3))
    moreover have "completes a j c (set_pc j c Finished ?z) (sm_world (set_pc j c Finished ?z))" by (rule completes_now) simp
    ultimately have "completes a j c ?z (sm_world (set_pc j c Finished ?z))" by (rule completes_step) simp_all
    then show "completes a j c ?z (sm_world s)" by simp
  qed (use assms(2) in simp_all)
qed simp

lemma cycling_alone:
  assumes "rn_phase (sm_run s) n = Cycling d ts" "n < sm_calls s" "sm_pc s j c = InRun n"
  shows "completes a j c s (sync_loop (app_syncer a) ts (sm_world s))"
  using assms
proof (induction ts arbitrary: s)
  case Nil
  let ?y = "s\<lparr>sm_run := (sm_run s)\<lparr>rn_phase := (rn_phase (sm_run s))(n := Clearing d)\<rparr>\<rparr>"
  have "completes a j c ?y (sm_world ?y)" by (rule clearing_alone [of _ n d]) (use Nil in simp_all)
  then show ?case by (intro own_call [OF run_step.cycle_end [OF Nil(1)] _ Nil(2)]) simp_all
next
  case (Cons t ts)
  let ?y = "s\<lparr>sm_run := (sm_run s)\<lparr>rn_phase := (rn_phase (sm_run s))(n := Cycling d ts),
    rn_world := sync_one (app_syncer a) t (sm_world s)\<rparr>\<rparr>"
  have "completes a j c ?y (sync_loop (app_syncer a) ts (sm_world ?y))" by (rule Cons.IH) (use Cons.prems in simp_all)
  then show ?case by (intro own_call [OF run_step.poll [OF Cons.prems(1)] _ Cons.prems(2)]) (simp_all del: sync_loop.simps)
qed

lemma sync_alone:
  assumes "sm_pc s j c = InRun n" "n < sm_calls s" "rn_phase (sm_run s) n = Entering" "rn_inflight (sm_run s) = None"
  shows "completes a j c s (sync_job a (sm_world s))"
proof (cases "parse_types (sc_types (sy_cfg (app_syncer a)))")
  case (Inl e)
  let ?r = "(sm_run s)\<lparr>rn_inflight := Some (rn_next (sm_run s)), rn_next := Suc (rn_next (sm_run s)),
    rn_phase := (rn_phase (sm_run s))(n := Clearing (rn_next (sm_run s))),
    rn_world := w_log LError ''invalid anchor type configuration'' [(''error'', LvErr e)] (sm_world s)\<rparr>"
  have "completes a j c (s\<lparr>sm_run := ?r\<rparr>) (sm_world (s\<lparr>sm_run := ?r\<rparr>))"
    by (rule clearing_alone [of _ n "rn_next (sm_run s)"]) (use assms in simp_all)
  then show ?thesis
    using Inl by (intro own_call [OF run_step.bad_config [OF assms(3,4) Inl] _ assms(2)])
      (simp_all add: sync_job_def run_alone_def sync_all_def app_syncer_def)
next
  case (Inr ts)
  let ?r = "(sm_run s)\<lparr>rn_inflight := Some (rn_next (sm_run s)), rn_next := Suc (rn_next (sm_run s)),
    rn_phase := (rn_phase (sm_run s))(n := Cycling (rn_next (sm_run s)) ts)\<rparr>"
  have "completes a j c (s\<lparr>sm_run := ?r\<rparr>) (sync_loop (app_syncer a) ts (sm_world (s\<lparr>sm_run := ?r\<rparr>)))"
    by (rule cycling_alone [of _ n "rn_next (sm_run s)"]) (use assms in simp_all)
  then show ?thesis
    using Inr by (intro own_call [OF run_step.start [OF assms(3,4) Inr] _ assms(2)])
      (simp_all add: sync_job_def run_alone_def sync_all_def app_syncer_def)
qed

section \<open>Properties\<close>


text \<open>
  C18. A stopped worker falls silent. Take any run in which no task was started twice and none stopped (\<open>z0\<close>), let it go
  on until \<open>Stop\<close> of every started task has returned (\<open>z\<close>), and then on in any way, with ticks, probes and resync
  requests, but without another \<open>Start\<close> (\<open>z'\<close>). Then each task has begun at most the one cycle its goroutine had
  claimed before. And once no goroutine is in a cycle or about to begin one, and every call of \<open>Run\<close> has returned,
  every goroutine can leave, without touching the world; and until a new request or \<open>Start\<close> nothing is written in
  any continuation: the cache, the readiness state, the gauges, the etags, the counters and the log stay as they are.
\<close>

theorem stopped_worker_falls_silent:
  assumes "\<forall>j. 0 < tk_interval (app_task (ap_config a) j)"
    and "(system_step a)\<^sup>*\<^sup>* (system_init w) z0" "\<forall>j. tk_next (sm_task z0 j) \<le> 1 \<and> tk_once (sm_task z0 j) = NotCalled"
    and "(system_step a)\<^sup>*\<^sup>* z0 z" "\<forall>j. tk_next (sm_task z0 j) = 1 \<longrightarrow> tk_once (sm_task z j) = Halted"
    and "(system_step a)\<^sup>*\<^sup>* z z'" "\<forall>j. tk_next (sm_task z' j) = tk_next (sm_task z0 j)"
  shows "(\<forall>j. length (tk_runs (sm_task z' j)) \<le> length (tk_runs (sm_task z j)) + claimed (tk_loops (sm_task z j) 0)) \<and>
    ((\<forall>j c. claimed (tk_loops (sm_task z' j) c) = 0 \<and> \<not> in_job (sm_task z' j) c) \<and>
     (\<forall>b < sm_calls z'. \<exists>e. rn_phase (sm_run z') b = Returned e) \<longrightarrow>
       (\<exists>y. (system_step a)\<^sup>*\<^sup>* z' y \<and> sm_world y = sm_world z' \<and>
          (\<forall>j c p. tk_loops (sm_task y j) c = Some p \<longrightarrow> p = Exited)) \<and>
       (\<forall>y. (system_step a)\<^sup>*\<^sup>* z' y \<longrightarrow> sm_calls y = sm_calls z' \<longrightarrow>
          (\<forall>j. tk_next (sm_task y j) = tk_next (sm_task z' j)) \<longrightarrow>
          (\<exists>env. sm_world y = (sm_world z')\<lparr>wd_env := env\<rparr>)))"
proof -
  let ?T = "app_task (ap_config a)"
  note iv = assms(1) [rule_format]
  have reach: "(system_step a)\<^sup>*\<^sup>* (system_init w) z" "(system_step a)\<^sup>*\<^sup>* (system_init w) z'"
    using assms(2,4,6) by simp_all
  have starts: "tk_next (sm_task z j) = tk_next (sm_task z0 j)" "tk_next (sm_task z' j) = tk_next (sm_task z j)" for j
    using system_mono(2) [OF assms(4), of j] system_mono(2) [OF assms(6), of j] assms(7) [rule_format, of j] by linarith+
  have init: "(task_step (?T j))\<^sup>*\<^sup>* (task_init ()) (sm_task z0 j)" "(task_step (?T j))\<^sup>*\<^sup>* (task_init ()) (sm_task z j)" for j
    using system_tasks [OF assms(2), of j] system_tasks [OF reach(1), of j] by (simp_all add: system_init_def)
  have wd: "wound_down (?T j) () (sm_task z j)" for j
  proof -
    have n: "tk_next (sm_task z j) \<le> 1" using assms(3) starts(1) by simp
    note inv = single_inv_reach [OF init(2) iv n] stop_inv_reach [OF init(2) iv]
    show ?thesis
    proof (cases "tk_next (sm_task z j) = 0")
      case False
      with n starts(1) [of j] have "tk_next (sm_task z0 j) = 1" by simp
      with stopped_order [OF init(1) iv this _ system_tasks [OF assms(4)] n] assms(3,5) inv show ?thesis
        by (simp add: wound_down_def)
    qed (use inv in \<open>simp add: wound_down_def\<close>)
  qed
  note later = wound_down_steps [OF system_tasks [OF assms(6)] iv wd starts(2)]
  have "length (tk_runs (sm_task z' j)) \<le> length (tk_runs (sm_task z j)) + claimed (tk_loops (sm_task z j) 0)" for j
    using later [of j] by linarith
  moreover have "(\<exists>y. (system_step a)\<^sup>*\<^sup>* z' y \<and> sm_world y = sm_world z' \<and>
      (\<forall>j c p. tk_loops (sm_task y j) c = Some p \<longrightarrow> p = Exited))"
    if "\<forall>j c. claimed (tk_loops (sm_task z' j) c) = 0 \<and> \<not> in_job (sm_task z' j) c"
    using that later by (intro all_leave iv) (simp_all add: resting_iff)
  moreover have "\<exists>env. sm_world y = (sm_world z')\<lparr>wd_env := env\<rparr>"
    if "\<forall>j c. claimed (tk_loops (sm_task z' j) c) = 0 \<and> \<not> in_job (sm_task z' j) c"
      "\<forall>b < sm_calls z'. \<exists>e. rn_phase (sm_run z') b = Returned e"
      "(system_step a)\<^sup>*\<^sup>* z' y" "sm_calls y = sm_calls z'" "\<forall>j. tk_next (sm_task y j) = tk_next (sm_task z' j)" for y
    by (rule quiet_steps [OF that(3) pc_inv_reach [OF reach(2)] _ that(4) iv]) (use that later in \<open>simp_all add: quiet_def resting_iff\<close>)
  ultimately show ?thesis by blast
qed

section \<open>A run of the system\<close>

text \<open>The snapshot task is started, stopped at once, and runs the cycle it had claimed.\<close>

definition stopped_task :: "loop_phase \<Rightarrow> string list \<Rightarrow> unit task_state" where
  "stopped_task p runs =
     \<lparr>tk_stop = Some 0, tk_ticker = Some 0, tk_once = Halted, tk_closed = {0}, tk_running = {}, tk_pending = {},
      tk_loops = [0 \<mapsto> p], tk_next = 1, tk_runs = runs, tk_world = (), tk_panic = False\<rparr>"

lemma stopped_task_start:
  assumes "0 < tk_interval T"
  obtains t1 t2 where "task_step T (task_init ()) t1" "task_step T t1 t2" "task_step T t2 (stopped_task Spawned [])"
    "tk_loops t1 = [0 \<mapsto> Spawned]" "tk_loops t2 = [0 \<mapsto> Spawned]" "tk_next t1 = 1" "tk_once t1 = NotCalled"
proof -
  let ?t1 = "start_task T (task_init ())"
  have t1: "task_step T (task_init ()) ?t1" by (rule start) (simp add: task_init_def)
  have t2: "task_step T ?t1 (stop_ticker ?t1)" by (rule halt) (use assms in \<open>simp_all add: start_task_def task_init_def Let_def\<close>)
  have "close_stop (stop_ticker ?t1) = stopped_task Spawned []"
    using assms by (simp add: step_defs task_init_def stopped_task_def)
  moreover have "task_step T (stop_ticker ?t1) (close_stop (stop_ticker ?t1))"
    by (rule close) (use assms in \<open>simp_all add: step_defs task_init_def\<close>)
  ultimately show ?thesis
    by (intro that [OF t1 t2]) (use assms in \<open>simp_all add: step_defs task_init_def\<close>)
qed

lemma stopped_task_runs:
  "task_step T (stopped_task Spawned []) (stopped_task (InJob cid) [cid])"
  "task_step T (stopped_task (InJob cid) [cid]) (stopped_task Selecting [cid])"
proof -
  note d = stopped_task_def set_loop_def
  show "task_step T (stopped_task Spawned []) (stopped_task (InJob cid) [cid])"
    using run_once [of "stopped_task Spawned []" 0 T cid] by (simp add: d)
  show "task_step T (stopped_task (InJob cid) [cid]) (stopped_task Selecting [cid])"
    using job_done [of "stopped_task (InJob cid) [cid]" 0 cid T] by (simp add: d)
qed

lemma control_task:
  assumes "(system_step a)\<^sup>*\<^sup>* s z" "task_step (app_task (ap_config a) j) (sm_task z j) t" "\<forall>c. in_job t c \<longleftrightarrow> in_job (sm_task z j) c"
  shows "(system_step a)\<^sup>*\<^sup>* s (set_task j t z)"
  by (rule rtranclp.rtrancl_into_rtrancl [OF assms(1) control [OF assms(2,3)]])

lemma one_snapshot:
  assumes "0 < sc_snapshot_poll_interval (cf_sync (ap_config a))"
  obtains z0 z z' where "(system_step a)\<^sup>*\<^sup>* (system_init w) z0" "(system_step a)\<^sup>*\<^sup>* z0 z" "(system_step a)\<^sup>*\<^sup>* z z'"
    "\<forall>j. tk_next (sm_task z0 j) \<le> 1 \<and> tk_once (sm_task z0 j) = NotCalled"
    "\<forall>j. tk_next (sm_task z0 j) = 1 \<longrightarrow> j = TrustSnapshot" "\<forall>j. tk_next (sm_task z' j) = tk_next (sm_task z0 j)"
    "sm_task z TrustSnapshot = stopped_task Spawned []" "sm_task z' TrustSnapshot = stopped_task Selecting [[]]"
    "\<forall>j. j \<noteq> TrustSnapshot \<longrightarrow> sm_task z' j = task_init ()" "sm_calls z' = 0" "sm_world z' = snapshot_job a w"
proof -
  let ?j = TrustSnapshot and ?T = "app_task (ap_config a) TrustSnapshot"
  have iv: "0 < tk_interval ?T" using assms by (simp add: new_task_def)
  obtain t1 t2 where t: "task_step ?T (task_init ()) t1" "task_step ?T t1 t2" "task_step ?T t2 (stopped_task Spawned [])"
    "tk_loops t1 = [0 \<mapsto> Spawned]" "tk_loops t2 = [0 \<mapsto> Spawned]" "tk_next t1 = 1" "tk_once t1 = NotCalled"
    by (rule stopped_task_start [OF iv])
  note runs = stopped_task_runs [where T = ?T and cid = "[]"]
  let ?s0 = "system_init w" let ?s1 = "set_task ?j t1 ?s0" let ?s2 = "set_task ?j t2 ?s1"
  let ?s3 = "set_task ?j (stopped_task Spawned []) ?s2"
  have s1: "(system_step a)\<^sup>*\<^sup>* ?s0 ?s1"
    by (rule control_task [OF rtranclp.rtrancl_refl]) (use t in \<open>simp_all add: system_init_def in_job_def task_init_def\<close>)
  have s2: "(system_step a)\<^sup>*\<^sup>* ?s1 ?s2"
    by (rule control_task [OF rtranclp.rtrancl_refl]) (use t in \<open>simp_all add: in_job_def\<close>)
  have s3: "(system_step a)\<^sup>*\<^sup>* ?s1 ?s3"
    by (rule control_task [OF s2]) (use t in \<open>simp_all add: in_job_def stopped_task_def\<close>)
  let ?s4 = "set_pc ?j 0 Polling (set_task ?j (stopped_task (InJob []) [[]]) (?s3\<lparr>sm_calls := sm_calls ?s3\<rparr>))"
  have s4: "system_step a ?s3 ?s4"
    using begin_job [of a ?j ?s3 "stopped_task (InJob []) [[]]" 0] runs(1) by (simp add: in_job_def stopped_task_def)
  have "completes a ?j 0 ?s4 (snapshot_job a (sm_world ?s4))" by (rule snapshot_alone) simp
  then obtain s5 where s5: "(system_step a)\<^sup>*\<^sup>* ?s4 s5" "sm_pc s5 ?j 0 = Finished" "sm_world s5 = snapshot_job a (sm_world ?s4)"
    "sm_task s5 = sm_task ?s4" "sm_calls s5 = sm_calls ?s4"
    by (auto simp: completes_def)
  let ?s6 = "set_pc ?j 0 Outside (set_task ?j (stopped_task Selecting [[]]) s5)"
  have "system_step a s5 ?s6"
    using end_job [of a ?j s5 "stopped_task Selecting [[]]" 0] runs(2) s5 by (simp add: in_job_def stopped_task_def)
  with s4 s5(1) have s6: "(system_step a)\<^sup>*\<^sup>* ?s3 ?s6"
    by (meson converse_rtranclp_into_rtranclp rtranclp.rtrancl_into_rtrancl)
  show ?thesis
    by (rule that [OF s1 s3 s6])
      (use t s5 in \<open>simp_all add: system_init_def run_init_def task_init_def stopped_task_def\<close>)
qed

lemma ref_system:
  obtains a :: "(refsrv, ref_env, unit) app" and z0 z z' where
    "(system_step a)\<^sup>*\<^sup>* (system_init (start_world a ref_srv cold_env)) z0" "(system_step a)\<^sup>*\<^sup>* z0 z" "(system_step a)\<^sup>*\<^sup>* z z'"
    "\<forall>j. tk_next (sm_task z0 j) \<le> 1 \<and> tk_once (sm_task z0 j) = NotCalled"
    "\<forall>j. tk_next (sm_task z0 j) = 1 \<longrightarrow> j = TrustSnapshot" "\<forall>j. tk_next (sm_task z' j) = tk_next (sm_task z0 j)"
    "sm_task z TrustSnapshot = stopped_task Spawned []" "sm_task z' TrustSnapshot = stopped_task Selecting [[]]"
    "\<forall>j. j \<noteq> TrustSnapshot \<longrightarrow> sm_task z' j = task_init ()" "sm_calls z' = 0"
    "\<forall>j. 0 < tk_interval (app_task (ap_config a) j)"
proof -
  obtain a where a: "new_app (ref_platform False) 0 ref_config (Some True) empty_registry = (Inr a, register_metrics 0 empty_registry)"
    by (rule cold_app)
  have iv: "0 < tk_interval (app_task (ap_config a) j)" for j
    using new_app_parts(2) [OF a] by (cases j) (simp_all add: new_task_def ref_config_def hour_def minute_def second_def)
  have "0 < sc_snapshot_poll_interval (cf_sync (ap_config a))"
    using new_app_parts(2) [OF a] by (simp add: ref_config_def minute_def second_def)
  from one_snapshot [OF this, of "start_world a ref_srv cold_env"] iv that show ?thesis by metis
qed


text \<open>The snapshot task, stopped right after its start, runs the one cycle it was spawned for; then its goroutine leaves.\<close>

theorem stopped_worker_falls_silent_witness:
  "\<exists>(a :: (refsrv, ref_env, unit) app) z z' y. (system_step a)\<^sup>*\<^sup>* (system_init (start_world a ref_srv cold_env)) z \<and>
     tk_once (sm_task z TrustSnapshot) = Halted \<and> tk_runs (sm_task z TrustSnapshot) = [] \<and>
     (system_step a)\<^sup>*\<^sup>* z z' \<and> tk_runs (sm_task z' TrustSnapshot) = [[]] \<and> tk_loops (sm_task z' TrustSnapshot) 0 = Some Selecting \<and>
     (system_step a)\<^sup>*\<^sup>* z' y \<and> sm_world y = sm_world z' \<and> (\<forall>j c p. tk_loops (sm_task y j) c = Some p \<longrightarrow> p = Exited)"
proof -
  obtain a :: "(refsrv, ref_env, unit) app" and z0 z z' where
    z: "(system_step a)\<^sup>*\<^sup>* (system_init (start_world a ref_srv cold_env)) z0" "(system_step a)\<^sup>*\<^sup>* z0 z" "(system_step a)\<^sup>*\<^sup>* z z'"
    and z0: "\<forall>j. tk_next (sm_task z0 j) \<le> 1 \<and> tk_once (sm_task z0 j) = NotCalled"
    "\<forall>j. tk_next (sm_task z0 j) = 1 \<longrightarrow> j = TrustSnapshot" "\<forall>j. tk_next (sm_task z' j) = tk_next (sm_task z0 j)"
    and t: "sm_task z TrustSnapshot = stopped_task Spawned []" "sm_task z' TrustSnapshot = stopped_task Selecting [[]]"
    "\<forall>j. j \<noteq> TrustSnapshot \<longrightarrow> sm_task z' j = task_init ()" "sm_calls z' = 0"
    and iv: "\<forall>j. 0 < tk_interval (app_task (ap_config a) j)"
    by (rule ref_system)
  have "\<forall>j. tk_next (sm_task z0 j) = 1 \<longrightarrow> tk_once (sm_task z j) = Halted"
    using z0(2) t(1) by (auto simp: stopped_task_def)
  note silent = stopped_worker_falls_silent [OF iv z(1) z0(1) z(2) this z(3) z0(3)]
  have "claimed (tk_loops (sm_task z' j) c) = 0 \<and> \<not> in_job (sm_task z' j) c" for j c
    using t(2,3) by (cases "j = TrustSnapshot") (simp_all add: stopped_task_def task_init_def in_job_def)
  with silent t(4) obtain y where "(system_step a)\<^sup>*\<^sup>* z' y" "sm_world y = sm_world z'"
    "\<forall>j c p. tk_loops (sm_task y j) c = Some p \<longrightarrow> p = Exited" by auto
  moreover have "(system_step a)\<^sup>*\<^sup>* (system_init (start_world a ref_srv cold_env)) z" using z(1,2) by simp
  ultimately show ?thesis
    using z(3) t by (intro exI [of _ a] exI [of _ z] exI [of _ z'] exI [of _ y]) (simp add: stopped_task_def)
qed

end
