(* ===== verification/Spec2Isabelle.thy ===== *)
theory Spec2Isabelle
  imports Running_App Prefetch_Logs Mock_Trust Commands Test_App Metric_Labels Outage Served_Anchors Keyspace Whole_Worker
begin

text \<open>
  A verification development for the trust-cache worker.

  \<^bold>\<open>The program.\<close> The worker keeps the verifier fleet's shared Valkey cache of trust anchors, freshness
  telemetry and status lists. \<open>App\<close> (\<open>app.go\<close>) wires it: a Valkey store (\<open>internal/valkeystore\<close>), the
  readiness state and its gauges (\<open>internal/health\<close>), an outbound HTTP doer toward the trust service
  (\<open>internal/authdoer\<close>), and three loops (\<open>internal/schedule\<close>): the anchor sync (\<open>internal/trustsync\<close>),
  the snapshot telemetry (\<open>internal/telemetry\<close>) and the status-list prefetch (\<open>internal/prefetch\<close>). The
  routes (\<open>routes\<close>) read the readiness state and run a sync on demand. The loops and the routes share the
  store, the readiness state and the metrics; nothing else passes between them.

  \<^bold>\<open>Theories and code.\<close>
  \<^item> \<open>Go_Std\<close>: the prelude (errors, \<open>int64\<close> and \<open>time\<close> arithmetic, strings); \<open>Go_Encoding\<close>: base64url and JSON
    as \<open>encoding/base64\<close> and \<open>encoding/json\<close> read them; \<open>Trust_Library\<close>: the types of \<open>go-eudi-trust\<close> and
    the key and text contracts of \<open>trustcache\<close> as locales (\<open>trust_keys\<close>, \<open>cache_codec\<close>); \<open>Worker_Effects\<close>:
    metrics and log lines; \<open>Ref_Instances\<close>: concrete instances for the witnesses.
  \<^item> \<open>Valkey_Driver\<close>: commands, replies, and the laws of the client and the server (locale \<open>valkey\<close>);
    \<open>Valkey_Store\<close>: \<open>store.go\<close>, one definition per method; \<open>Store_Spec\<close>, \<open>Store_Properties\<close>: what a reader of
    the cache sees of a type (\<open>abs_type\<close>) and the refinement of \<open>SwapAnchorType\<close> and \<open>RefreshAnchorType\<close>
    to atomic replacement and extension.
  \<^item> \<open>Health_State\<close>, \<open>Health_Metrics\<close>: \<open>state.go\<close>, \<open>metrics.go\<close>; \<open>Anchor_Types\<close>: \<open>types.go\<close>.
  \<^item> \<open>Syncer\<close>: \<open>SyncType\<close> and \<open>SyncAll\<close>; \<open>Sync_Run\<close>: \<open>Run\<close> with any number of callers as a step relation;
    \<open>Sync_Spec\<close>, \<open>Sync_Properties\<close>, \<open>Sync_Liveness\<close>: the outcomes of a poll over any store that keeps the contract of
    the locale \<open>anchor_store\<close>, and the syncer against a clock that does not run backwards (\<open>worker_clock\<close>).
  \<^item> \<open>Telemetry\<close>: \<open>poller.go\<close>; \<open>Peek_TTL\<close>, \<open>Fetcher\<close>, \<open>Prefetch\<close>: the files of \<open>internal/prefetch\<close>;
    \<open>Prefetch_Logs\<close>: which text reaches its log lines (locale \<open>quiet_driver\<close>).
  \<^item> \<open>Schedule\<close>: \<open>schedule.go\<close> as a step relation over the stop channel, the ticker and the goroutine.
  \<^item> \<open>Auth_Doer\<close>: \<open>doer.go\<close>, \<open>authbyte.go\<close>; \<open>Config\<close>: \<open>config.go\<close> and the three sub-configurations, with
    the validator's documented tags and viper's precedence as the locales \<open>tag_validator\<close> and \<open>viper_reader\<close>; \<open>Routes\<close>: \<open>routes\<close>; \<open>Mock_Trust\<close>: the
    test double of the trust service, its fixtures and its certificate; \<open>Test_App\<close>: \<open>testing.go\<close>.
  \<^item> \<open>Worker_Loops\<close>: the three loops interleaved (\<open>app_step\<close>); \<open>App\<close>: \<open>New\<close>, \<open>init\<close>, \<open>Start\<close>, the jobs;
    \<open>Running_App\<close>: the application with its routes;
    \<open>Commands\<close>: \<open>cmd/server\<close>, from the environment and the flags to the served application.
  \<^item> \<open>Whole_Worker\<close>: the goroutines of the process together: the three tasks with their tickers (\<open>Schedule\<close>), their
    jobs in small steps, the lock of \<open>Run\<close> (\<open>Sync_Run\<close>) shared with the resync requests, one relation \<open>system_step\<close>.
  \<^item> \<open>Metric_Labels\<close>, \<open>Keyspace\<close>, \<open>Outage\<close>: what no run of the application does: export a label outside its table,
    touch a key outside its own, or stay ready through an outage.
  \<^item> \<open>Served_Anchors\<close>: the application and the server's clock, with keys expiring (\<open>timed_step\<close>): when \<open>/readyz\<close> says
    200, the cache has the published anchors of every configured type.

  Each definition has the name of its Go function where that name is free. A method takes its
  receiver's configuration as a record and gives the result with the next \<open>world\<close>: the Valkey server
  (\<open>wd_store\<close>), the outside (\<open>wd_env\<close>: network and clock), the readiness state, the gauge registry, the
  etags in memory, and what was logged and counted. An error is the left side of a sum; an early return
  is a branch.

  \<^bold>\<open>What the lemmas show.\<close> Per component: every branch of every operation (the \<open>_cases\<close> rules), its invariant and
  what it leaves alone. Across components: the store refines an atomic cache per type
  (\<open>valkey_store.swap_spec\<close>, \<open>refresh_spec\<close>); each poll keeps the readiness state covered by the cache
  (\<open>world_ok_poll\<close>, \<open>world_ok_step\<close>); every step is a sequence of store operations that only write expiring
  keys (\<open>app_store_steps\<close>); every job and every request is a sequence of steps (\<open>sync_job_steps\<close>,
  \<open>snapshot_job_steps\<close>, \<open>prefetch_job_steps\<close>, \<open>serve_steps\<close>); \<open>Run\<close> alone is one cycle (\<open>run_alone_steps\<close>). Each run
  of the process projects to a run of the loops over the world, of each task's schedule and of the guard of \<open>Run\<close>
  (\<open>system_steps_refine\<close>), so that what is proved of those holds of it; a job whose goroutine alone moves does what the
  function of \<open>app.go\<close> does (\<open>sync_alone\<close>, \<open>snapshot_alone\<close>, \<open>prefetch_alone\<close>).

  \<^bold>\<open>Parameters and their laws.\<close> The Valkey server and \<open>valkey-go\<close>, the trust client, the HTTP client, the key contract,
  JSON of the cached records, SHA-256, the validator, go-authbyte, Azugo, cobra, viper and the certificate encoder are not
  in the repository: they are arguments, with documented behaviour as locale predicates. Each locale is interpreted: on the model's own
  definitions where the repository provides them, on a reference server, codec, key table or validator otherwise. The
  iteration order of a Go map is a parameter, assumed only to be a permutation.

  \<^bold>\<open>Bounds and fuel.\<close> Durations, times and the claims of a token are \<open>int64\<close> with the wrap-around written out (\<open>i64\<close>). The
  only fuel is that of the JSON reader, the length of the input; the lemma \<open>token_claims_round_trip\<close> shows it never
  decides. Loops over lists are structural. A concurrent operation is a step relation, with its termination
  as a bound on its own steps (\<open>stop_ends_loop\<close>).

  \<^bold>\<open>Simplifications.\<close> Gauge values are exact rationals where the code rounds to \<open>float64\<close>. Times have no
  monotonic reading; a clock law says what is needed of it. Keys expire between steps of the worker
  (\<open>timed_step\<close>; \<open>worker_keys_expire\<close> bounds what any key has left), never in the middle of one store operation. That ready means
  served assumes a TTL of whole seconds (\<open>EX\<close> truncates to seconds, the horizon does not), the worker's and the server's clocks at
  one rate, and no 304 after the type's keys are gone: \<open>lost_cache_reported_live\<close> is what happens then. Quoted text (\<open>%q\<close>) is kept as structure in the error. Azugo's router is a table from
  method and path to handler. The mutexes make the methods of \<open>State\<close> and of the etag map atomic. In \<open>Schedule\<close> a
  stopped ticker delivers no tick that was not received before (Go 1.23 and later); a run that the
  loop has already claimed may still begin after \<open>Stop\<close> returns.

  \<^bold>\<open>Not modelled.\<close> \<open>Store.Close\<close> (nothing in the program calls it), \<open>task.Name\<close> beyond the name it returns, the bare
  accessor \<open>App.State\<close>; the decoding of text into durations and lists by viper (a setting arrives decoded; \<open>Test_App\<close>
  has it as the parameter \<open>dec\<close>); the sub-configurations before \<open>Bind\<close>, which are nil; the second validation of nested
  structures by the validator, which repeats the checks already made. Go unit tests (\<open>*_test.go\<close>) are not part of the
  program.
\<close>

end
